(* ===== verification/Wineing_Prelude.thy ===== *)
theory Wineing_Prelude
  imports Main "HOL-Library.Word"
begin

text \<open>
  Shared vocabulary of the development: machine integers, the faults a C++ program can run
  into, results that may be a fault, C buffers and C strings, and the mutex of pthreads.

  \<^item> \<open>c_int\<close> is a 32-bit signed \<open>int\<close> (compared through \<open>sint\<close>), \<open>int64\<close> a protobuf
    int64. A \<open>size_t\<close> is a \<open>nat\<close>: no size in the program comes near 2 ^ 64, and the
    one conversion of a \<open>size_t\<close> to an \<open>int\<close> (in \<open>chan_recv\<close>) is written out.
  \<^item> A function that can run into undefined behaviour, or block for ever, returns
    \<open>'a res\<close>: \<open>Inl\<close> names the fault, \<open>Inr\<close> holds the result.
  \<^item> A buffer of \<open>char\<close> is a \<open>string\<close> of its allocated length.
\<close>

named_theorems res_simps \<open>rewriting of results that may be a fault\<close>

type_synonym c_int = "32 word"
type_synonym int64 = "64 word"

datatype fault =
    OutOfBounds      \<comment> \<open>access outside an allocated object\<close>
  | NullDeref        \<comment> \<open>dereference of a null pointer\<close>
  | UninitRead       \<comment> \<open>use of a pointer that was never assigned\<close>
  | SignedOverflow   \<comment> \<open>signed integer overflow\<close>
  | BadFormat        \<comment> \<open>a printf directive without a matching argument\<close>
  | MutexMisuse      \<comment> \<open>use of a destroyed mutex, unlock of a free one\<close>
  | BadPointer       \<comment> \<open>use or release of memory that is not allocated\<close>
  | WouldBlock       \<comment> \<open>the call does not return in the given state\<close>

type_synonym 'a res = "fault + 'a"

fun res_bind :: "'a res \<Rightarrow> ('a \<Rightarrow> 'b res) \<Rightarrow> 'b res" where
  "res_bind (Inl e) f = Inl e"
| "res_bind (Inr x) f = f x"

lemma res_bind_eq_Inr [res_simps]:
  "res_bind m f = Inr y \<longleftrightarrow> (\<exists>x. m = Inr x \<and> f x = Inr y)"
  by (cases m) auto

lemma res_bind_assoc: "res_bind (res_bind m f) g = res_bind m (\<lambda>x. res_bind (f x) g)"
  by (cases m) auto

subsection \<open>Signed 32-bit integers\<close>

definition INT_MAX :: c_int where
  "INT_MAX = 2147483647"

text \<open>\<open>++x\<close> on an \<open>int\<close>: undefined when \<open>x\<close> is the largest value.\<close>

definition c_inc :: "c_int \<Rightarrow> c_int res" where
  "c_inc x = (if x = INT_MAX then Inl SignedOverflow else Inr (x + 1))"

lemma sint_range32: "- 2147483648 \<le> sint (x :: c_int)" "sint (x :: c_int) \<le> 2147483647"
  using sint_range_size [of x] by (auto simp: word_size)

lemma sint_eq_iff32: "x = y \<longleftrightarrow> sint (x :: c_int) = sint y"
  by (auto intro: signed_word_eqI)

lemma sint_INT_MAX [simp]: "sint INT_MAX = 2147483647"
  by (simp add: INT_MAX_def)

lemma sint_Suc32: "x \<noteq> INT_MAX \<Longrightarrow> sint (x + 1) = sint (x :: c_int) + 1"
proof -
  assume "x \<noteq> INT_MAX"
  then have "sint x < 2147483647"
    using sint_range32(2) [of x] sint_eq_iff32 [of x INT_MAX] by simp
  moreover have "- 2147483648 \<le> sint x" by (rule sint_range32)
  moreover have "sint (x + 1) = signed_take_bit 31 (sint x + 1)"
    by (simp add: sint_word_ariths)
  ultimately show ?thesis
    by (simp add: signed_take_bit_int_eq_self)
qed

lemma c_inc_Inr [res_simps]: "c_inc x = Inr y \<longleftrightarrow> x \<noteq> INT_MAX \<and> y = x + 1"
  by (auto simp: c_inc_def)

lemma c_inc_ok [simp]: "x \<noteq> INT_MAX \<Longrightarrow> c_inc x = Inr (x + 1)"
  by (simp add: c_inc_def)

lemma c_inc_overflow [simp]: "c_inc INT_MAX = Inl SignedOverflow"
  by (simp add: c_inc_def)

subsection \<open>Conversions between sizes and integers\<close>

text \<open>
  \<open>int\<close> to \<open>size_t\<close>, as in the call \<open>fn(data, read, obj)\<close>: a negative value becomes huge.
\<close>

definition size_t_of_int :: "c_int \<Rightarrow> nat" where
  "size_t_of_int i = unat (scast i :: 64 word)"

lemma mod_neg_once: "- m \<le> x \<Longrightarrow> x < 0 \<Longrightarrow> x mod m = x + (m :: int)"
proof -
  assume "- m \<le> x" "x < 0"
  then have "(x + m) mod m = x + m" by (intro mod_pos_pos_trivial) auto
  then show ?thesis by simp
qed

lemma mod_pos_once: "m \<le> x \<Longrightarrow> x < 2 * m \<Longrightarrow> x mod m = x - (m :: int)"
proof -
  assume "m \<le> x" "x < 2 * m"
  then have "(x - m) mod m = x - m" by (intro mod_pos_pos_trivial) auto
  then show ?thesis by (simp add: mod_diff_eq [symmetric])
qed

lemma sint_word_of_nat32: "sint (word_of_nat n :: c_int) = signed_take_bit 31 (int n)"
  by (simp add: signed_of_nat)

lemma sint_word_of_nat_small: "n < 2147483648 \<Longrightarrow> sint (word_of_nat n :: c_int) = int n"
  by (simp add: sint_word_of_nat32 signed_take_bit_int_eq_self)

lemma sint_word_of_nat_big:
  "2147483648 \<le> n \<Longrightarrow> n < 4294967296 \<Longrightarrow> sint (word_of_nat n :: c_int) = int n - 4294967296"
  by (simp add: sint_word_of_nat32 signed_take_bit_eq_take_bit_shift take_bit_int_def mod_pos_once)

lemma size_t_of_int_eq: "int (size_t_of_int i) = take_bit 64 (sint i)"
proof -
  have "uint (scast i :: 64 word) = take_bit 64 (sint i)" by transfer simp
  then show ?thesis by (simp add: size_t_of_int_def)
qed

lemma size_t_of_int_nonneg: "0 \<le> sint i \<Longrightarrow> size_t_of_int i = nat (sint i)"
  using size_t_of_int_eq [of i] sint_range32(2) [of i] by (simp add: take_bit_int_eq_self)

lemma size_t_of_int_neg: "sint i < 0 \<Longrightarrow> 4294967296 \<le> size_t_of_int i"
  using size_t_of_int_eq [of i] sint_range32(1) [of i]
  by (simp add: take_bit_int_def mod_neg_once)

lemma size_t_of_int_word_of_nat [simp]:
  "n < 2147483648 \<Longrightarrow> size_t_of_int (word_of_nat n) = n"
  by (simp add: size_t_of_int_nonneg sint_word_of_nat_small)

subsection \<open>Buffers and C strings\<close>

definition NUL :: char where
  "NUL = CHR 0x00"

text \<open>\<open>memcpy(dst, src, n)\<close>: the new contents of \<open>dst\<close>.\<close>

definition memcpy :: "string \<Rightarrow> string \<Rightarrow> nat \<Rightarrow> string res" where
  "memcpy dst src n =
     (if n \<le> length src \<and> n \<le> length dst then Inr (take n src @ drop n dst)
      else Inl OutOfBounds)"

lemma memcpy_Inr [res_simps]:
  "memcpy dst src n = Inr d \<longleftrightarrow>
     n \<le> length src \<and> n \<le> length dst \<and> d = take n src @ drop n dst"
  by (auto simp: memcpy_def)

lemma memcpy_overflow [simp]: "length dst < n \<Longrightarrow> memcpy dst src n = Inl OutOfBounds"
  by (simp add: memcpy_def)

lemma length_memcpy: "memcpy dst src n = Inr d \<Longrightarrow> length d = length dst"
  by (auto simp: res_simps)

text \<open>The bytes of \<open>s.c_str()\<close>, the terminating NUL included.\<close>

definition c_str :: "string \<Rightarrow> string" where
  "c_str s = s @ [NUL]"

text \<open>What a callee sees that reads a buffer as a C string.\<close>

definition read_cstr :: "string \<Rightarrow> string res" where
  "read_cstr b = (if NUL \<in> set b then Inr (takeWhile (\<lambda>c. c \<noteq> NUL) b) else Inl OutOfBounds)"

text \<open>What a callee sees that gets \<open>s.c_str()\<close>.\<close>

definition as_cstr :: "string \<Rightarrow> string" where
  "as_cstr s = takeWhile (\<lambda>c. c \<noteq> NUL) s"

lemma read_cstr_c_str: "read_cstr (c_str s @ t) = Inr (as_cstr s)"
  by (induction s) (auto simp: read_cstr_def c_str_def as_cstr_def split: if_splits)

lemma as_cstr_id [simp]: "NUL \<notin> set s \<Longrightarrow> as_cstr s = s"
  by (induction s) (auto simp: as_cstr_def)

lemma length_c_str [simp]: "length (c_str s) = length s + 1"
  by (simp add: c_str_def)

lemma takeWhile_NUL_append:
  "NUL \<notin> set s \<Longrightarrow> takeWhile (\<lambda>c. c \<noteq> NUL) (s @ NUL # t) = s"
  by (induction s) auto

lemma read_cstr_append: "NUL \<notin> set s \<Longrightarrow> read_cstr (c_str s @ t) = Inr s"
  by (simp add: read_cstr_def c_str_def takeWhile_NUL_append)

lemma read_c_str [simp]: "NUL \<notin> set s \<Longrightarrow> read_cstr (c_str s) = Inr s"
  using read_cstr_append [of s "[]"] by simp

subsection \<open>Mutexes\<close>

datatype mutex = MFree | MHeld | MDestroyed

definition pthread_mutex_lock :: "mutex \<Rightarrow> mutex res" where
  "pthread_mutex_lock m =
     (case m of MFree \<Rightarrow> Inr MHeld | MHeld \<Rightarrow> Inl WouldBlock | MDestroyed \<Rightarrow> Inl MutexMisuse)"

definition pthread_mutex_unlock :: "mutex \<Rightarrow> mutex res" where
  "pthread_mutex_unlock m =
     (case m of MHeld \<Rightarrow> Inr MFree | MFree \<Rightarrow> Inl MutexMisuse | MDestroyed \<Rightarrow> Inl MutexMisuse)"

text \<open>Destroying a mutex that is locked is undefined.\<close>

definition pthread_mutex_destroy :: "mutex \<Rightarrow> mutex res" where
  "pthread_mutex_destroy m = (if m = MFree then Inr MDestroyed else Inl MutexMisuse)"

lemma mutex_lock_Inr [res_simps]: "pthread_mutex_lock m = Inr m' \<longleftrightarrow> m = MFree \<and> m' = MHeld"
  by (cases m) (auto simp: pthread_mutex_lock_def)

lemma mutex_unlock_Inr [res_simps]: "pthread_mutex_unlock m = Inr m' \<longleftrightarrow> m = MHeld \<and> m' = MFree"
  by (cases m) (auto simp: pthread_mutex_unlock_def)

lemma mutex_simps [simp]:
  "pthread_mutex_lock MFree = Inr MHeld"
  "pthread_mutex_lock MHeld = Inl WouldBlock"
  "pthread_mutex_lock MDestroyed = Inl MutexMisuse"
  "pthread_mutex_unlock MHeld = Inr MFree"
  "pthread_mutex_unlock MDestroyed = Inl MutexMisuse"
  by (simp_all add: pthread_mutex_lock_def pthread_mutex_unlock_def)

subsection \<open>Condition variables\<close>

text \<open>
  No thread of the program ever waits on a condition variable, so a signal wakes nobody: all
  that is left of it is that the variable must not have been destroyed.
\<close>

datatype condvar = CReady | CDestroyed

definition pthread_cond_signal :: "condvar \<Rightarrow> condvar res" where
  "pthread_cond_signal c = (case c of CReady \<Rightarrow> Inr CReady | CDestroyed \<Rightarrow> Inl MutexMisuse)"

definition pthread_cond_destroy :: "condvar \<Rightarrow> condvar res" where
  "pthread_cond_destroy c = (case c of CReady \<Rightarrow> Inr CDestroyed | CDestroyed \<Rightarrow> Inl MutexMisuse)"

lemma cond_signal_ready [simp]: "pthread_cond_signal CReady = Inr CReady"
  by (simp add: pthread_cond_signal_def)

end
