(* ===== verification/Messages.thy ===== *)
theory Messages
  imports Wineing_Prelude
begin

text \<open>
  The protobuf messages of \<^verbatim>\<open>src/main/resources/protobuf\<close>: one datatype per enum and one
  record per message. The fields of a \<open>Request\<close> are read through its accessors only, and a
  successful parse has set the required ones; so these are plain fields, and
  \<open>has_tape_file\<close> is that \<open>tape_file\<close> is not \<open>None\<close>. \<open>Response\<close> and \<open>MarketData\<close> are built
  field by field from a cleared message, so each of their fields may be unset.

  The generated classes (parsing, serialising) are not part of the repository; they are
  parameters, see \<open>Externals\<close>.
\<close>

datatype Request_Type = MARKET_START | MARKET_STOP | SHUTDOWN

record Request =
  requestId :: int64
  req_type :: Request_Type
  tape_file :: "string option"

datatype Response_Type =
  MARKET_START_OK | MARKET_STOP_OK | SHUTDOWN_OK | ERR | MARKET_START_ERR_RUNNING

record Response =
  res_requestId :: "int64 option"
  res_type :: "Response_Type option"
  err_text :: "string option"

datatype MarketData_Type = STATUS | QUOTE_EX | QUOTE_MM | TRAGE | CATEGORY | SYMBOL

record MarketData =
  md_type :: "MarketData_Type option"

text \<open>
  \<open>Clear()\<close>. The accessors of a cleared request yield the defaults of protobuf: 0, the first
  value of the enum, no tape file.
\<close>

definition Request_Clear :: Request where
  "Request_Clear = \<lparr>requestId = 0, req_type = MARKET_START, tape_file = None\<rparr>"

definition Response_Clear :: Response where
  "Response_Clear = \<lparr>res_requestId = None, res_type = None, err_text = None\<rparr>"

definition MarketData_Clear :: MarketData where
  "MarketData_Clear = \<lparr>md_type = None\<rparr>"

text \<open>All required fields set: protobuf serialises only such messages.\<close>

definition Response_initialized :: "Response \<Rightarrow> bool" where
  "Response_initialized r \<longleftrightarrow> res_requestId r \<noteq> None \<and> res_type r \<noteq> None"

definition MarketData_initialized :: "MarketData \<Rightarrow> bool" where
  "MarketData_initialized m \<longleftrightarrow> md_type m \<noteq> None"

end
