(* ===== verification/Logging.thy ===== *)
theory Logging
  imports Wineing_Prelude
begin

text \<open>
  Model of \<^verbatim>\<open>src/main/c/inc/log/logging.h\<close>: the levels, the level test of the \<open>log\<close> macro,
  the three \<open>fprintf\<close> calls that make one line, and the part of \<open>fprintf\<close>'s formatting
  the program uses.

  The level the program is built with (\<open>LOG_LEVEL\<close>) is a parameter, since the Makefile sets
  it. The time string that \<open>strftime\<close> writes and \<open>__FILE__\<close>, \<open>__LINE__\<close> are arguments.
  A thread's output is kept as a list of records (level and formatted message);
  \<open>log_line\<close> renders a record as the macro prints it.

  ISO C leaves a directive without a matching argument undefined; so does \<open>c_format\<close>. The
  directives are the ones that occur in the sources: \<open>%s\<close>, \<open>%d\<close>, \<open>%i\<close>, \<open>%-5s\<close>, \<open>%%\<close>.
\<close>

subsection \<open>Levels\<close>

definition LOG_ALL :: nat where "LOG_ALL = 0"
definition LOG_DEBUG :: nat where "LOG_DEBUG = 1"
definition LOG_WARN :: nat where "LOG_WARN = 2"
definition LOG_INFO :: nat where "LOG_INFO = 3"
definition LOG_ERROR :: nat where "LOG_ERROR = 4"
definition LOG_NONE :: nat where "LOG_NONE = 5"

lemmas log_levels = LOG_ALL_def LOG_DEBUG_def LOG_WARN_def LOG_INFO_def LOG_ERROR_def LOG_NONE_def

definition LOG_STR :: "string list" where
  "LOG_STR = [''ALL'', ''DEBUG'', ''WARN'', ''INFO'', ''ERROR'', ''NONE'']"

text \<open>\<open>if(level > LOG_LEVEL - 1)\<close>, an \<open>int\<close> comparison.\<close>

definition log_enabled :: "nat \<Rightarrow> nat \<Rightarrow> bool" where
  "log_enabled LOG_LEVEL level \<longleftrightarrow> int level > int LOG_LEVEL - 1"

lemma log_enabled_iff: "log_enabled L level \<longleftrightarrow> L \<le> level"
  by (auto simp: log_enabled_def)

subsection \<open>printf\<close>

datatype fmt_arg = AStr string | AInt int

fun dec_digits :: "nat \<Rightarrow> nat \<Rightarrow> string" where
  "dec_digits 0 n = []"
| "dec_digits (Suc fuel) n =
     (if n < 10 then [char_of (48 + n)] else dec_digits fuel (n div 10) @ [char_of (48 + n mod 10)])"

definition show_int :: "int \<Rightarrow> string" where
  "show_int i = (if i < 0 then ''-'' else []) @ dec_digits (Suc (nat \<bar>i\<bar>)) (nat \<bar>i\<bar>)"

definition pad5 :: "string \<Rightarrow> string" where
  "pad5 s = s @ replicate (5 - length s) (CHR '' '')"

fun c_format :: "string \<Rightarrow> fmt_arg list \<Rightarrow> string res" where
  "c_format [] args = Inr []"
| "c_format (c # cs) args =
     (if c \<noteq> CHR ''%'' then res_bind (c_format cs args) (\<lambda>r. Inr (c # r))
      else case cs of
        [] \<Rightarrow> Inl BadFormat
      | d # ds \<Rightarrow>
          if d = CHR ''%'' then res_bind (c_format ds args) (\<lambda>r. Inr (CHR ''%'' # r))
          else case args of
            [] \<Rightarrow> Inl BadFormat
          | AStr s # as \<Rightarrow>
              if d = CHR ''s'' then res_bind (c_format ds as) (\<lambda>r. Inr (s @ r))
              else (case ds of
                 d1 # d2 # ds' \<Rightarrow>
                   if d = CHR ''-'' \<and> d1 = CHR ''5'' \<and> d2 = CHR ''s''
                   then res_bind (c_format ds' as) (\<lambda>r. Inr (pad5 s @ r)) else Inl BadFormat
               | _ \<Rightarrow> Inl BadFormat)
          | AInt i # as \<Rightarrow>
              if d = CHR ''d'' \<or> d = CHR ''i''
              then res_bind (c_format ds as) (\<lambda>r. Inr (show_int i @ r))
              else Inl BadFormat)"

declare c_format.simps(2) [simp del]

lemma c_format_plain [simp]:
  "c \<noteq> CHR ''%'' \<Longrightarrow> c_format (c # cs) args = res_bind (c_format cs args) (\<lambda>r. Inr (c # r))"
  by (simp add: c_format.simps(2))

lemma c_format_directives [simp]:
  "c_format (CHR ''%'' # CHR ''%'' # cs) args = res_bind (c_format cs args) (\<lambda>r. Inr (CHR ''%'' # r))"
  "c_format (CHR ''%'' # CHR ''s'' # cs) (AStr s # as) = res_bind (c_format cs as) (\<lambda>r. Inr (s @ r))"
  "c_format (CHR ''%'' # CHR ''d'' # cs) (AInt i # as) = res_bind (c_format cs as) (\<lambda>r. Inr (show_int i @ r))"
  "c_format (CHR ''%'' # CHR ''i'' # cs) (AInt i # as) = res_bind (c_format cs as) (\<lambda>r. Inr (show_int i @ r))"
  "c_format (CHR ''%'' # CHR ''-'' # CHR ''5'' # CHR ''s'' # cs) (AStr s # as) =
     res_bind (c_format cs as) (\<lambda>r. Inr (pad5 s @ r))"
  by (simp_all add: c_format.simps(2))

text \<open>
  A format with no argument is defined exactly when every percent sign is doubled, and then
  prints the text with the doubled signs halved.
\<close>

fun percent_doubled :: "string \<Rightarrow> bool" where
  "percent_doubled [] = True"
| "percent_doubled (c # cs) =
     (if c \<noteq> CHR ''%'' then percent_doubled cs
      else case cs of [] \<Rightarrow> False | d # ds \<Rightarrow> d = CHR ''%'' \<and> percent_doubled ds)"

declare percent_doubled.simps(2) [simp del]

lemma c_format_no_args: "(\<exists>r. c_format s [] = Inr r) \<longleftrightarrow> percent_doubled s"
proof (induction s rule: percent_doubled.induct)
  case 1
  then show ?case by simp
next
  case (2 c cs)
  then show ?case
    by (auto simp: c_format.simps(2) percent_doubled.simps(2) res_simps split: list.splits)
qed

lemma c_format_no_args_fault: "\<not> percent_doubled s \<Longrightarrow> c_format s [] = Inl BadFormat"
proof (induction s rule: percent_doubled.induct)
  case 1
  then show ?case by simp
next
  case (2 c cs)
  show ?case
  proof (cases "c = CHR ''%''")
    case False
    with 2 have "c_format cs [] = Inl BadFormat" by (simp add: percent_doubled.simps(2))
    with False show ?thesis by simp
  next
    case True
    note pct = this
    show ?thesis
    proof (cases cs)
      case Nil
      with pct show ?thesis by (simp add: c_format.simps(2))
    next
      case (Cons d ds)
      show ?thesis
      proof (cases "d = CHR ''%''")
        case True
        with 2 pct Cons have "c_format ds [] = Inl BadFormat" by (simp add: percent_doubled.simps(2))
        with True pct Cons show ?thesis by simp
      next
        case False
        with pct Cons show ?thesis by (simp add: c_format.simps(2))
      qed
    qed
  qed
qed

lemma percent_doubled_no_percent: "CHR ''%'' \<notin> set s \<Longrightarrow> percent_doubled s"
  by (induction s) (auto simp: percent_doubled.simps(2))

lemma c_format_no_percent: "CHR ''%'' \<notin> set s \<Longrightarrow> c_format s args = Inr s"
  by (induction s) auto

lemma percent_doubled_append_no_percent:
  "CHR ''%'' \<notin> set p \<Longrightarrow> percent_doubled (p @ s) = percent_doubled s"
  by (induction p) (auto simp: percent_doubled.simps(2))

subsection \<open>The log macro\<close>

text \<open>
  The record a \<open>log\<close> call adds: nothing when the level is switched off, the level and the
  formatted message otherwise. The format is not looked at when the level is off.
\<close>

type_synonym log_record = "nat \<times> string"

definition log_emit :: "nat \<Rightarrow> nat \<Rightarrow> string \<Rightarrow> fmt_arg list \<Rightarrow> log_record list \<Rightarrow> log_record list res" where
  "log_emit LOG_LEVEL level msg args out =
     (if log_enabled LOG_LEVEL level
      then res_bind (c_format msg args) (\<lambda>m. Inr (out @ [(level, m)]))
      else Inr out)"

text \<open>The line printed for a record: time, level padded to five, message, file and line.\<close>

definition log_line :: "string \<Rightarrow> nat \<Rightarrow> string \<Rightarrow> string \<Rightarrow> nat \<Rightarrow> string res" where
  "log_line buffer level m file line =
     (if level < length LOG_STR then
        res_bind (c_format ''%s: [%-5s] '' [AStr buffer, AStr (LOG_STR ! level)]) (\<lambda>hd.
        res_bind (c_format '' (%s:%d)\<newline>'' [AStr file, AInt (int line)]) (\<lambda>tl.
        Inr (hd @ m @ tl)))
      else Inl OutOfBounds)"

lemma log_emit_off: "\<not> log_enabled L level \<Longrightarrow> log_emit L level msg args out = Inr out"
  by (simp add: log_emit_def)

lemma log_emit_no_percent:
  "CHR ''%'' \<notin> set msg \<Longrightarrow>
   log_emit L level msg args out = Inr (if log_enabled L level then out @ [(level, msg)] else out)"
  by (simp add: log_emit_def c_format_no_percent)

lemma log_emit_extends:
  "log_emit L level msg args out = Inr out' \<Longrightarrow> \<exists>ext. out' = out @ ext \<and> length ext \<le> 1"
  by (auto simp: log_emit_def res_simps split: if_splits)

end
