(* ===== verification/Externals.thy ===== *)
theory Externals
  imports Messages Logging
begin

text \<open>
  Everything the program calls that is not in the repository: ZeroMQ, the generated protobuf
  classes, the Windows API and NxCore. They are the fields of one record \<open>env\<close>, which every
  definition that uses one of them takes as its first argument; nothing is assumed of them
  here, and a theorem that relies on documented behaviour of one states it as a hypothesis.
  The functions with an effect work on a world of arbitrary type \<open>'w\<close>.

  \<open>zmq_recv\<close> yields \<open>None\<close> while it blocks, and so does \<open>zmq_term\<close>. \<open>zmq_send\<close> gets the message bytes and whether
  a free function was given with them. The build's \<open>LOG_LEVEL\<close> is a field too.
\<close>

type_synonym void_ptr = "nat option"   \<comment> \<open>\<open>None\<close> is the null pointer\<close>

text \<open>
  Socket types. \<open>ZMQ_LITERAL_0\<close> is the literal 0 that \<open>_to_zmq_type\<close> starts from.
\<close>

datatype zmq_type =
  ZMQ_LITERAL_0 | ZMQ_PUB | ZMQ_SUB | ZMQ_REQ | ZMQ_REP | ZMQ_PULL | ZMQ_PUSH

datatype zmq_option = ZMQ_SUBSCRIBE

record 'w env =
  LOG_LEVEL :: nat
  zmq_socket :: "zmq_type \<Rightarrow> 'w \<Rightarrow> void_ptr \<times> 'w"
  zmq_bind :: "void_ptr \<Rightarrow> string \<Rightarrow> 'w \<Rightarrow> c_int \<times> 'w"
  zmq_connect :: "void_ptr \<Rightarrow> string \<Rightarrow> 'w \<Rightarrow> c_int \<times> 'w"
  zmq_setsockopt :: "void_ptr \<Rightarrow> zmq_option \<Rightarrow> string \<Rightarrow> 'w \<Rightarrow> 'w"
  zmq_recv :: "void_ptr \<Rightarrow> 'w \<Rightarrow> (c_int \<times> string \<times> 'w) option"
  zmq_send :: "void_ptr \<Rightarrow> string \<Rightarrow> bool \<Rightarrow> 'w \<Rightarrow> c_int \<times> 'w"
  zmq_close :: "void_ptr \<Rightarrow> 'w \<Rightarrow> 'w"
  zmq_term :: "'w \<Rightarrow> 'w option"
  zmq_strerror :: "'w \<Rightarrow> string"
  ParseRequest :: "string \<Rightarrow> c_int \<Rightarrow> Request option"
  SerializeResponse :: "Response \<Rightarrow> string"
  SerializeMarketData :: "MarketData \<Rightarrow> string"
  LoadLibrary :: "string \<Rightarrow> 'w \<Rightarrow> void_ptr \<times> 'w"
  GetLastError :: "'w \<Rightarrow> int"
  GetProcAddress :: "void_ptr \<Rightarrow> string \<Rightarrow> 'w \<Rightarrow> void_ptr"
  FreeLibrary :: "void_ptr \<Rightarrow> 'w \<Rightarrow> 'w"
  GetFileAttributes :: "string \<Rightarrow> 'w \<Rightarrow> 32 word"
  INVALID_FILE_ATTRIBUTES :: "32 word"
  FILE_ATTRIBUTE_DIRECTORY :: "32 word"

text \<open>The world and the log written so far.\<close>

record 'w io =
  world :: 'w
  stdout :: "log_record list"

definition log :: "'w env \<Rightarrow> nat \<Rightarrow> string \<Rightarrow> fmt_arg list \<Rightarrow> 'w io \<Rightarrow> 'w io res" where
  "log e level msg args io =
     res_bind (log_emit (LOG_LEVEL e) level msg args (stdout io)) (\<lambda>out. Inr (io\<lparr>stdout := out\<rparr>))"

definition on_world :: "('w \<Rightarrow> 'a \<times> 'w) \<Rightarrow> 'w io \<Rightarrow> 'a \<times> 'w io" where
  "on_world f io = (let (a, w) = f (world io) in (a, io\<lparr>world := w\<rparr>))"

lemma log_Inr_world: "log e level msg args io = Inr io' \<Longrightarrow> world io' = world io"
  by (auto simp: log_def res_simps)

text \<open>A constant text without percent sign is always printed as it is.\<close>

lemma log_plain:
  "CHR ''%'' \<notin> set msg \<Longrightarrow>
   log e level msg args io = Inr (io\<lparr>stdout := stdout io @
     (if log_enabled (LOG_LEVEL e) level then [(level, msg)] else [])\<rparr>)"
  by (simp add: log_def log_emit_no_percent)

text \<open>Formats whose directives match their arguments never fault.\<close>

definition log_fine :: "string \<Rightarrow> fmt_arg list \<Rightarrow> bool" where
  "log_fine msg args \<longleftrightarrow> (\<exists>m. c_format msg args = Inr m)"

lemma log_total: "log_fine msg args \<Longrightarrow> \<exists>io'. log e level msg args io = Inr io' \<and> world io' = world io"
  by (auto simp: log_fine_def log_def log_emit_def)

text \<open>The documented values of the Windows constants.\<close>

definition win_constants :: "'w env \<Rightarrow> bool" where
  "win_constants e \<longleftrightarrow> INVALID_FILE_ATTRIBUTES e = 0xFFFFFFFF \<and> FILE_ATTRIBUTE_DIRECTORY e = 0x10"

end
