(* ===== verification/Conc.thy ===== *)
theory Conc
  imports Wineing_Prelude
begin

text \<open>
  Model of \<^verbatim>\<open>src/main/c/impl/all/conc/conc.cc\<close>: the state shared through a version number, as
  one thread's calls see it when no other thread is inside. The interleaving of several
  threads inside these functions is \<open>Conc_Interleaving\<close>.

  The functions are generic in the data and in the copy function, as the \<open>void*\<close> code is:
  \<open>fn\<close> gets the source and the old destination and returns the new destination. Two locales
  state the interfaces: \<open>copy_pair\<close> is what a client owes to the functions (its two copy
  functions transport a view of the data), \<open>versioned_cell\<close> is what a client gets back (a
  cell it can publish to and synchronise with); every \<open>copy_pair\<close> is one.
\<close>

subsection \<open>State and operations\<close>

record conc_state =
  g_version :: c_int
  g_lock :: mutex

text \<open>The static initialisers: version 0 and a zeroed mutex.\<close>

definition conc_static :: conc_state where
  "conc_static = \<lparr>g_version = 0, g_lock = MFree\<rparr>"

definition lazy_init :: "c_int \<Rightarrow> conc_state \<Rightarrow> conc_state" where
  "lazy_init initial_version s = s\<lparr>g_version := initial_version, g_lock := MFree\<rparr>"

definition lazy_destroy :: "conc_state \<Rightarrow> conc_state res" where
  "lazy_destroy s = res_bind (pthread_mutex_destroy (g_lock s)) (\<lambda>m. Inr (s\<lparr>g_lock := m\<rparr>))"

definition lock_g :: "conc_state \<Rightarrow> conc_state res" where
  "lock_g s = res_bind (pthread_mutex_lock (g_lock s)) (\<lambda>m. Inr (s\<lparr>g_lock := m\<rparr>))"

definition unlock_g :: "conc_state \<Rightarrow> conc_state res" where
  "unlock_g s = res_bind (pthread_mutex_unlock (g_lock s)) (\<lambda>m. Inr (s\<lparr>g_lock := m\<rparr>))"

definition lazy_update_global_if_owner ::
    "('t \<Rightarrow> 'g \<Rightarrow> 'g res) \<Rightarrow> c_int \<Rightarrow> 't \<Rightarrow> conc_state \<times> 'g \<Rightarrow> (c_int \<times> conc_state \<times> 'g) res" where
  "lazy_update_global_if_owner fn t_version t_data sg =
     (let (s, g_data) = sg in
      if t_version = g_version s then
        res_bind (lock_g s) (\<lambda>s.
        res_bind (c_inc t_version) (\<lambda>t_version.
        let s = s\<lparr>g_version := t_version\<rparr> in
        res_bind (fn t_data g_data) (\<lambda>g_data.
        res_bind (unlock_g s) (\<lambda>s.
        Inr (t_version, s, g_data)))))
      else Inr (g_version s, s, g_data))"

definition lazy_update_local_if_changed ::
    "('t \<Rightarrow> 'g \<Rightarrow> 't res) \<Rightarrow> c_int \<Rightarrow> 't \<Rightarrow> conc_state \<times> 'g \<Rightarrow> (c_int \<times> 't \<times> conc_state \<times> 'g) res" where
  "lazy_update_local_if_changed fn t_version t_data sg =
     (let (s, g_data) = sg in
      if t_version = g_version s then Inr (t_version, t_data, s, g_data)
      else
        res_bind (lock_g s) (\<lambda>s.
        let t_version = g_version s in
        res_bind (fn t_data g_data) (\<lambda>t_data.
        res_bind (unlock_g s) (\<lambda>s.
        Inr (t_version, t_data, s, g_data)))))"

lemmas conc_op_defs = lazy_update_global_if_owner_def lazy_update_local_if_changed_def
  lock_g_def unlock_g_def

lemma lock_unlock_g:
  "lock_g s = Inr s' \<longleftrightarrow> g_lock s = MFree \<and> s' = s\<lparr>g_lock := MHeld\<rparr>"
  "unlock_g s = Inr s' \<longleftrightarrow> g_lock s = MHeld \<and> s' = s\<lparr>g_lock := MFree\<rparr>"
  by (auto simp: lock_g_def unlock_g_def res_simps)

lemma conc_free_eq: "g_lock s = MFree \<Longrightarrow> s\<lparr>g_lock := MFree\<rparr> = s"
  by (cases s) simp

subsection \<open>Behaviour of the operations, branch by branch\<close>

text \<open>Not the owner: nothing is written, the caller gets the global version.\<close>

lemma update_global_not_owner:
  "tv \<noteq> g_version s \<Longrightarrow> lazy_update_global_if_owner fn tv t (s, g) = Inr (g_version s, s, g)"
  by (simp add: lazy_update_global_if_owner_def)

lemma update_global_owner:
  "g_lock s = MFree \<Longrightarrow> tv = g_version s \<Longrightarrow> tv \<noteq> INT_MAX \<Longrightarrow> fn t g = Inr g' \<Longrightarrow>
   lazy_update_global_if_owner fn tv t (s, g) = Inr (tv + 1, s\<lparr>g_version := tv + 1\<rparr>, g')"
  by (cases s) (simp add: conc_op_defs)

lemma update_global_fault:
  "g_lock s = MFree \<Longrightarrow> tv = g_version s \<Longrightarrow> tv \<noteq> INT_MAX \<Longrightarrow> fn t g = Inl e \<Longrightarrow>
   lazy_update_global_if_owner fn tv t (s, g) = Inl e"
  by (simp add: conc_op_defs)

lemma update_global_overflow:
  "g_lock s = MFree \<Longrightarrow> g_version s = INT_MAX \<Longrightarrow>
   lazy_update_global_if_owner fn INT_MAX t (s, g) = Inl SignedOverflow"
  by (simp add: conc_op_defs)

lemma update_local_same:
  "tv = g_version s \<Longrightarrow> lazy_update_local_if_changed fn tv t (s, g) = Inr (tv, t, s, g)"
  by (simp add: lazy_update_local_if_changed_def)

lemma update_local_changed:
  "g_lock s = MFree \<Longrightarrow> tv \<noteq> g_version s \<Longrightarrow> fn t g = Inr t' \<Longrightarrow>
   lazy_update_local_if_changed fn tv t (s, g) = Inr (g_version s, t', s, g)"
  by (cases s) (simp add: conc_op_defs)

lemma lazy_destroyD: "lazy_destroy s = Inr s' \<Longrightarrow> s' = s\<lparr>g_lock := MDestroyed\<rparr>"
  by (simp add: lazy_destroy_def pthread_mutex_destroy_def split: if_splits)

text \<open>After \<open>lazy_destroy\<close> only the lock-free branches still work.\<close>

lemma update_global_destroyed:
  "lazy_destroy s = Inr s' \<Longrightarrow> tv = g_version s \<Longrightarrow>
   lazy_update_global_if_owner fn tv t (s', g) = Inl MutexMisuse"
  by (drule lazy_destroyD) (simp add: conc_op_defs)

lemma update_local_destroyed:
  "lazy_destroy s = Inr s' \<Longrightarrow> tv \<noteq> g_version s \<Longrightarrow>
   lazy_update_local_if_changed fn tv t (s', g) = Inl MutexMisuse"
  by (drule lazy_destroyD) (simp add: conc_op_defs)

subsection \<open>The interface a client sees: a versioned cell\<close>

text \<open>
  \<open>publish\<close> and \<open>sync\<close> work on a cell of type \<open>'s\<close> with a version and a content;
  \<open>view\<close> is what of a thread's local data the cell transports.
\<close>

locale versioned_cell =
  fixes publish :: "c_int \<Rightarrow> 't \<Rightarrow> 's \<Rightarrow> (c_int \<times> 's) res"
    and sync :: "c_int \<Rightarrow> 't \<Rightarrow> 's \<Rightarrow> (c_int \<times> 't \<times> 's) res"
    and version :: "'s \<Rightarrow> c_int"
    and content :: "'s \<Rightarrow> 'v"
    and view :: "'t \<Rightarrow> 'v"
    and okS :: "'s \<Rightarrow> bool"
    and okT :: "'t \<Rightarrow> bool"
  assumes publish_owner:
      "okS s \<Longrightarrow> okT t \<Longrightarrow> version s \<noteq> INT_MAX \<Longrightarrow>
       \<exists>s'. publish (version s) t s = Inr (version s + 1, s') \<and> okS s' \<and>
            version s' = version s + 1 \<and> content s' = view t"
    and publish_other: "v \<noteq> version s \<Longrightarrow> publish v t s = Inr (version s, s)"
    and sync_same: "sync (version s) t s = Inr (version s, t, s)"
    and sync_changed:
      "okS s \<Longrightarrow> okT t \<Longrightarrow> v \<noteq> version s \<Longrightarrow>
       \<exists>t'. sync v t s = Inr (version s, t', s) \<and> okT t' \<and> view t' = content s"
begin

text \<open>A thread whose version is the cell's has the cell's content.\<close>

definition coherent :: "c_int \<Rightarrow> 't \<Rightarrow> 's \<Rightarrow> bool" where
  "coherent v t s \<longleftrightarrow> (v = version s \<longrightarrow> view t = content s)"

lemma sync_total:
  assumes "okS s" "okT t" "coherent v t s"
  shows "\<exists>t'. sync v t s = Inr (version s, t', s) \<and> okT t' \<and> view t' = content s"
proof (cases "v = version s")
  case True
  with assms show ?thesis by (auto simp: sync_same coherent_def)
next
  case False
  with assms show ?thesis by (intro sync_changed)
qed

text \<open>Synchronising twice is synchronising once.\<close>

lemma sync_idem:
  assumes "okS s" "okT t" "sync v t s = Inr (v', t', s')"
  shows "v' = version s \<and> s' = s \<and> sync v' t' s' = Inr (v', t', s')"
proof (cases "v = version s")
  case True
  with assms(3) show ?thesis by (auto simp: sync_same)
next
  case False
  from sync_changed [OF assms(1,2) False] assms(3) show ?thesis by (auto simp: sync_same)
qed

text \<open>
  What the owner publishes, any thread whose version is not ahead reads back. The side
  condition is what keeps a reader from mistaking the new version for one it has.
\<close>

lemma publish_sync:
  assumes "okS s" "okT t" "okT u" "version s \<noteq> INT_MAX" "sint rv \<le> sint (version s)"
  shows "\<exists>s' u'. publish (version s) t s = Inr (version s + 1, s') \<and> okS s' \<and>
     sync rv u s' = Inr (version s + 1, u', s') \<and> okT u' \<and> view u' = view t"
proof -
  obtain s' where s': "publish (version s) t s = Inr (version s + 1, s')" "okS s'"
      "version s' = version s + 1" "content s' = view t"
    using publish_owner [OF assms(1,2,4)] by blast
  have "rv \<noteq> version s'"
    using assms(5) s'(3) sint_Suc32 [OF assms(4)] by auto
  from sync_changed [OF s'(2) assms(3) this] s' show ?thesis by auto
qed

text \<open>A sequence of publications by one owner: the version counts them, the last one stays.\<close>

fun publish_all :: "c_int \<Rightarrow> 't list \<Rightarrow> 's \<Rightarrow> (c_int \<times> 's) res" where
  "publish_all v [] s = Inr (v, s)"
| "publish_all v (t # ts) s = res_bind (publish v t s) (\<lambda>(v', s'). publish_all v' ts s')"

lemma publish_all_counts:
  assumes "okS s" "\<forall>t \<in> set ts. okT t" "sint (version s) + int (length ts) \<le> 2147483647"
  shows "\<exists>v' s'. publish_all (version s) ts s = Inr (v', s') \<and> okS s' \<and> v' = version s' \<and>
     sint v' = sint (version s) + int (length ts) \<and>
     (ts \<noteq> [] \<longrightarrow> content s' = view (last ts))"
  using assms
proof (induction ts arbitrary: s)
  case Nil
  then show ?case by simp
next
  case (Cons t ts)
  from Cons.prems(3) have ne: "version s \<noteq> INT_MAX" by auto
  with Cons.prems obtain s1 where s1: "publish (version s) t s = Inr (version s + 1, s1)"
      "okS s1" "version s1 = version s + 1" "content s1 = view t"
    using publish_owner [of s t] by auto
  have "sint (version s1) = sint (version s) + 1"
    using s1(3) ne by (simp add: sint_Suc32)
  with Cons.prems Cons.IH [OF s1(2)] s1 show ?case
    by (cases ts) auto
qed

end

subsection \<open>What a client owes: a pair of copy functions\<close>

locale copy_pair =
  fixes put :: "'t \<Rightarrow> 'g \<Rightarrow> 'g res"
    and get :: "'t \<Rightarrow> 'g \<Rightarrow> 't res"
    and viewT :: "'t \<Rightarrow> 'v"
    and viewG :: "'g \<Rightarrow> 'v"
    and okT :: "'t \<Rightarrow> bool"
    and okG :: "'g \<Rightarrow> bool"
  assumes put_ok: "okT t \<Longrightarrow> okG g \<Longrightarrow> \<exists>g'. put t g = Inr g' \<and> okG g' \<and> viewG g' = viewT t"
    and get_ok: "okT t \<Longrightarrow> okG g \<Longrightarrow> \<exists>t'. get t g = Inr t' \<and> okT t' \<and> viewT t' = viewG g"
begin

definition cell_ok :: "conc_state \<times> 'g \<Rightarrow> bool" where
  "cell_ok sg \<longleftrightarrow> g_lock (fst sg) = MFree \<and> okG (snd sg)"

lemma cell_publish:
  assumes "cell_ok sg" "okT t" "g_version (fst sg) \<noteq> INT_MAX"
  shows "\<exists>sg'. lazy_update_global_if_owner put (g_version (fst sg)) t sg =
       Inr (g_version (fst sg) + 1, sg') \<and> cell_ok sg' \<and>
     g_version (fst sg') = g_version (fst sg) + 1 \<and> viewG (snd sg') = viewT t"
proof -
  obtain s g where sg: "sg = (s, g)" by (cases sg)
  with assms obtain g' where "put t g = Inr g'" "okG g'" "viewG g' = viewT t"
    using put_ok [of t g] by (auto simp: cell_ok_def)
  with assms sg show ?thesis
    by (auto simp: cell_ok_def update_global_owner)
qed

lemma cell_sync:
  assumes "cell_ok sg" "okT t" "v \<noteq> g_version (fst sg)"
  shows "\<exists>t'. lazy_update_local_if_changed get v t sg = Inr (g_version (fst sg), t', sg) \<and>
     okT t' \<and> viewT t' = viewG (snd sg)"
proof -
  obtain s g where sg: "sg = (s, g)" by (cases sg)
  with assms obtain t' where "get t g = Inr t'" "okT t'" "viewT t' = viewG g"
    using get_ok [of t g] by (auto simp: cell_ok_def)
  with assms sg show ?thesis
    by (auto simp: cell_ok_def update_local_changed)
qed

end

sublocale copy_pair \<subseteq> cell: versioned_cell "lazy_update_global_if_owner put"
    "lazy_update_local_if_changed get" "\<lambda>sg. g_version (fst sg)" "\<lambda>sg. viewG (snd sg)"
    viewT cell_ok okT
proof unfold_locales
  show "\<And>s t. cell_ok s \<Longrightarrow> okT t \<Longrightarrow> g_version (fst s) \<noteq> INT_MAX \<Longrightarrow>
      \<exists>s'. lazy_update_global_if_owner put (g_version (fst s)) t s =
             Inr (g_version (fst s) + 1, s') \<and> cell_ok s' \<and>
           g_version (fst s') = g_version (fst s) + 1 \<and> viewG (snd s') = viewT t"
    by (rule cell_publish)
  show "\<And>v s t. v \<noteq> g_version (fst s) \<Longrightarrow>
      lazy_update_global_if_owner put v t s = Inr (g_version (fst s), s)"
    by (auto simp: update_global_not_owner)
  show "\<And>s t. lazy_update_local_if_changed get (g_version (fst s)) t s =
      Inr (g_version (fst s), t, s)"
    by (auto simp: update_local_same split_paired_all)
  show "\<And>s t v. cell_ok s \<Longrightarrow> okT t \<Longrightarrow> v \<noteq> g_version (fst s) \<Longrightarrow>
      \<exists>t'. lazy_update_local_if_changed get v t s = Inr (g_version (fst s), t', s) \<and>
           okT t' \<and> viewT t' = viewG (snd s)"
    by (rule cell_sync)
qed

subsection \<open>The reference: always copy under the lock\<close>

text \<open>
  What the double-checked test optimises: a reader that takes the lock and copies in any case.
\<close>

definition locked_update_local ::
    "('t \<Rightarrow> 'g \<Rightarrow> 't res) \<Rightarrow> 't \<Rightarrow> conc_state \<times> 'g \<Rightarrow> (c_int \<times> 't \<times> conc_state \<times> 'g) res" where
  "locked_update_local fn t_data sg =
     (let (s, g_data) = sg in
      res_bind (lock_g s) (\<lambda>s.
      let t_version = g_version s in
      res_bind (fn t_data g_data) (\<lambda>t_data.
      res_bind (unlock_g s) (\<lambda>s.
      Inr (t_version, t_data, s, g_data)))))"

lemma locked_update_local_changed:
  "tv \<noteq> g_version (fst sg) \<Longrightarrow> lazy_update_local_if_changed fn tv t sg = locked_update_local fn t sg"
  by (cases sg) (simp add: lazy_update_local_if_changed_def locked_update_local_def)

text \<open>
  The two agree when copying what a thread already has changes nothing.
\<close>

locale exact_copy_pair = copy_pair +
  assumes get_same: "okT t \<Longrightarrow> okG g \<Longrightarrow> viewT t = viewG g \<Longrightarrow> get t g = Inr t"
begin

lemma locked_same:
  assumes "cell_ok sg" "okT t" "viewT t = viewG (snd sg)"
  shows "locked_update_local get t sg = Inr (g_version (fst sg), t, sg)"
proof -
  obtain s g where sg: "sg = (s, g)" by (cases sg)
  with assms have "get t g = Inr t" by (intro get_same) (simp_all add: cell_ok_def)
  with assms(1) sg show ?thesis
    by (simp add: locked_update_local_def cell_ok_def lock_g_def unlock_g_def conc_free_eq)
qed

lemma unlocked_test_equiv:
  assumes "cell_ok sg" "okT t" "v = g_version (fst sg) \<longrightarrow> viewT t = viewG (snd sg)"
  shows "lazy_update_local_if_changed get v t sg = locked_update_local get t sg"
proof (cases "v = g_version (fst sg)")
  case True
  with assms(3) locked_same [OF assms(1,2)] show ?thesis
    by (cases sg) (simp add: update_local_same)
next
  case False
  then show ?thesis by (rule locked_update_local_changed)
qed

end

end
