(* ===== verification/Ctrl_Data.thy ===== *)
theory Ctrl_Data
  imports Conc
begin

text \<open>
  Model of \<^verbatim>\<open>src/main/c/inc/core/wineing.h\<close>: the defaults, the command numbers, \<open>w_conf\<close>,
  the control record \<open>w_ctrl\<close> that the threads share, and its two copy functions. The copy
  functions are shown to be a \<open>copy_pair\<close>, so that the theorems on versioned cells apply to
  the cell the program shares.

  \<open>data\<close> points to a buffer of its own for every instance of \<open>w_ctrl\<close> (each is initialised
  with its own \<open>new char[1024]\<close> and the pointer is never assigned), so the buffer is a field.
  Its bytes are indeterminate at first: every \<open>w_ctrl\<close> starts from a buffer that is an
  argument of the model.
\<close>

subsection \<open>Defaults and command numbers\<close>

definition DEFAULTS_CCHAN_IN_NAME :: string where "DEFAULTS_CCHAN_IN_NAME = ''tcp://*:9990''"
definition DEFAULTS_CCHAN_OUT_NAME :: string where "DEFAULTS_CCHAN_OUT_NAME = ''tcp://*:9991''"
definition DEFAULTS_MCHAN_NAME :: string where "DEFAULTS_MCHAN_NAME = ''tcp://*:9992''"
definition DEFAULTS_ICHAN_NAME :: string where "DEFAULTS_ICHAN_NAME = ''inproc://ctrl.out''"
definition DEFAULTS_TAPE_BASE_DIR :: string where
  "DEFAULTS_TAPE_BASE_DIR = ''C:'' @ [CHR 0x5C] @ ''md'' @ [CHR 0x5C]"
definition DEFAULTS_SHARED_VERSION_INIT :: c_int where "DEFAULTS_SHARED_VERSION_INIT = 0"
definition DEFAULTS_SHARED_VERSION_READ_INIT :: c_int where "DEFAULTS_SHARED_VERSION_READ_INIT = - 1"

definition WINEING_CTRL_CMD_INIT :: c_int where "WINEING_CTRL_CMD_INIT = 4"
definition WINEING_CTRL_CMD_MARKET_RUN :: c_int where "WINEING_CTRL_CMD_MARKET_RUN = 3"
definition WINEING_CTRL_CMD_MARKET_STOP :: c_int where "WINEING_CTRL_CMD_MARKET_STOP = 2"
definition WINEING_CTRL_CMD_MARKET_INIT :: c_int where "WINEING_CTRL_CMD_MARKET_INIT = 1"
definition WINEING_CTRL_CMD_SHUTDOWN :: c_int where "WINEING_CTRL_CMD_SHUTDOWN = 0"
definition WINEING_CTRL_DEFAULT_DATA_SIZE :: nat where "WINEING_CTRL_DEFAULT_DATA_SIZE = 1024"

lemmas ctrl_cmds = WINEING_CTRL_CMD_INIT_def WINEING_CTRL_CMD_MARKET_RUN_def
  WINEING_CTRL_CMD_MARKET_STOP_def WINEING_CTRL_CMD_MARKET_INIT_def
  WINEING_CTRL_CMD_SHUTDOWN_def

lemmas shared_versions = DEFAULTS_SHARED_VERSION_INIT_def DEFAULTS_SHARED_VERSION_READ_INIT_def

subsection \<open>Configuration and control record\<close>

text \<open>
  A \<open>const char*\<close> of the configuration points to a C string, or, after \<open>cmd_parse_opt\<close>
  on an argument without an equals sign, one past the end of one: reading that is a fault.
\<close>

datatype c_ptr = CStr string | PastEnd

fun deref :: "c_ptr \<Rightarrow> string res" where
  "deref (CStr s) = Inr s"
| "deref PastEnd = Inl OutOfBounds"

record w_conf =
  cchan_in_fqcn :: c_ptr
  cchan_out_fqcn :: c_ptr
  mchan_fqcn :: c_ptr
  tape_basedir :: c_ptr

record w_ctrl =
  w_cmd :: c_int
  w_data :: string
  w_size :: nat

text \<open>The static initialiser all five instances share, over the buffer \<open>new\<close> returned.\<close>

definition ctrl_init :: "string \<Rightarrow> w_ctrl" where
  "ctrl_init buf = \<lparr>w_cmd = WINEING_CTRL_CMD_INIT, w_data = buf, w_size = 0\<rparr>"

definition copy_local_to_shared :: "w_ctrl \<Rightarrow> w_ctrl \<Rightarrow> w_ctrl res" where
  "copy_local_to_shared local shared =
     (let shared = shared\<lparr>w_cmd := w_cmd local\<rparr>;
          shared = shared\<lparr>w_size := w_size local\<rparr>
      in if 0 < w_size local
         then res_bind (memcpy (w_data shared) (w_data local) (w_size local)) (\<lambda>d.
              Inr (shared\<lparr>w_data := d\<rparr>))
         else Inr shared)"

definition copy_shared_to_local :: "w_ctrl \<Rightarrow> w_ctrl \<Rightarrow> w_ctrl res" where
  "copy_shared_to_local local shared =
     (let local = local\<lparr>w_cmd := w_cmd shared\<rparr>;
          local = local\<lparr>w_size := w_size shared\<rparr>
      in if 0 < w_size shared
         then res_bind (memcpy (w_data local) (w_data shared) (w_size shared)) (\<lambda>d.
              Inr (local\<lparr>w_data := d\<rparr>))
         else Inr local)"

lemmas copy_defs = copy_local_to_shared_def copy_shared_to_local_def Let_def

subsection \<open>The copy functions transport command, size and the first size bytes\<close>

definition wf_ctrl :: "w_ctrl \<Rightarrow> bool" where
  "wf_ctrl c \<longleftrightarrow> length (w_data c) = WINEING_CTRL_DEFAULT_DATA_SIZE \<and>
     w_size c \<le> WINEING_CTRL_DEFAULT_DATA_SIZE"

definition ctrl_view :: "w_ctrl \<Rightarrow> c_int \<times> string" where
  "ctrl_view c = (w_cmd c, take (w_size c) (w_data c))"

lemma wf_ctrl_init: "length buf = WINEING_CTRL_DEFAULT_DATA_SIZE \<Longrightarrow> wf_ctrl (ctrl_init buf)"
  by (simp add: wf_ctrl_def ctrl_init_def)

lemma ctrl_view_init: "ctrl_view (ctrl_init buf) = (WINEING_CTRL_CMD_INIT, [])"
  by (simp add: ctrl_view_def ctrl_init_def)

lemma copy_local_to_shared_eq:
  "wf_ctrl t \<Longrightarrow> wf_ctrl g \<Longrightarrow>
   copy_local_to_shared t g = Inr (g\<lparr>w_cmd := w_cmd t, w_size := w_size t,
     w_data := take (w_size t) (w_data t) @ drop (w_size t) (w_data g)\<rparr>)"
  by (cases g) (auto simp: copy_defs wf_ctrl_def memcpy_def)

lemma copy_shared_to_local_eq:
  "wf_ctrl t \<Longrightarrow> wf_ctrl g \<Longrightarrow>
   copy_shared_to_local t g = Inr (t\<lparr>w_cmd := w_cmd g, w_size := w_size g,
     w_data := take (w_size g) (w_data g) @ drop (w_size g) (w_data t)\<rparr>)"
  by (cases t) (auto simp: copy_defs wf_ctrl_def memcpy_def)

lemma copy_shared_to_local_same:
  assumes "wf_ctrl t" "wf_ctrl g" "ctrl_view t = ctrl_view g"
  shows "copy_shared_to_local t g = Inr t"
proof -
  have len: "w_size t \<le> length (w_data t)" "w_size g \<le> length (w_data g)"
    using assms(1,2) by (simp_all add: wf_ctrl_def)
  from assms(3) have v: "w_cmd t = w_cmd g" "take (w_size t) (w_data t) = take (w_size g) (w_data g)"
    by (simp_all add: ctrl_view_def)
  from arg_cong [OF v(2), of length] len have n: "w_size t = w_size g" by simp
  have "take (w_size g) (w_data g) @ drop (w_size g) (w_data t) = w_data t"
    using v(2) n by (metis append_take_drop_id)
  with v(1) n show ?thesis
    using copy_shared_to_local_eq [OF assms(1,2)] by (cases t) simp
qed

interpretation wctrl: exact_copy_pair copy_local_to_shared copy_shared_to_local ctrl_view ctrl_view
    wf_ctrl wf_ctrl
proof unfold_locales
  show "\<exists>g'. copy_local_to_shared t g = Inr g' \<and> wf_ctrl g' \<and> ctrl_view g' = ctrl_view t"
    if "wf_ctrl t" "wf_ctrl g" for t g
    using that by (auto simp: copy_local_to_shared_eq ctrl_view_def wf_ctrl_def)
  show "\<exists>t'. copy_shared_to_local t g = Inr t' \<and> wf_ctrl t' \<and> ctrl_view t' = ctrl_view g"
    if "wf_ctrl t" "wf_ctrl g" for t g
    using that by (auto simp: copy_shared_to_local_eq ctrl_view_def wf_ctrl_def)
qed (rule copy_shared_to_local_same)

text \<open>
  With size 0 the copies carry the command only: the destination keeps its old bytes.
\<close>

lemma copy_shared_to_local_size0:
  "w_size g = 0 \<Longrightarrow> copy_shared_to_local t g = Inr (t\<lparr>w_cmd := w_cmd g, w_size := 0\<rparr>)"
  by (simp add: copy_defs)

lemma copy_local_to_shared_size0:
  "w_size t = 0 \<Longrightarrow> copy_local_to_shared t g = Inr (g\<lparr>w_cmd := w_cmd t, w_size := 0\<rparr>)"
  by (simp add: copy_defs)

text \<open>A size beyond a buffer is a fault: the functions trust their source.\<close>

lemma copy_shared_to_local_overflow:
  "length (w_data t) < w_size g \<Longrightarrow> copy_shared_to_local t g = Inl OutOfBounds"
  by (auto simp: copy_defs)

subsection \<open>Properties of the shared control cell\<close>

lemma wctrl_cell_ok: "wctrl.cell_ok (s, g) \<longleftrightarrow> g_lock s = MFree \<and> wf_ctrl g"
  by (simp add: wctrl.cell_ok_def)

text \<open>
  C34. What the owner of the version publishes with lazy_update_global_if_owner, a thread
  whose version is not ahead receives with lazy_update_local_if_changed: the new version
  number, the command, the size and the data bytes up to the size; both calls leave the lock
  free and all buffers well-formed.
\<close>
theorem publish_then_sync:
  assumes "g_lock s = MFree" "wf_ctrl g" "wf_ctrl t" "wf_ctrl u"
    and "g_version s \<noteq> INT_MAX" "sint rv \<le> sint (g_version s)"
  shows "\<exists>s' g' u'.
     lazy_update_global_if_owner copy_local_to_shared (g_version s) t (s, g) =
       Inr (g_version s + 1, s', g') \<and>
     lazy_update_local_if_changed copy_shared_to_local rv u (s', g') =
       Inr (g_version s + 1, u', s', g') \<and>
     g_lock s' = MFree \<and> wf_ctrl g' \<and> wf_ctrl u' \<and> ctrl_view u' = ctrl_view t"
  using wctrl.cell.publish_sync [of "(s, g)" t u rv] assms by (fastforce simp: wctrl_cell_ok)

theorem publish_then_sync_witness:
  "\<exists>s' g' u'.
     lazy_update_global_if_owner copy_local_to_shared 0
         \<lparr>w_cmd = 3, w_data = replicate 1024 (CHR ''t''), w_size = 9\<rparr>
         (conc_static, ctrl_init (replicate 1024 NUL)) = Inr (1, s', g') \<and>
     lazy_update_local_if_changed copy_shared_to_local (- 1) (ctrl_init (replicate 1024 NUL)) (s', g') =
       Inr (1, u', s', g') \<and>
     ctrl_view u' = (3, replicate 9 (CHR ''t''))"
  using publish_then_sync [of conc_static "ctrl_init (replicate 1024 NUL)"
      "\<lparr>w_cmd = 3, w_data = replicate 1024 (CHR ''t''), w_size = 9\<rparr>"
      "ctrl_init (replicate 1024 NUL)" "- 1"]
  by (auto simp: conc_static_def wf_ctrl_def ctrl_init_def ctrl_view_def INT_MAX_def
      WINEING_CTRL_DEFAULT_DATA_SIZE_def)

end
