(* ===== verification/Chan.thy ===== *)
theory Chan
  imports Externals Ctrl_Data
begin

text \<open>
  Model of \<^verbatim>\<open>src/main/c/inc/net/chan.h\<close> and \<^verbatim>\<open>src/main/c/impl/all/net/chan.cc\<close>: channels over
  ZeroMQ sockets. A \<open>chan\<close> is created without a socket; \<open>chan_bind\<close> creates it and binds or
  connects it; \<open>chan_recv\<close> hands one message to a callback; \<open>chan_send\<close> sends a buffer.
\<close>

definition CHAN_TYPE_PUB :: c_int where "CHAN_TYPE_PUB = 0"
definition CHAN_TYPE_SUB :: c_int where "CHAN_TYPE_SUB = 1"
definition CHAN_TYPE_REQ :: c_int where "CHAN_TYPE_REQ = 2"
definition CHAN_TYPE_REP :: c_int where "CHAN_TYPE_REP = 3"
definition CHAN_TYPE_PULL_BIND :: c_int where "CHAN_TYPE_PULL_BIND = 4"
definition CHAN_TYPE_PULL_CONNECT :: c_int where "CHAN_TYPE_PULL_CONNECT = 5"
definition CHAN_TYPE_PUSH_BIND :: c_int where "CHAN_TYPE_PUSH_BIND = 6"
definition CHAN_TYPE_PUSH_CONNECT :: c_int where "CHAN_TYPE_PUSH_CONNECT = 7"

lemmas chan_types = CHAN_TYPE_PUB_def CHAN_TYPE_SUB_def CHAN_TYPE_REQ_def CHAN_TYPE_REP_def
  CHAN_TYPE_PULL_BIND_def CHAN_TYPE_PULL_CONNECT_def CHAN_TYPE_PUSH_BIND_def
  CHAN_TYPE_PUSH_CONNECT_def

text \<open>\<open>new chan\<close> leaves \<open>sock\<close> indeterminate until \<open>chan_bind\<close>.\<close>

datatype sock_field = Unassigned | Sock void_ptr

record chan =
  fqcn :: c_ptr
  sock :: sock_field
  chan_type :: c_int

definition chan_init :: "c_ptr \<Rightarrow> c_int \<Rightarrow> chan" where
  "chan_init name type = \<lparr>fqcn = name, sock = Unassigned, chan_type = type\<rparr>"

definition to_zmq_type :: "c_int \<Rightarrow> zmq_type" where
  "to_zmq_type type =
     (if type = CHAN_TYPE_PUB then ZMQ_PUB
      else if type = CHAN_TYPE_SUB then ZMQ_SUB
      else if type = CHAN_TYPE_PUSH_BIND \<or> type = CHAN_TYPE_PUSH_CONNECT then ZMQ_PUSH
      else if type = CHAN_TYPE_PULL_BIND \<or> type = CHAN_TYPE_PULL_CONNECT then ZMQ_PULL
      else if type = CHAN_TYPE_REQ then ZMQ_REQ
      else if type = CHAN_TYPE_REP then ZMQ_REP
      else ZMQ_LITERAL_0)"

definition binds :: "c_int \<Rightarrow> bool" where
  "binds t \<longleftrightarrow> t = CHAN_TYPE_PUB \<or> t = CHAN_TYPE_REP \<or> t = CHAN_TYPE_PUSH_BIND \<or> t = CHAN_TYPE_PULL_BIND"

definition connects :: "c_int \<Rightarrow> bool" where
  "connects t \<longleftrightarrow> t = CHAN_TYPE_SUB \<or> t = CHAN_TYPE_REQ \<or> t = CHAN_TYPE_PUSH_CONNECT \<or>
     t = CHAN_TYPE_PULL_CONNECT"

definition chan_bind :: "'w env \<Rightarrow> chan \<Rightarrow> 'w io \<Rightarrow> (c_int \<times> chan \<times> 'w io) res" where
  "chan_bind e c io =
     (let (s, io) = on_world (zmq_socket e (to_zmq_type (chan_type c))) io;
          c = c\<lparr>sock := Sock s\<rparr>;
          rc = (if s = None then - 1 else 0)
      in if rc = 0 then
           res_bind
             (if binds (chan_type c) then
                res_bind (deref (fqcn c)) (\<lambda>name. Inr (on_world (zmq_bind e s name) io))
              else if connects (chan_type c) then
                res_bind (deref (fqcn c)) (\<lambda>name. Inr (on_world (zmq_connect e s name) io))
              else
                res_bind (log e LOG_ERROR ''Invalid CHAN type (%i)'' [AInt (sint (chan_type c))] io)
                  (\<lambda>io. Inr (rc, io)))
             (\<lambda>(rc, io).
               if rc = 0 \<and> chan_type c = CHAN_TYPE_SUB
               then Inr (rc, c, io\<lparr>world := zmq_setsockopt e s ZMQ_SUBSCRIBE [] (world io)\<rparr>)
               else Inr (rc, c, io))
         else Inr (rc, c, io))"

definition chan_sock :: "chan \<Rightarrow> void_ptr res" where
  "chan_sock c = (case sock c of Unassigned \<Rightarrow> Inl UninitRead | Sock s \<Rightarrow> Inr s)"

definition chan_destroy :: "'w env \<Rightarrow> chan \<Rightarrow> 'w io \<Rightarrow> 'w io res" where
  "chan_destroy e c io = res_bind (chan_sock c) (\<lambda>s. Inr (io\<lparr>world := zmq_close e s (world io)\<rparr>))"

definition chan_shutdown :: "'w env \<Rightarrow> 'w io \<Rightarrow> 'w io res" where
  "chan_shutdown e io =
     (case zmq_term e (world io) of None \<Rightarrow> Inl WouldBlock | Some w \<Rightarrow> Inr (io\<lparr>world := w\<rparr>))"

definition chan_error :: "'w env \<Rightarrow> 'w io \<Rightarrow> string" where
  "chan_error e io = zmq_strerror e (world io)"

text \<open>
  The callback gets the message, its size and the caller's object, and returns its code with
  the object as it left it; it may write to the log.
\<close>

type_synonym ('w, 'o) chan_recvFn = "string \<Rightarrow> nat \<Rightarrow> 'o \<Rightarrow> 'w io \<Rightarrow> (c_int \<times> 'o \<times> 'w io) res"

definition chan_recv ::
    "'w env \<Rightarrow> chan \<Rightarrow> ('w, 'o) chan_recvFn \<Rightarrow> 'o \<Rightarrow> 'w io \<Rightarrow> (c_int \<times> 'o \<times> 'w io) res" where
  "chan_recv e c fn obj io =
     res_bind (chan_sock c) (\<lambda>s.
     case zmq_recv e s (world io) of
       None \<Rightarrow> Inl WouldBlock
     | Some (read, data, w) \<Rightarrow>
         let io = io\<lparr>world := w\<rparr> in
         if read = 0 then
           let read = word_of_nat (length data) in
           res_bind (fn data (size_t_of_int read) obj io) (\<lambda>(rc, obj, io).
           Inr (if rc <s 0 then - 1 else read, obj, io))
         else Inr (read, obj, io))"

definition chan_send :: "'w env \<Rightarrow> chan \<Rightarrow> string \<Rightarrow> nat \<Rightarrow> bool \<Rightarrow> 'w io \<Rightarrow> (c_int \<times> 'w io) res" where
  "chan_send e c buffer sz has_freeFn io =
     res_bind (chan_sock c) (\<lambda>s.
     if sz \<le> length buffer
     then Inr (on_world (zmq_send e s (take sz buffer) has_freeFn) io)
     else Inl OutOfBounds)"

subsection \<open>Binding and connecting\<close>

lemma binds_not_connects: "binds t \<Longrightarrow> \<not> connects t"
  by (auto simp: binds_def connects_def chan_types)

lemma chan_bind_no_socket:
  "zmq_socket e (to_zmq_type (chan_type c)) (world io) = (None, w) \<Longrightarrow>
   chan_bind e c io = Inr (- 1, c\<lparr>sock := Sock None\<rparr>, io\<lparr>world := w\<rparr>)"
  by (simp add: chan_bind_def on_world_def)

text \<open>The effect on the world of binding or connecting a fresh socket to a name.\<close>

definition attach :: "'w env \<Rightarrow> c_int \<Rightarrow> void_ptr \<Rightarrow> string \<Rightarrow> 'w \<Rightarrow> c_int \<times> 'w" where
  "attach e t s name w = (if binds t then zmq_bind e s name w else zmq_connect e s name w)"

lemma chan_bind_attach:
  assumes "binds (chan_type c) \<or> connects (chan_type c)" "fqcn c = CStr name"
    and "zmq_socket e (to_zmq_type (chan_type c)) (world io) = (Some s, w1)"
    and "attach e (chan_type c) (Some s) name w1 = (rc, w2)"
  shows "chan_bind e c io = Inr (rc, c\<lparr>sock := Sock (Some s)\<rparr>, io\<lparr>world :=
     (if rc = 0 \<and> chan_type c = CHAN_TYPE_SUB
      then zmq_setsockopt e (Some s) ZMQ_SUBSCRIBE [] w2 else w2)\<rparr>)"
  using assms binds_not_connects [of "chan_type c"]
  by (auto simp: chan_bind_def on_world_def attach_def Let_def split: if_splits)

text \<open>
  C39. A channel of a valid type gets a socket of the type its name says, and the socket is
  bound for PUB, REP, PUSH_BIND and PULL_BIND and connected for the other four; the caller
  gets the return code of that one call, and a SUB channel that connected subscribes to all
  messages.
\<close>
theorem chan_bind_valid_type:
  assumes "chan_type c \<in> {0, 1, 2, 3, 4, 5, 6, 7}" "fqcn c = CStr name"
    and "zmq_socket e (to_zmq_type (chan_type c)) (world io) = (Some s, w1)"
  shows "\<exists>rc w2. chan_bind e c io = Inr (rc, c\<lparr>sock := Sock (Some s)\<rparr>, io\<lparr>world :=
       (if rc = 0 \<and> chan_type c = 1 then zmq_setsockopt e (Some s) ZMQ_SUBSCRIBE [] w2 else w2)\<rparr>) \<and>
     (rc, w2) = (if chan_type c \<in> {0, 3, 4, 6} then zmq_bind e (Some s) name w1
                 else zmq_connect e (Some s) name w1) \<and>
     to_zmq_type (chan_type c) = (if chan_type c = 0 then ZMQ_PUB else if chan_type c = 1 then ZMQ_SUB
       else if chan_type c = 2 then ZMQ_REQ else if chan_type c = 3 then ZMQ_REP
       else if chan_type c \<in> {4, 5} then ZMQ_PULL else ZMQ_PUSH)"
proof -
  obtain rc w2 where at: "attach e (chan_type c) (Some s) name w1 = (rc, w2)" by (metis surj_pair)
  have valid: "binds (chan_type c) \<or> connects (chan_type c)"
    using assms(1) by (auto simp: binds_def connects_def chan_types)
  have b: "binds (chan_type c) \<longleftrightarrow> chan_type c \<in> {0, 3, 4, 6}"
    using assms(1) by (auto simp: binds_def chan_types)
  have z: "to_zmq_type (chan_type c) = (if chan_type c = 0 then ZMQ_PUB else if chan_type c = 1
       then ZMQ_SUB else if chan_type c = 2 then ZMQ_REQ else if chan_type c = 3 then ZMQ_REP
       else if chan_type c \<in> {4, 5} then ZMQ_PULL else ZMQ_PUSH)"
    using assms(1) by (auto simp: to_zmq_type_def chan_types)
  from chan_bind_attach [OF valid assms(2,3) at] at b z show ?thesis
    by (auto simp: attach_def CHAN_TYPE_SUB_def)
qed

text \<open>
  A channel of any other type is never attached to its endpoint: apart from the log line,
  creating the socket is all that happens, and yet the caller is told success.
\<close>
lemma chan_bind_invalid_type:
  assumes "chan_type c \<notin> {0, 1, 2, 3, 4, 5, 6, 7}"
    and "zmq_socket e ZMQ_LITERAL_0 (world io) = (Some s, w1)"
  shows "\<exists>out. chan_bind e c io =
     Inr (0, c\<lparr>sock := Sock (Some s)\<rparr>, io\<lparr>world := w1, stdout := out\<rparr>)"
proof -
  have t: "to_zmq_type (chan_type c) = ZMQ_LITERAL_0" "\<not> binds (chan_type c)"
      "\<not> connects (chan_type c)" "chan_type c \<noteq> CHAN_TYPE_SUB"
    using assms(1) by (auto simp: to_zmq_type_def binds_def connects_def chan_types)
  have "\<exists>m. c_format ''Invalid CHAN type (%i)'' [AInt (sint (chan_type c))] = Inr m" by simp
  with t assms(2) show ?thesis
    by (cases io) (auto simp: chan_bind_def on_world_def log_def log_emit_def)
qed

subsection \<open>Receiving\<close>

lemma chan_recv_error:
  "sock c = Sock s \<Longrightarrow> zmq_recv e s (world io) = Some (r, data, w) \<Longrightarrow> r \<noteq> 0 \<Longrightarrow>
   chan_recv e c fn obj io = Inr (r, obj, io\<lparr>world := w\<rparr>)"
  by (simp add: chan_recv_def chan_sock_def)

lemma chan_recv_message:
  "sock c = Sock s \<Longrightarrow> zmq_recv e s (world io) = Some (0, data, w) \<Longrightarrow> length data < 2147483648 \<Longrightarrow>
   chan_recv e c fn obj io = res_bind (fn data (length data) obj (io\<lparr>world := w\<rparr>)) (\<lambda>(rc, obj, io).
     Inr (if rc <s 0 then - 1 else word_of_nat (length data), obj, io))"
  by (simp add: chan_recv_def chan_sock_def)

lemma chan_send_all:
  "sock c = Sock s \<Longrightarrow>
   chan_send e c buffer (length buffer) f io = Inr (on_world (zmq_send e s buffer f) io)"
  by (simp add: chan_send_def chan_sock_def)

end
