(* ===== verification/Nx.thy ===== *)
theory Nx
  imports Chan
begin

text \<open>
  Model of the NxCore and Windows glue: \<^verbatim>\<open>src/main/c/impl/wine/nx/nxinf.cc\<close> and
  \<^verbatim>\<open>nxtape.cc\<close> (the program) and of the Linux stubs in \<^verbatim>\<open>src/main/c/impl/linux/nx\<close> (the
  test build). NxCore itself is not in the repository: \<open>wininf_nxcore_run\<close> says whether
  \<open>processTapeFn\<close> is called; what NxCore then does (calls of \<open>nxtape_process\<close>, and its
  return) are steps of the environment in \<open>Wineing_System\<close>.
\<close>

unbundle bit_operations_syntax

subsection \<open>nxinf.cc: loading, running and freeing the library, file test\<close>

definition wininf_nxcore_load :: "'w env \<Rightarrow> 'w io \<Rightarrow> (c_int \<times> void_ptr \<times> 'w io) res" where
  "wininf_nxcore_load e io =
     res_bind (log e LOG_DEBUG ''Loading NxCoreAPI64.dll'' [] io) (\<lambda>io.
     let (g_hlib, io) = on_world (LoadLibrary e ''lib/NxCoreAPI64.dll'') io in
     if g_hlib = None then
       res_bind (log e LOG_ERROR ''Failed loading NxCoreAPI64.dll. Reason %d''
                   [AInt (GetLastError e (world io))] io) (\<lambda>io.
       Inr (- 1, g_hlib, io))
     else Inr (0, g_hlib, io))"

text \<open>
  The flag says that \<open>processTapeFn(tape, 0, 0, 0, fn)\<close> is called (the function then returns
  0 when that call returns); without the entry point it returns -1 at once.
\<close>

definition wininf_nxcore_run :: "'w env \<Rightarrow> void_ptr \<Rightarrow> 'w io \<Rightarrow> (bool \<times> 'w io) res" where
  "wininf_nxcore_run e g_hlib io =
     (if GetProcAddress e g_hlib ''sNxCoreProcessTape'' (world io) = None then
        res_bind (log e LOG_ERROR ''Failed loading NxCoreProcessTape function'' [] io) (\<lambda>io.
        Inr (False, io))
      else Inr (True, io))"

definition wininf_nxcore_free :: "'w env \<Rightarrow> void_ptr \<Rightarrow> 'w io \<Rightarrow> 'w io" where
  "wininf_nxcore_free e g_hlib io = io\<lparr>world := FreeLibrary e g_hlib (world io)\<rparr>"

definition wininf_file_exists :: "'w env \<Rightarrow> string \<Rightarrow> 'w io \<Rightarrow> c_int" where
  "wininf_file_exists e str io =
     (let attrs = GetFileAttributes e str (world io) in
      if attrs = INVALID_FILE_ATTRIBUTES e \<and> attrs AND FILE_ATTRIBUTE_DIRECTORY e \<noteq> 0
      then - 1 else 0)"

subsection \<open>The Linux stubs\<close>

definition linux_nxcore_load :: c_int where "linux_nxcore_load = 0"
definition linux_nxcore_run :: "string \<Rightarrow> c_int" where "linux_nxcore_run tape = 0"
definition linux_nxcore_free :: "'w io \<Rightarrow> 'w io" where "linux_nxcore_free io = io"
definition linux_file_exists :: "string \<Rightarrow> 'w io \<Rightarrow> c_int" where "linux_file_exists str io = 0"
definition linux_nxtape_process :: c_int where "linux_nxtape_process = 0"

subsection \<open>nxtape.cc: the callback\<close>

datatype NxMessageType = NxMSG_STATUS | NxMSG_OTHER nat

datatype NxCallbackReturn = NxCALLBACKRETURN_STOP | NxCALLBACKRETURN_CONTINUE

text \<open>The static variables of the file and of \<open>nxtape_process\<close>.\<close>

record nxtape =
  g_cchan_out :: "chan option"
  g_mchan :: "chan option"
  cb_version :: c_int
  cb_data :: w_ctrl

definition nxtape_static :: "string \<Rightarrow> nxtape" where
  "nxtape_static buf = \<lparr>g_cchan_out = None, g_mchan = None,
     cb_version = DEFAULTS_SHARED_VERSION_READ_INIT, cb_data = ctrl_init buf\<rparr>"

definition nxtape_init :: "chan \<Rightarrow> chan \<Rightarrow> nxtape \<Rightarrow> nxtape" where
  "nxtape_init cchan_out mchan n = n\<lparr>g_cchan_out := Some cchan_out, g_mchan := Some mchan\<rparr>"

text \<open>
  The buffer is handed to \<open>chan_send\<close> without a free function (the default \<open>NULL\<close>); the
  return code of the send is dropped.
\<close>

definition nxtape_send_status :: "'w env \<Rightarrow> nxtape \<Rightarrow> 'w io \<Rightarrow> 'w io res" where
  "nxtape_send_status e n io =
     (let m = MarketData_Clear\<lparr>md_type := Some STATUS\<rparr>;
          buffer = SerializeMarketData e m
      in case g_mchan n of
           None \<Rightarrow> Inl NullDeref
         | Some c \<Rightarrow> res_bind (chan_send e c buffer (length buffer) False io) (\<lambda>(rc, io). Inr io))"

text \<open>
  The two halves of the callback: it reads the published command, then it handles the message
  and answers NxCore.
\<close>

definition nxtape_read :: "nxtape \<Rightarrow> conc_state \<times> w_ctrl \<Rightarrow> (nxtape \<times> (conc_state \<times> w_ctrl)) res" where
  "nxtape_read n sg =
     res_bind (lazy_update_local_if_changed copy_shared_to_local (cb_version n) (cb_data n) sg)
       (\<lambda>(t_version, t_data, sg). Inr (n\<lparr>cb_version := t_version, cb_data := t_data\<rparr>, sg))"

definition nxtape_handle :: "'w env \<Rightarrow> NxMessageType \<Rightarrow> nxtape \<Rightarrow> 'w io \<Rightarrow> (NxCallbackReturn \<times> 'w io) res" where
  "nxtape_handle e MessageType n io =
     res_bind (case MessageType of NxMSG_STATUS \<Rightarrow> nxtape_send_status e n io | NxMSG_OTHER _ \<Rightarrow> Inr io)
       (\<lambda>io.
     Inr (if w_cmd (cb_data n) <s WINEING_CTRL_CMD_MARKET_RUN
          then NxCALLBACKRETURN_STOP else NxCALLBACKRETURN_CONTINUE, io))"

definition nxtape_process ::
    "'w env \<Rightarrow> NxMessageType \<Rightarrow> nxtape \<Rightarrow> conc_state \<times> w_ctrl \<Rightarrow> 'w io \<Rightarrow>
     (NxCallbackReturn \<times> nxtape \<times> (conc_state \<times> w_ctrl) \<times> 'w io) res" where
  "nxtape_process e MessageType n sg io =
     res_bind (nxtape_read n sg) (\<lambda>(n, sg).
     res_bind (nxtape_handle e MessageType n io) (\<lambda>(ret, io). Inr (ret, n, sg, io)))"

subsection \<open>The file test\<close>

lemma file_exists_iff:
  assumes "win_constants e"
  shows "wininf_file_exists e str io <s 0 \<longleftrightarrow> GetFileAttributes e str (world io) = 0xFFFFFFFF"
  using assms by (auto simp: wininf_file_exists_def win_constants_def Let_def)

text \<open>
  With the documented Windows constants the file test fails exactly when Windows reports no
  attributes at all. The test for a directory inside it never matters: a directory passes as
  a file.
\<close>
lemma file_exists_spec:
  assumes "win_constants e"
  shows "wininf_file_exists e str io =
    (if GetFileAttributes e str (world io) = 0xFFFFFFFF then - 1 else 0)"
  using assms by (auto simp: wininf_file_exists_def win_constants_def Let_def)

subsection \<open>The callback\<close>

text \<open>A published command below MARKET_RUN is what stops NxCore.\<close>

definition stops :: "c_int \<Rightarrow> bool" where
  "stops c \<longleftrightarrow> c <s WINEING_CTRL_CMD_MARKET_RUN"

lemma stops_cmds [simp]:
  "stops WINEING_CTRL_CMD_SHUTDOWN" "stops WINEING_CTRL_CMD_MARKET_STOP"
  "\<not> stops WINEING_CTRL_CMD_MARKET_RUN" "\<not> stops WINEING_CTRL_CMD_INIT"
  by (simp_all add: stops_def ctrl_cmds word_sless_alt)

definition nxtape_ok :: "nxtape \<Rightarrow> bool" where
  "nxtape_ok n \<longleftrightarrow> wf_ctrl (cb_data n) \<and> (\<exists>c s. g_mchan n = Some c \<and> sock c = Sock s)"

lemma nxtape_send_status_eq:
  assumes "g_mchan n = Some c" "sock c = Sock s"
  shows "nxtape_send_status e n io = Inr (io\<lparr>world :=
    snd (zmq_send e s (SerializeMarketData e \<lparr>md_type = Some STATUS\<rparr>) False (world io))\<rparr>)"
  using assms
  by (auto simp: nxtape_send_status_def chan_send_all MarketData_Clear_def on_world_def
      split: prod.splits)

lemma nxtape_handle_eq:
  assumes "nxtape_ok n"
  shows "\<exists>c z. g_mchan n = Some c \<and> sock c = Sock z \<and>
    nxtape_handle e mt n io = Inr
      (if stops (w_cmd (cb_data n)) then NxCALLBACKRETURN_STOP else NxCALLBACKRETURN_CONTINUE,
       io\<lparr>world := (case mt of
             NxMSG_STATUS \<Rightarrow> snd (zmq_send e z (SerializeMarketData e \<lparr>md_type = Some STATUS\<rparr>)
                                     False (world io))
           | NxMSG_OTHER _ \<Rightarrow> world io)\<rparr>)"
proof -
  obtain c z where c: "g_mchan n = Some c" "sock c = Sock z"
    using assms by (auto simp: nxtape_ok_def)
  then show ?thesis
    by (cases mt) (auto simp: nxtape_handle_def nxtape_send_status_eq stops_def)
qed

lemma nxtape_process_total:
  assumes "wctrl.cell_ok (s, g)" "nxtape_ok n"
    and "cb_version n = g_version s \<longrightarrow> ctrl_view (cb_data n) = ctrl_view g"
  shows "\<exists>n' c z. nxtape_process e mt n (s, g) io =
      Inr (if stops (w_cmd g) then NxCALLBACKRETURN_STOP else NxCALLBACKRETURN_CONTINUE,
           n', (s, g), io\<lparr>world := (case mt of
             NxMSG_STATUS \<Rightarrow> snd (zmq_send e z (SerializeMarketData e \<lparr>md_type = Some STATUS\<rparr>)
                                     False (world io))
           | NxMSG_OTHER _ \<Rightarrow> world io)\<rparr>) \<and>
    g_mchan n = Some c \<and> sock c = Sock z \<and>
    nxtape_ok n' \<and> cb_version n' = g_version s \<and> ctrl_view (cb_data n') = ctrl_view g"
proof -
  obtain t where t: "lazy_update_local_if_changed copy_shared_to_local (cb_version n) (cb_data n) (s, g)
      = Inr (g_version s, t, s, g)" "wf_ctrl t" "ctrl_view t = ctrl_view g"
    using wctrl.cell.sync_total [of "(s, g)" "cb_data n" "cb_version n"] assms
    by (auto simp: wctrl.cell.coherent_def nxtape_ok_def)
  let ?n = "n\<lparr>cb_version := g_version s, cb_data := t\<rparr>"
  have "nxtape_ok ?n" using assms(2) t(2) by (simp add: nxtape_ok_def)
  moreover have "w_cmd t = w_cmd g" using t(3) by (simp add: ctrl_view_def)
  ultimately show ?thesis
    using t nxtape_handle_eq [of ?n e mt io]
    by (auto simp: nxtape_process_def nxtape_read_def)
qed

text \<open>
  C25. The callback always synchronises with the shared control record first, and its answer to
  NxCore follows the command published there: STOP for MARKET_STOP and SHUTDOWN, CONTINUE for
  MARKET_RUN and INIT. It changes neither the shared record nor the log, and sends exactly one
  message (of type STATUS, with no free function for its buffer) for a status message and none
  for any other.
\<close>
theorem nxtape_process_follows_command:
  assumes "wctrl.cell_ok (s, g)" "nxtape_ok n"
    and "cb_version n = g_version s \<longrightarrow> ctrl_view (cb_data n) = ctrl_view g"
  shows "\<exists>n' c z. nxtape_process e mt n (s, g) io =
      Inr (if stops (w_cmd g) then NxCALLBACKRETURN_STOP else NxCALLBACKRETURN_CONTINUE,
           n', (s, g), io\<lparr>world := (case mt of
             NxMSG_STATUS \<Rightarrow> snd (zmq_send e z (SerializeMarketData e \<lparr>md_type = Some STATUS\<rparr>)
                                     False (world io))
           | NxMSG_OTHER _ \<Rightarrow> world io)\<rparr>) \<and>
    g_mchan n = Some c \<and> sock c = Sock z \<and>
    nxtape_ok n' \<and> cb_version n' = g_version s \<and> ctrl_view (cb_data n') = ctrl_view g"
  using assms by (rule nxtape_process_total)

end
