(* ===== verification/Shared.thy ===== *)
theory Shared
  imports Nx
begin

text \<open>
  The variables the threads of \<^verbatim>\<open>src/main/c/impl/all/core/wineing.cc\<close> share: the version and
  lock of \<open>conc.cc\<close>, the control record \<open>g_data\<close>, \<open>g_market_sync_mutex\<close> and
  \<open>g_market_sync_cond\<close>, the library handle of \<open>nxinf.cc\<close>, and the outside world with the
  log. Publishing to \<open>g_data\<close> and reading it are the two operations of the cell.
\<close>

record 'w shared =
  conc :: conc_state
  g_data :: w_ctrl
  g_market_sync_mutex :: mutex
  g_market_sync_cond :: condvar
  g_hlib :: void_ptr
  sh_io :: "'w io"

text \<open>The calls on \<open>g_data\<close> as the threads make them.\<close>

definition update_g_data :: "c_int \<Rightarrow> w_ctrl \<Rightarrow> 'w shared \<Rightarrow> (c_int \<times> 'w shared) res" where
  "update_g_data t_version t_data sh =
     res_bind (lazy_update_global_if_owner copy_local_to_shared t_version t_data (conc sh, g_data sh))
       (\<lambda>(v, s, g). Inr (v, sh\<lparr>conc := s, g_data := g\<rparr>))"

definition read_g_data :: "c_int \<Rightarrow> w_ctrl \<Rightarrow> 'w shared \<Rightarrow> (c_int \<times> w_ctrl \<times> 'w shared) res" where
  "read_g_data t_version t_data sh =
     res_bind (lazy_update_local_if_changed copy_shared_to_local t_version t_data (conc sh, g_data sh))
       (\<lambda>(v, t, s, g). Inr (v, t, sh\<lparr>conc := s, g_data := g\<rparr>))"

definition sh_log :: "'w env \<Rightarrow> nat \<Rightarrow> string \<Rightarrow> fmt_arg list \<Rightarrow> 'w shared \<Rightarrow> 'w shared res" where
  "sh_log e level msg args sh = res_bind (log e level msg args (sh_io sh)) (\<lambda>i. Inr (sh\<lparr>sh_io := i\<rparr>))"

text \<open>
  The macro evaluates its arguments only if the message is printed, so a name that cannot be
  read faults only then. \<open>str_args\<close> are the arguments for a pointer of the configuration
  followed by other strings.
\<close>

definition sh_log_lazy :: "'w env \<Rightarrow> nat \<Rightarrow> string \<Rightarrow> fmt_arg list res \<Rightarrow> 'w shared \<Rightarrow> 'w shared res" where
  "sh_log_lazy e level msg args sh =
     (if log_enabled (LOG_LEVEL e) level then res_bind args (\<lambda>as. sh_log e level msg as sh) else Inr sh)"

definition str_args :: "c_ptr \<Rightarrow> string list \<Rightarrow> fmt_arg list res" where
  "str_args p rest = res_bind (deref p) (\<lambda>s. Inr (map AStr (s # rest)))"

definition cell_ready :: "'w shared \<Rightarrow> bool" where
  "cell_ready sh \<longleftrightarrow> g_lock (conc sh) = MFree \<and> wf_ctrl (g_data sh)"

definition shared_ready :: "'w shared \<Rightarrow> bool" where
  "shared_ready sh \<longleftrightarrow> cell_ready sh \<and>
     g_market_sync_mutex sh = MFree \<and> g_market_sync_cond sh = CReady"

text \<open>A thread's copy: well-formed, and the cell's view when the versions agree.\<close>

definition copy_ok :: "c_int \<Rightarrow> w_ctrl \<Rightarrow> 'w shared \<Rightarrow> bool" where
  "copy_ok v t sh \<longleftrightarrow> wf_ctrl t \<and> (v = g_version (conc sh) \<longrightarrow> ctrl_view t = ctrl_view (g_data sh))"

lemma update_g_data_owner:
  assumes "cell_ready sh" "wf_ctrl t" "g_version (conc sh) \<noteq> INT_MAX"
  shows "update_g_data (g_version (conc sh)) t sh = Inr (g_version (conc sh) + 1,
     sh\<lparr>conc := (conc sh)\<lparr>g_version := g_version (conc sh) + 1\<rparr>,
        g_data := (g_data sh)\<lparr>w_cmd := w_cmd t, w_size := w_size t,
          w_data := take (w_size t) (w_data t) @ drop (w_size t) (w_data (g_data sh))\<rparr>\<rparr>)"
  using assms
  by (simp add: update_g_data_def cell_ready_def update_global_owner [where fn = copy_local_to_shared, OF _ _ _ copy_local_to_shared_eq])

lemma read_g_data_same:
  "v = g_version (conc sh) \<Longrightarrow> read_g_data v t sh = Inr (v, t, sh)"
  by (cases sh) (simp add: read_g_data_def update_local_same)

lemma read_g_data_changed:
  assumes "cell_ready sh" "wf_ctrl t" "v \<noteq> g_version (conc sh)"
  shows "read_g_data v t sh = Inr (g_version (conc sh),
     t\<lparr>w_cmd := w_cmd (g_data sh), w_size := w_size (g_data sh),
       w_data := take (w_size (g_data sh)) (w_data (g_data sh)) @ drop (w_size (g_data sh)) (w_data t)\<rparr>, sh)"
  using assms
  by (cases sh)
    (simp add: read_g_data_def cell_ready_def update_local_changed [where fn = copy_shared_to_local, OF _ _ copy_shared_to_local_eq])

text \<open>Reading always succeeds and gives the cell's version and view; the shared state stays.\<close>

lemma read_g_data_ok:
  assumes "cell_ready sh" "copy_ok v t sh"
  shows "\<exists>t'. read_g_data v t sh = Inr (g_version (conc sh), t', sh) \<and> wf_ctrl t' \<and>
     ctrl_view t' = ctrl_view (g_data sh)"
proof (cases "v = g_version (conc sh)")
  case True
  with assms show ?thesis by (auto simp: read_g_data_same copy_ok_def)
next
  case False
  with assms show ?thesis
    by (auto simp: read_g_data_changed copy_ok_def cell_ready_def wf_ctrl_def ctrl_view_def)
qed

lemma ctrl_view_eqD: "ctrl_view a = ctrl_view b \<Longrightarrow> w_cmd a = w_cmd b"
  by (simp add: ctrl_view_def)

lemma ctrl_view_size:
  "wf_ctrl a \<Longrightarrow> wf_ctrl b \<Longrightarrow> ctrl_view a = ctrl_view b \<Longrightarrow>
   w_size a = w_size b \<and> take (w_size a) (w_data a) = take (w_size b) (w_data b)"
  by (auto simp: ctrl_view_def wf_ctrl_def dest: arg_cong [where f = length])

lemma log_world: "sh_log e lv msg as sh = Inr sh' \<Longrightarrow> world (sh_io sh') = world (sh_io sh)"
  by (auto simp: sh_log_def res_simps dest: log_Inr_world)

lemma sh_log_plain:
  "CHR ''%'' \<notin> set msg \<Longrightarrow>
   sh_log e level msg args sh = Inr (sh\<lparr>sh_io := (sh_io sh)\<lparr>stdout := stdout (sh_io sh) @
     (if log_enabled (LOG_LEVEL e) level then [(level, msg)] else [])\<rparr>\<rparr>)"
  by (simp add: sh_log_def log_plain)

text \<open>A message whose format fits its arguments changes nothing but the log.\<close>

lemma sh_log_lazy_total:
  assumes "\<exists>as. args = Inr as \<and> log_fine msg as"
  shows "\<exists>out. sh_log_lazy e level msg args sh = Inr (sh\<lparr>sh_io := (sh_io sh)\<lparr>stdout := out\<rparr>\<rparr>)"
proof (cases "log_enabled (LOG_LEVEL e) level")
  case True
  with assms show ?thesis by (auto simp: sh_log_lazy_def sh_log_def log_def log_emit_def log_fine_def)
next
  case False
  then have "sh_log_lazy e level msg args sh = Inr (sh\<lparr>sh_io := (sh_io sh)\<lparr>stdout := stdout (sh_io sh)\<rparr>\<rparr>)"
    by (cases sh; cases "sh_io sh") (simp add: sh_log_lazy_def)
  then show ?thesis by blast
qed

lemma sh_log_total:
  assumes "log_enabled (LOG_LEVEL e) level \<longrightarrow> log_fine msg args"
  shows "\<exists>out. sh_log e level msg args sh = Inr (sh\<lparr>sh_io := (sh_io sh)\<lparr>stdout := out\<rparr>\<rparr>)"
proof (cases "log_enabled (LOG_LEVEL e) level")
  case True
  with assms show ?thesis by (auto simp: sh_log_def log_def log_emit_def log_fine_def)
next
  case False
  then have "sh_log e level msg args sh = Inr (sh\<lparr>sh_io := (sh_io sh)\<lparr>stdout := stdout (sh_io sh)\<rparr>\<rparr>)"
    by (cases sh; cases "sh_io sh") (simp add: sh_log_def log_def log_emit_def)
  then show ?thesis by blast
qed

end
