(* ===== verification/Demo_World.thy ===== *)
theory Demo_World
  imports Shared
begin

text \<open>
  A concrete environment, for the witnesses and the example runs: an instance of \<open>env\<close> that
  behaves as the documentation of ZeroMQ, protobuf and Windows says on the calls the program
  makes. Nothing else in the development depends on it.

  The world numbers its sockets, knows which are open, the endpoint each is attached to and
  which endpoints are bound (an endpoint can be connected to only after it is bound), and holds
  a queue for every endpoint: what was sent to it and not received. One file exists.
\<close>

record demo_world =
  dw_next :: nat
  dw_endpoint :: "nat \<Rightarrow> string option"
  dw_bound :: "string list"
  dw_queue :: "string \<Rightarrow> string list"
  dw_open :: "nat list"

definition demo_world0 :: demo_world where
  "demo_world0 = \<lparr>dw_next = 1, dw_endpoint = (\<lambda>_. None), dw_bound = [], dw_queue = (\<lambda>_. []), dw_open = []\<rparr>"

definition demo_put :: "string \<Rightarrow> string list \<Rightarrow> demo_world \<Rightarrow> demo_world" where
  "demo_put name q w = w\<lparr>dw_queue := (dw_queue w)(name := q)\<rparr>"

definition demo_conf :: w_conf where
  "demo_conf = \<lparr>cchan_in_fqcn = CStr ''in'', cchan_out_fqcn = CStr ''out'', mchan_fqcn = CStr ''md'',
     tape_basedir = CStr ''C:''\<rparr>"

definition demo_socket :: "zmq_type \<Rightarrow> demo_world \<Rightarrow> void_ptr \<times> demo_world" where
  "demo_socket ty w = (Some (dw_next w),
     w\<lparr>dw_next := Suc (dw_next w), dw_endpoint := (dw_endpoint w)(dw_next w := None),
      dw_open := dw_next w # dw_open w\<rparr>)"

text \<open>The endpoint of a socket that was created and attached.\<close>

definition demo_at :: "demo_world \<Rightarrow> void_ptr \<Rightarrow> string option" where
  "demo_at w s = (case s of None \<Rightarrow> None | Some n \<Rightarrow> if n < dw_next w then dw_endpoint w n else None)"

definition demo_attach :: "void_ptr \<Rightarrow> string \<Rightarrow> demo_world \<Rightarrow> c_int \<times> demo_world" where
  "demo_attach s name w = (case s of None \<Rightarrow> (- 1, w)
     | Some n \<Rightarrow> if n < dw_next w then (0, w\<lparr>dw_endpoint := (dw_endpoint w)(n := Some name)\<rparr>)
                 else (- 1, w))"

definition demo_bind :: "void_ptr \<Rightarrow> string \<Rightarrow> demo_world \<Rightarrow> c_int \<times> demo_world" where
  "demo_bind s name w = demo_attach s name (w\<lparr>dw_bound := name # dw_bound w\<rparr>)"

definition demo_connect :: "void_ptr \<Rightarrow> string \<Rightarrow> demo_world \<Rightarrow> c_int \<times> demo_world" where
  "demo_connect s name w = (if name \<in> set (dw_bound w) then demo_attach s name w else (- 1, w))"

definition demo_recv :: "void_ptr \<Rightarrow> demo_world \<Rightarrow> (c_int \<times> string \<times> demo_world) option" where
  "demo_recv s w = (case demo_at w s of None \<Rightarrow> Some (- 1, [], w)
     | Some name \<Rightarrow> (case dw_queue w name of [] \<Rightarrow> None | d # ds \<Rightarrow> Some (0, d, demo_put name ds w)))"

definition demo_send :: "void_ptr \<Rightarrow> string \<Rightarrow> bool \<Rightarrow> demo_world \<Rightarrow> c_int \<times> demo_world" where
  "demo_send s d f w = (0, case demo_at w s of None \<Rightarrow> w
     | Some name \<Rightarrow> demo_put name (dw_queue w name @ [d]) w)"

definition demo_close :: "void_ptr \<Rightarrow> demo_world \<Rightarrow> demo_world" where
  "demo_close s w = (case s of None \<Rightarrow> w | Some n \<Rightarrow> w\<lparr>dw_open := removeAll n (dw_open w)\<rparr>)"

text \<open>Terminating the context waits for the sockets that are open.\<close>

definition demo_live :: "demo_world \<Rightarrow> nat set" where
  "demo_live w = {n \<in> set (dw_open w). n < dw_next w}"

definition demo_term :: "demo_world \<Rightarrow> demo_world option" where
  "demo_term w = (if list_ex (\<lambda>n. n < dw_next w) (dw_open w) then None else Some w)"

lemma demo_term_live: "demo_term w = (if demo_live w = {} then Some w else None)"
  by (auto simp: demo_term_def demo_live_def list_ex_iff)

text \<open>Requests are one letter and a tape name; the request id is 7.\<close>

fun demo_parse :: "string \<Rightarrow> c_int \<Rightarrow> Request option" where
  "demo_parse [] n = None"
| "demo_parse (c # cs) n =
     (if c = CHR ''r'' then Some \<lparr>requestId = 7, req_type = MARKET_START, tape_file = None\<rparr>
      else if c = CHR ''t'' then Some \<lparr>requestId = 7, req_type = MARKET_START, tape_file = Some cs\<rparr>
      else if c = CHR ''s'' then Some \<lparr>requestId = 7, req_type = MARKET_STOP, tape_file = None\<rparr>
      else if c = CHR ''x'' then Some \<lparr>requestId = 7, req_type = SHUTDOWN, tape_file = None\<rparr>
      else None)"

definition demo_serialize :: "Response \<Rightarrow> string" where
  "demo_serialize r =
     (case res_type r of None \<Rightarrow> [] | Some ty \<Rightarrow> (case ty of
          MARKET_START_OK \<Rightarrow> ''+'' | MARKET_STOP_OK \<Rightarrow> ''.'' | SHUTDOWN_OK \<Rightarrow> ''!''
        | ERR \<Rightarrow> ''?'' | MARKET_START_ERR_RUNNING \<Rightarrow> ''#'')) @
     (case err_text r of None \<Rightarrow> [] | Some t \<Rightarrow> t)"

definition demo_env :: "demo_world env" where
  "demo_env = \<lparr>LOG_LEVEL = LOG_ALL,
     zmq_socket = demo_socket, zmq_bind = demo_bind, zmq_connect = demo_connect,
     zmq_setsockopt = (\<lambda>_ _ _ w. w), zmq_recv = demo_recv, zmq_send = demo_send,
     zmq_close = demo_close, zmq_term = demo_term, zmq_strerror = (\<lambda>_. ''error''),
     ParseRequest = demo_parse, SerializeResponse = demo_serialize,
     SerializeMarketData = (\<lambda>_. ''S''),
     LoadLibrary = (\<lambda>_ w. (Some 1, w)), GetLastError = (\<lambda>_. 0), GetProcAddress = (\<lambda>_ _ _. Some 1),
     FreeLibrary = (\<lambda>_ w. w),
     GetFileAttributes = (\<lambda>f _. if f = ''C:tape'' then 0x20 else 0xFFFFFFFF),
     INVALID_FILE_ATTRIBUTES = 0xFFFFFFFF, FILE_ATTRIBUTE_DIRECTORY = 0x10\<rparr>"

lemmas demo_env_simps = demo_env_def demo_socket_def demo_bind_def demo_connect_def demo_recv_def
  demo_send_def demo_close_def demo_attach_def demo_at_def demo_put_def demo_serialize_def

lemma demo_win_constants: "win_constants demo_env"
  by (simp add: win_constants_def demo_env_def)

text \<open>Shared state at rest, with a given command and tape published, and a buffer of NULs.\<close>

definition nul_buffer :: string where "nul_buffer = replicate WINEING_CTRL_DEFAULT_DATA_SIZE NUL"

lemma length_nul_buffer [simp]: "length nul_buffer = WINEING_CTRL_DEFAULT_DATA_SIZE"
  by (simp add: nul_buffer_def)

definition tape_ctrl :: "c_int \<Rightarrow> string \<Rightarrow> w_ctrl" where
  "tape_ctrl c data = \<lparr>w_cmd = c, w_data = data @ drop (length data) nul_buffer, w_size = length data\<rparr>"

lemma tape_ctrl_wf: "length data \<le> WINEING_CTRL_DEFAULT_DATA_SIZE \<Longrightarrow> wf_ctrl (tape_ctrl c data)"
  by (simp add: tape_ctrl_def wf_ctrl_def)

lemma tape_ctrl_view: "ctrl_view (tape_ctrl c data) = (c, data)"
  by (simp add: tape_ctrl_def ctrl_view_def)

definition demo_shared :: "c_int \<Rightarrow> w_ctrl \<Rightarrow> demo_world \<Rightarrow> demo_world shared" where
  "demo_shared v g w = \<lparr>conc = \<lparr>g_version = v, g_lock = MFree\<rparr>, g_data = g,
     g_market_sync_mutex = MFree, g_market_sync_cond = CReady, g_hlib = Some 1,
     sh_io = \<lparr>world = w, stdout = []\<rparr>\<rparr>"

lemma demo_shared_simps [simp]:
  "conc (demo_shared v g w) = \<lparr>g_version = v, g_lock = MFree\<rparr>"
  "g_data (demo_shared v g w) = g"
  "sh_io (demo_shared v g w) = \<lparr>world = w, stdout = []\<rparr>"
  "g_hlib (demo_shared v g w) = Some 1"
  by (simp_all add: demo_shared_def)

lemma demo_shared_ready: "wf_ctrl g \<Longrightarrow> shared_ready (demo_shared v g w)"
  by (simp add: shared_ready_def cell_ready_def demo_shared_def)

lemma demo_cell_ready: "wf_ctrl g \<Longrightarrow> cell_ready (demo_shared v g w)"
  using demo_shared_ready [of g v w] by (simp add: shared_ready_def)

end
