(* ===== verification/Ctrl_In.thy ===== *)
theory Ctrl_In
  imports Shared
begin

text \<open>
  Model of \<open>cchan_in_thread\<close> and its helpers in \<^verbatim>\<open>src/main/c/impl/all/core/wineing.cc\<close>: the
  thread that receives control requests, publishes commands through \<open>g_data\<close> and sends one
  response per request to the inproc channel.

  The static \<open>t_version\<close> and \<open>t_data\<close> are a record; \<open>req\<close> and \<open>res\<close> are cleared in every turn of
  the loop, so they live in one turn only. The thread's control is a program point of type
  \<open>in_pc\<close>; \<open>in_step\<close> runs it to the next point: start-up and binding, the loop that connects to
  the inproc channel, and in every turn of the receive loop: receiving, the switch over the
  request, publishing, signalling the market thread, and sending the response.
\<close>

record in_local =
  in_version :: c_int
  in_data :: w_ctrl

definition in_static :: "string \<Rightarrow> in_local" where
  "in_static buf = \<lparr>in_version = DEFAULTS_SHARED_VERSION_INIT, in_data = ctrl_init buf\<rparr>"

subsection \<open>Parsing a request\<close>

definition recv_ctrl :: "'w env \<Rightarrow> ('w, Request) chan_recvFn" where
  "recv_ctrl e data sz obj io =
     (case ParseRequest e data (word_of_nat sz) of
        None \<Rightarrow> res_bind (log e LOG_ERROR ''Failed parsing message'' [] io) (\<lambda>io. Inr (- 1, obj, io))
      | Some r \<Rightarrow> Inr (0, r, io))"

subsection \<open>The switch over the request type\<close>

text \<open>
  Each case of the switch ends in the same few statements: \<open>t_data\<close> is published or not, and
  the market thread is signalled or not. The cases return what is left to do with the response.
\<close>

datatype followup = Reply_Now | Publish_Then_Reply | Publish_Then_Signal

definition set_cmd :: "c_int \<Rightarrow> in_local \<Rightarrow> in_local" where
  "set_cmd c l = l\<lparr>in_data := (in_data l)\<lparr>w_cmd := c\<rparr>\<rparr>"

definition publish_data :: "in_local \<Rightarrow> 'w shared \<Rightarrow> (in_local \<times> 'w shared) res" where
  "publish_data l sh =
     res_bind (update_g_data (in_version l) (in_data l) sh) (\<lambda>(v, sh).
     Inr (l\<lparr>in_version := v\<rparr>, sh))"

definition signal_market :: "'w shared \<Rightarrow> 'w shared res" where
  "signal_market sh =
     res_bind (pthread_mutex_lock (g_market_sync_mutex sh)) (\<lambda>m.
     res_bind (pthread_cond_signal (g_market_sync_cond sh)) (\<lambda>c.
     res_bind (pthread_mutex_unlock m) (\<lambda>m.
     Inr (sh\<lparr>g_market_sync_mutex := m, g_market_sync_cond := c\<rparr>))))"

text \<open>The text of the error for a tape file that does not exist.\<close>

definition not_found_text :: "string \<Rightarrow> string" where
  "not_found_text tape = ''File '' @ [CHR 0x27] @ tape @ [CHR 0x27] @ '' not found.''"

definition handle_market_start ::
    "'w env \<Rightarrow> w_conf \<Rightarrow> Request \<Rightarrow> Response \<Rightarrow> in_local \<Rightarrow> 'w shared \<Rightarrow>
     (Response \<times> followup \<times> in_local \<times> 'w shared) res" where
  "handle_market_start e conf req res l sh =
     (let res = res\<lparr>res_type := Some MARKET_START_OK\<rparr> in
      if w_cmd (in_data l) = WINEING_CTRL_CMD_MARKET_RUN then
        Inr (res\<lparr>res_type := Some MARKET_START_ERR_RUNNING,
                 err_text := Some ''Already in RUNNING state.''\<rparr>, Reply_Now, l, sh)
      else
        let l = l\<lparr>in_data := (in_data l)\<lparr>w_size := 0\<rparr>\<rparr>;
            run = (\<lambda>l. Inr (res, Publish_Then_Signal, set_cmd WINEING_CTRL_CMD_MARKET_RUN l, sh))
        in case tape_file req of
          None \<Rightarrow> run l
        | Some file \<Rightarrow>
            res_bind (deref (tape_basedir conf)) (\<lambda>base.
            let tape = base @ file in
            if wininf_file_exists e (as_cstr tape) (sh_io sh) <s 0 then
              let err = not_found_text tape in
              res_bind (sh_log e LOG_DEBUG (as_cstr err) [] sh) (\<lambda>sh.
              Inr (res\<lparr>res_type := Some ERR, err_text := Some err\<rparr>, Reply_Now, l, sh))
            else
              let sz = length tape + 1 in
              res_bind (memcpy (w_data (in_data l)) (c_str tape) sz) (\<lambda>d.
              run (l\<lparr>in_data := (in_data l)\<lparr>w_size := sz, w_data := d\<rparr>\<rparr>))))"

definition handle_market_stop ::
    "Response \<Rightarrow> in_local \<Rightarrow> 'w shared \<Rightarrow> (Response \<times> followup \<times> in_local \<times> 'w shared) res" where
  "handle_market_stop res l sh =
     Inr (res\<lparr>res_type := Some MARKET_STOP_OK\<rparr>, Publish_Then_Reply,
          set_cmd WINEING_CTRL_CMD_MARKET_STOP l, sh)"

definition handle_shutdown ::
    "Response \<Rightarrow> in_local \<Rightarrow> 'w shared \<Rightarrow> (Response \<times> followup \<times> in_local \<times> 'w shared) res" where
  "handle_shutdown res l sh =
     Inr (res\<lparr>res_type := Some SHUTDOWN_OK\<rparr>, Publish_Then_Signal,
          set_cmd WINEING_CTRL_CMD_SHUTDOWN l, sh)"

definition cchan_in_switch :: "'w env \<Rightarrow> w_conf \<Rightarrow> Request \<Rightarrow> in_local \<Rightarrow> 'w shared \<Rightarrow>
    (Response \<times> followup \<times> in_local \<times> 'w shared) res" where
  "cchan_in_switch e conf req l sh =
     (let res = Response_Clear\<lparr>res_requestId := Some (requestId req)\<rparr> in
      case req_type req of
        MARKET_START \<Rightarrow> handle_market_start e conf req res l sh
      | MARKET_STOP \<Rightarrow> handle_market_stop res l sh
      | SHUTDOWN \<Rightarrow> handle_shutdown res l sh)"

text \<open>The whole handling of a request, as one sequential function.\<close>

definition follow_up :: "Response \<times> followup \<times> in_local \<times> 'w shared \<Rightarrow> (Response \<times> in_local \<times> 'w shared) res" where
  "follow_up out = (case out of (res, f, l, sh) \<Rightarrow> (case f of
       Reply_Now \<Rightarrow> Inr (res, l, sh)
     | Publish_Then_Reply \<Rightarrow> res_bind (publish_data l sh) (\<lambda>(l, sh). Inr (res, l, sh))
     | Publish_Then_Signal \<Rightarrow> res_bind (publish_data l sh) (\<lambda>(l, sh).
         res_bind (signal_market sh) (\<lambda>sh. Inr (res, l, sh)))))"

definition cchan_in_handle ::
    "'w env \<Rightarrow> w_conf \<Rightarrow> Request \<Rightarrow> in_local \<Rightarrow> 'w shared \<Rightarrow> (Response \<times> in_local \<times> 'w shared) res" where
  "cchan_in_handle e conf req l sh = res_bind (cchan_in_switch e conf req l sh) follow_up"

subsection \<open>Sending the response\<close>

definition cchan_in_reply :: "'w env \<Rightarrow> chan \<Rightarrow> Response \<Rightarrow> 'w shared \<Rightarrow> 'w shared res" where
  "cchan_in_reply e cchan_out_inmem res sh =
     (let buffer = SerializeResponse e res in
      res_bind (chan_send e cchan_out_inmem buffer (length buffer) True (sh_io sh)) (\<lambda>(rc, i).
      let sh = sh\<lparr>sh_io := i\<rparr> in
      if rc <s 0 then
        sh_log e LOG_WARN ''Failed sending message to inproc channel (%s). Error %s''
          [AStr DEFAULTS_ICHAN_NAME, AStr (chan_error e i)] sh
      else Inr sh))"

subsection \<open>The thread\<close>

datatype in_pc =
    In_Start
  | In_Connect chan chan             \<comment> \<open>\<open>cchan_in\<close> bound, connecting \<open>cchan_out_inmem\<close>\<close>
  | In_Loop chan chan                \<comment> \<open>at the test of the loop\<close>
  | In_Handle chan chan Request      \<comment> \<open>request received\<close>
  | In_Publish chan chan Response bool   \<comment> \<open>about to publish \<open>t_data\<close>, and then to signal or not\<close>
  | In_Signal chan chan Response     \<comment> \<open>about to signal the market thread\<close>
  | In_Reply chan chan Response      \<comment> \<open>request handled, response not sent\<close>
  | In_End

text \<open>Binding \<open>cchan_in\<close>; on failure the thread returns.\<close>

definition in_start :: "'w env \<Rightarrow> w_conf \<Rightarrow> 'w shared \<Rightarrow> (in_pc \<times> 'w shared) res" where
  "in_start e conf sh =
     res_bind (sh_log_lazy e LOG_INFO ''Initializing control_in thread (%s)'' (str_args (cchan_in_fqcn conf) []) sh) (\<lambda>sh.
     res_bind (chan_bind e (chan_init (cchan_in_fqcn conf) CHAN_TYPE_PULL_BIND) (sh_io sh)) (\<lambda>(rc, c, i).
     let sh = sh\<lparr>sh_io := i\<rparr> in
     if rc <s 0 then
       res_bind (sh_log_lazy e LOG_ERROR ''Failed binding to cchan_in (%s). Error [%s]''
                   (str_args (cchan_in_fqcn conf) [chan_error e i]) sh) (\<lambda>sh. Inr (In_End, sh))
     else Inr (In_Connect c (chan_init (CStr DEFAULTS_ICHAN_NAME) CHAN_TYPE_PUSH_CONNECT), sh)))"

text \<open>One attempt to connect to the inproc channel; the thread sleeps and repeats on failure.\<close>

definition in_connect :: "'w env \<Rightarrow> chan \<Rightarrow> chan \<Rightarrow> 'w shared \<Rightarrow> (in_pc \<times> 'w shared) res" where
  "in_connect e c o' sh =
     res_bind (chan_bind e o' (sh_io sh)) (\<lambda>(rc, o', i).
     let sh = sh\<lparr>sh_io := i\<rparr> in
     if rc <s 0 then Inr (In_Connect c o', sh)
     else res_bind (sh_log e LOG_DEBUG ''Ready to accept client requests'' [] sh) (\<lambda>sh.
          Inr (In_Loop c o', sh)))"

text \<open>
  The test of the loop and the receive. A receive that fails, or yields no bytes, ends the turn
  without a response.
\<close>

definition in_turn ::
    "'w env \<Rightarrow> chan \<Rightarrow> chan \<Rightarrow> in_local \<Rightarrow> 'w shared \<Rightarrow> (in_pc \<times> 'w shared) res" where
  "in_turn e c o' l sh =
     (if WINEING_CTRL_CMD_SHUTDOWN <s w_cmd (in_data l) then
        res_bind (chan_recv e c (recv_ctrl e) Request_Clear (sh_io sh)) (\<lambda>(rc, req, i).
        let sh = sh\<lparr>sh_io := i\<rparr> in
        Inr (if 0 <s rc then In_Handle c o' req else In_Loop c o', sh))
      else
        res_bind (chan_destroy e c (sh_io sh)) (\<lambda>i.
        res_bind (chan_destroy e o' i) (\<lambda>i.
        res_bind (sh_log e LOG_INFO ''Shutting down control_in thread'' [] (sh\<lparr>sh_io := i\<rparr>)) (\<lambda>sh.
        Inr (In_End, sh)))))"

definition in_dispatch :: "'w env \<Rightarrow> w_conf \<Rightarrow> chan \<Rightarrow> chan \<Rightarrow> Request \<Rightarrow> in_local \<Rightarrow> 'w shared \<Rightarrow>
    (in_pc \<times> in_local \<times> 'w shared) res" where
  "in_dispatch e conf c o' req l sh =
     res_bind (cchan_in_switch e conf req l sh) (\<lambda>(res, f, l, sh).
     Inr (case f of
            Reply_Now \<Rightarrow> In_Reply c o' res
          | Publish_Then_Reply \<Rightarrow> In_Publish c o' res False
          | Publish_Then_Signal \<Rightarrow> In_Publish c o' res True, l, sh))"

definition in_step ::
    "'w env \<Rightarrow> w_conf \<Rightarrow> in_pc \<Rightarrow> in_local \<Rightarrow> 'w shared \<Rightarrow> (in_pc \<times> in_local \<times> 'w shared) res" where
  "in_step e conf p l sh = (case p of
       In_Start \<Rightarrow> res_bind (in_start e conf sh) (\<lambda>(p, sh). Inr (p, l, sh))
     | In_Connect c o' \<Rightarrow> res_bind (in_connect e c o' sh) (\<lambda>(p, sh). Inr (p, l, sh))
     | In_Loop c o' \<Rightarrow> res_bind (in_turn e c o' l sh) (\<lambda>(p, sh). Inr (p, l, sh))
     | In_Handle c o' req \<Rightarrow> in_dispatch e conf c o' req l sh
     | In_Publish c o' res sig \<Rightarrow> res_bind (publish_data l sh) (\<lambda>(l, sh).
         Inr (if sig then In_Signal c o' res else In_Reply c o' res, l, sh))
     | In_Signal c o' res \<Rightarrow> res_bind (signal_market sh) (\<lambda>sh. Inr (In_Reply c o' res, l, sh))
     | In_Reply c o' res \<Rightarrow> res_bind (cchan_in_reply e o' res sh) (\<lambda>sh. Inr (In_Loop c o', l, sh))
     | In_End \<Rightarrow> Inl WouldBlock)"

end
