(* ===== verification/Ctrl_In_Spec.thy ===== *)
theory Ctrl_In_Spec
  imports Ctrl_In
begin

text \<open>
  What the request handler of \<open>Ctrl_In\<close> promises: a state machine over command and tape name
  (\<open>ctrl_machine\<close>), the refinement of it by \<open>cchan_in_handle\<close> for the requests the handler
  survives (\<open>safe_request\<close>), and what happens on the others.
\<close>

subsection \<open>The specification: a state machine over command and tape\<close>

text \<open>
  The state is the command last set and the tape name last set (with its NUL; empty for
  real-time). The machine answers a request with a response type and says whether the new
  state is published. A failed start keeps the command but drops the tape.
\<close>

fun ctrl_machine :: "(string \<Rightarrow> bool) \<Rightarrow> string \<Rightarrow> Request_Type \<Rightarrow> string option \<Rightarrow> c_int \<times> string \<Rightarrow>
    Response_Type \<times> bool \<times> c_int \<times> string" where
  "ctrl_machine exists base MARKET_START file (c, t) =
     (if c = WINEING_CTRL_CMD_MARKET_RUN then (MARKET_START_ERR_RUNNING, False, c, t)
      else case file of
        None \<Rightarrow> (MARKET_START_OK, True, WINEING_CTRL_CMD_MARKET_RUN, [])
      | Some f \<Rightarrow>
          if exists (base @ f) then (MARKET_START_OK, True, WINEING_CTRL_CMD_MARKET_RUN, c_str (base @ f))
          else (ERR, False, c, []))"
| "ctrl_machine exists base MARKET_STOP file (c, t) = (MARKET_STOP_OK, True, WINEING_CTRL_CMD_MARKET_STOP, t)"
| "ctrl_machine exists base SHUTDOWN file (c, t) = (SHUTDOWN_OK, True, WINEING_CTRL_CMD_SHUTDOWN, t)"

definition tape_found :: "'w env \<Rightarrow> 'w shared \<Rightarrow> string \<Rightarrow> bool" where
  "tape_found e sh tape \<longleftrightarrow> \<not> wininf_file_exists e (as_cstr tape) (sh_io sh) <s 0"

text \<open>
  The thread's invariant: the shared state is at rest, the thread owns the version and its
  record is well-formed.
\<close>

definition in_inv :: "in_local \<Rightarrow> 'w shared \<Rightarrow> bool" where
  "in_inv l sh \<longleftrightarrow> shared_ready sh \<and> wf_ctrl (in_data l) \<and> in_version l = g_version (conc sh)"

text \<open>
  The requests the handler survives: a start (when not running) with a tape that is found
  must fit the buffer; one with a tape that is not found must give a message that is a valid
  format, if debug messages are printed.
\<close>

definition safe_start :: "'w env \<Rightarrow> 'w shared \<Rightarrow> string \<Rightarrow> bool" where
  "safe_start e sh tape \<longleftrightarrow>
     (if tape_found e sh tape then length tape < WINEING_CTRL_DEFAULT_DATA_SIZE
      else log_enabled (LOG_LEVEL e) LOG_DEBUG \<longrightarrow> percent_doubled (as_cstr (not_found_text tape)))"

definition safe_request :: "'w env \<Rightarrow> string \<Rightarrow> Request \<Rightarrow> in_local \<Rightarrow> 'w shared \<Rightarrow> bool" where
  "safe_request e base req l sh \<longleftrightarrow>
     (req_type req = MARKET_START \<and> w_cmd (in_data l) \<noteq> WINEING_CTRL_CMD_MARKET_RUN \<longrightarrow>
       (case tape_file req of None \<Rightarrow> True | Some f \<Rightarrow> safe_start e sh (base @ f)))"

subsection \<open>The steps of the handler\<close>

text \<open>Assigning the command and publishing it.\<close>

definition publish_cmd :: "c_int \<Rightarrow> in_local \<Rightarrow> 'w shared \<Rightarrow> (in_local \<times> 'w shared) res" where
  "publish_cmd c l sh = publish_data (set_cmd c l) sh"

lemmas publish_cmd_unfold = publish_cmd_def publish_data_def set_cmd_def

lemma publish_cmd_ok:
  assumes "in_inv l sh" "g_version (conc sh) \<noteq> INT_MAX"
  shows "\<exists>l' sh'. publish_cmd c l sh = Inr (l', sh') \<and> in_inv l' sh' \<and>
     in_data l' = (in_data l)\<lparr>w_cmd := c\<rparr> \<and> ctrl_view (g_data sh') = ctrl_view (in_data l') \<and>
     g_version (conc sh') = g_version (conc sh) + 1 \<and> sh_io sh' = sh_io sh"
proof -
  have "wf_ctrl ((in_data l)\<lparr>w_cmd := c\<rparr>)" "cell_ready sh" "in_version l = g_version (conc sh)"
    using assms(1) by (auto simp: in_inv_def wf_ctrl_def shared_ready_def)
  with assms(1) show ?thesis
    by (auto simp: publish_cmd_unfold update_g_data_owner [OF _ _ assms(2)] in_inv_def shared_ready_def
        cell_ready_def wf_ctrl_def ctrl_view_def)
qed

lemma publish_cmd_overflow:
  "in_inv l sh \<Longrightarrow> g_version (conc sh) = INT_MAX \<Longrightarrow> publish_cmd c l sh = Inl SignedOverflow"
  by (simp add: in_inv_def publish_cmd_unfold update_g_data_def shared_ready_def cell_ready_def
      update_global_overflow)

lemma signal_market_ok: "shared_ready sh \<Longrightarrow> signal_market sh = Inr sh"
  by (cases sh) (simp add: signal_market_def shared_ready_def)

lemma signal_market_inv: "in_inv l sh \<Longrightarrow> signal_market sh = Inr sh"
  by (simp add: in_inv_def signal_market_ok)

text \<open>What a handler must deliver, for the machine's answer \<open>m\<close> to a request.\<close>

definition handled ::
    "Request \<Rightarrow> in_local \<Rightarrow> 'w shared \<Rightarrow> Response_Type \<times> bool \<times> c_int \<times> string \<Rightarrow>
     Response \<times> in_local \<times> 'w shared \<Rightarrow> bool" where
  "handled req l sh m out \<longleftrightarrow>
     (case (m, out) of ((ty, pub, st), (res, l', sh')) \<Rightarrow>
        in_inv l' sh' \<and> res_requestId res = Some (requestId req) \<and> res_type res = Some ty \<and>
        ctrl_view (in_data l') = st \<and> world (sh_io sh') = world (sh_io sh) \<and>
        (if pub then ctrl_view (g_data sh') = st \<and> g_version (conc sh') = g_version (conc sh) + 1
         else g_data sh' = g_data sh \<and> conc sh' = conc sh))"

text \<open>The handler of a start with what follows it.\<close>

definition start_all :: "'w env \<Rightarrow> w_conf \<Rightarrow> Request \<Rightarrow> Response \<Rightarrow> in_local \<Rightarrow> 'w shared \<Rightarrow>
    (Response \<times> in_local \<times> 'w shared) res" where
  "start_all e conf req res l sh = res_bind (handle_market_start e conf req res l sh) follow_up"

lemma follow_up_simps [simp]:
  "follow_up (res, Reply_Now, l, sh) = Inr (res, l, sh)"
  "follow_up (res, Publish_Then_Reply, set_cmd c l, sh) =
     res_bind (publish_cmd c l sh) (\<lambda>(l, sh). Inr (res, l, sh))"
  "follow_up (res, Publish_Then_Signal, set_cmd c l, sh) =
     res_bind (publish_cmd c l sh) (\<lambda>(l, sh). res_bind (signal_market sh) (\<lambda>sh. Inr (res, l, sh)))"
  by (simp_all add: follow_up_def publish_cmd_def)

lemma handle_parts:
  "cchan_in_handle e conf req l sh =
     (let res = Response_Clear\<lparr>res_requestId := Some (requestId req)\<rparr> in
      case req_type req of
        MARKET_START \<Rightarrow> start_all e conf req res l sh
      | MARKET_STOP \<Rightarrow> res_bind (publish_cmd WINEING_CTRL_CMD_MARKET_STOP l sh) (\<lambda>(l, sh).
          Inr (res\<lparr>res_type := Some MARKET_STOP_OK\<rparr>, l, sh))
      | SHUTDOWN \<Rightarrow> res_bind (publish_cmd WINEING_CTRL_CMD_SHUTDOWN l sh) (\<lambda>(l, sh).
          res_bind (signal_market sh) (\<lambda>sh. Inr (res\<lparr>res_type := Some SHUTDOWN_OK\<rparr>, l, sh))))"
  by (simp add: cchan_in_handle_def cchan_in_switch_def handle_market_stop_def handle_shutdown_def
      start_all_def Let_def split: Request_Type.split)

lemmas start_all_unfold = start_all_def handle_market_start_def

lemma run_handled:
  assumes "in_inv l sh" "g_version (conc sh) \<noteq> INT_MAX" "res_requestId res = Some (requestId req)"
    "res_type res = Some ty"
  shows "\<exists>out. res_bind (publish_cmd c l sh) (\<lambda>(l, sh). res_bind (signal_market sh)
        (\<lambda>sh. Inr (res, l, sh))) = Inr out \<and>
     handled req l sh (ty, True, c, take (w_size (in_data l)) (w_data (in_data l))) out"
proof -
  obtain l' sh' where "publish_cmd c l sh = Inr (l', sh')" "in_inv l' sh'"
     "in_data l' = (in_data l)\<lparr>w_cmd := c\<rparr>" "ctrl_view (g_data sh') = ctrl_view (in_data l')"
     "g_version (conc sh') = g_version (conc sh) + 1" "sh_io sh' = sh_io sh"
    using publish_cmd_ok [OF assms(1,2)] by blast
  with assms(3,4) show ?thesis
    by (simp add: signal_market_inv handled_def ctrl_view_def)
qed

lemma sh_log_format:
  "log_enabled (LOG_LEVEL e) level \<longrightarrow> percent_doubled msg \<Longrightarrow>
   \<exists>out. sh_log e level msg [] sh = Inr (sh\<lparr>sh_io := (sh_io sh)\<lparr>stdout := out\<rparr>\<rparr>)"
  by (intro sh_log_total) (simp add: log_fine_def c_format_no_args)

lemma in_inv_io: "in_inv l (sh\<lparr>sh_io := i\<rparr>) = in_inv l sh"
  by (simp add: in_inv_def shared_ready_def cell_ready_def)

lemma in_inv_size0: "in_inv l sh \<Longrightarrow> in_inv (l\<lparr>in_data := (in_data l)\<lparr>w_size := 0\<rparr>\<rparr>) sh"
  by (simp add: in_inv_def wf_ctrl_def)

lemma start_running:
  assumes "in_inv l sh" "w_cmd (in_data l) = WINEING_CTRL_CMD_MARKET_RUN"
    "res_requestId res = Some (requestId req)"
  shows "\<exists>out. start_all e conf req res l sh = Inr out \<and>
     handled req l sh (MARKET_START_ERR_RUNNING, False, ctrl_view (in_data l)) out"
  using assms by (simp add: start_all_unfold handled_def)

lemma start_realtime:
  assumes "in_inv l sh" "g_version (conc sh) \<noteq> INT_MAX" "tape_file req = None"
    "w_cmd (in_data l) \<noteq> WINEING_CTRL_CMD_MARKET_RUN" "res_requestId res = Some (requestId req)"
  shows "\<exists>out. start_all e conf req res l sh = Inr out \<and>
     handled req l sh (MARKET_START_OK, True, WINEING_CTRL_CMD_MARKET_RUN, []) out"
  using run_handled [OF in_inv_size0 [OF assms(1)] assms(2), of "res\<lparr>res_type := Some MARKET_START_OK\<rparr>"
      req MARKET_START_OK WINEING_CTRL_CMD_MARKET_RUN] assms(3-5)
  by (simp add: start_all_unfold handled_def)

lemma start_missing:
  assumes "in_inv l sh" "tape_file req = Some f" "tape_basedir conf = CStr base"
    "w_cmd (in_data l) \<noteq> WINEING_CTRL_CMD_MARKET_RUN" "res_requestId res = Some (requestId req)"
    "\<not> tape_found e sh (base @ f)" "safe_start e sh (base @ f)"
  shows "\<exists>out. start_all e conf req res l sh = Inr out \<and>
     handled req l sh (ERR, False, w_cmd (in_data l), []) out"
proof -
  from assms(6,7) obtain out where
    "sh_log e LOG_DEBUG (as_cstr (not_found_text (base @ f))) [] sh =
       Inr (sh\<lparr>sh_io := (sh_io sh)\<lparr>stdout := out\<rparr>\<rparr>)"
    using sh_log_format [of e LOG_DEBUG "as_cstr (not_found_text (base @ f))" sh]
    by (auto simp: safe_start_def)
  with assms show ?thesis
    by (simp add: start_all_unfold handled_def tape_found_def in_inv_io in_inv_size0
        ctrl_view_def)
qed

lemma start_tape:
  assumes "in_inv l sh" "g_version (conc sh) \<noteq> INT_MAX" "tape_file req = Some f"
    "tape_basedir conf = CStr base"
    "w_cmd (in_data l) \<noteq> WINEING_CTRL_CMD_MARKET_RUN" "res_requestId res = Some (requestId req)"
    "tape_found e sh (base @ f)" "length (base @ f) < WINEING_CTRL_DEFAULT_DATA_SIZE"
  shows "\<exists>out. start_all e conf req res l sh = Inr out \<and>
     handled req l sh (MARKET_START_OK, True, WINEING_CTRL_CMD_MARKET_RUN, c_str (base @ f)) out"
proof -
  let ?n = "length (base @ f) + 1"
  let ?d = "c_str (base @ f) @ drop ?n (w_data (in_data l))"
  let ?l = "l\<lparr>in_data := (in_data l)\<lparr>w_size := ?n, w_data := ?d\<rparr>\<rparr>"
  have len: "length (w_data (in_data l)) = WINEING_CTRL_DEFAULT_DATA_SIZE"
    using assms(1) by (simp add: in_inv_def wf_ctrl_def)
  have cp: "memcpy (w_data (in_data l)) (c_str (base @ f)) ?n = Inr ?d"
    using len assms(8) by (simp add: memcpy_def)
  have inv: "in_inv ?l sh"
    using assms(1,8) len by (simp add: in_inv_def wf_ctrl_def)
  from run_handled [OF inv assms(2), of "res\<lparr>res_type := Some MARKET_START_OK\<rparr>"
      req MARKET_START_OK WINEING_CTRL_CMD_MARKET_RUN] assms cp show ?thesis
    by (simp add: start_all_unfold handled_def tape_found_def Let_def)
qed

text \<open>The switch returns exactly on the safe requests.\<close>

lemma switch_safe:
  assumes "in_inv l sh" "tape_basedir conf = CStr base" "safe_request e base req l sh"
  shows "\<exists>out. cchan_in_switch e conf req l sh = Inr out"
proof (cases "req_type req = MARKET_START \<and> w_cmd (in_data l) \<noteq> WINEING_CTRL_CMD_MARKET_RUN")
  case False
  then show ?thesis
    by (cases "req_type req")
      (auto simp: cchan_in_switch_def handle_market_start_def handle_market_stop_def handle_shutdown_def)
next
  case idle: True
  show ?thesis
  proof (cases "tape_file req")
    case None
    with idle show ?thesis by (simp add: cchan_in_switch_def handle_market_start_def)
  next
    case (Some f)
    with idle assms(3) have safe: "safe_start e sh (base @ f)" by (simp add: safe_request_def)
    show ?thesis
    proof (cases "tape_found e sh (base @ f)")
      case True
      with safe assms(1) have "length (base @ f) + 1 \<le> length (w_data (in_data l))"
        by (simp add: safe_start_def in_inv_def wf_ctrl_def)
      with True idle Some assms(2) show ?thesis
        by (simp add: cchan_in_switch_def handle_market_start_def tape_found_def Let_def memcpy_def)
    next
      case False
      with safe sh_log_format [of e LOG_DEBUG "as_cstr (not_found_text (base @ f))" sh] obtain out where
        "sh_log e LOG_DEBUG (as_cstr (not_found_text (base @ f))) [] sh = Inr (sh\<lparr>sh_io := (sh_io sh)\<lparr>stdout := out\<rparr>\<rparr>)"
        by (auto simp: safe_start_def)
      with False idle Some assms(2) show ?thesis
        by (simp add: cchan_in_switch_def handle_market_start_def tape_found_def Let_def)
    qed
  qed
qed

lemma switch_unsafe:
  assumes "in_inv l sh" "tape_basedir conf = CStr base" "\<not> safe_request e base req l sh"
  shows "\<exists>f \<in> {OutOfBounds, BadFormat}. cchan_in_switch e conf req l sh = Inl f"
proof -
  from assms(3) obtain f where f: "req_type req = MARKET_START" "tape_file req = Some f"
      "w_cmd (in_data l) \<noteq> WINEING_CTRL_CMD_MARKET_RUN" "\<not> safe_start e sh (base @ f)"
    by (auto simp: safe_request_def split: option.splits)
  show ?thesis
  proof (cases "tape_found e sh (base @ f)")
    case True
    with f(4) assms(1) have "length (w_data (in_data l)) < length (base @ f) + 1"
      by (simp add: safe_start_def in_inv_def wf_ctrl_def)
    with True f assms(2) show ?thesis
      by (simp add: cchan_in_switch_def handle_market_start_def tape_found_def Let_def)
  next
    case False
    with f(4) have "log_enabled (LOG_LEVEL e) LOG_DEBUG"
        "c_format (as_cstr (not_found_text (base @ f))) [] = Inl BadFormat"
      using c_format_no_args_fault by (auto simp: safe_start_def)
    with False f assms(2) show ?thesis
      by (simp add: cchan_in_switch_def handle_market_start_def tape_found_def Let_def sh_log_def
          log_def log_emit_def)
  qed
qed

lemmas start_cases = start_running start_realtime start_missing start_tape

lemma cchan_in_handle_total:
  assumes "in_inv l sh" "g_version (conc sh) \<noteq> INT_MAX" "tape_basedir conf = CStr base"
    and "safe_request e base req l sh"
  shows "\<exists>out. cchan_in_handle e conf req l sh = Inr out \<and>
     handled req l sh (ctrl_machine (tape_found e sh) base (req_type req) (tape_file req)
       (ctrl_view (in_data l))) out"
proof (cases "req_type req")
  case MARKET_START
  have v: "ctrl_view (in_data l) = (w_cmd (in_data l), take (w_size (in_data l)) (w_data (in_data l)))"
    by (simp add: ctrl_view_def)
  let ?res = "Response_Clear\<lparr>res_requestId := Some (requestId req)\<rparr>"
  show ?thesis
  proof (cases "w_cmd (in_data l) = WINEING_CTRL_CMD_MARKET_RUN")
    case True
    with start_running [OF assms(1), of ?res req e conf] MARKET_START v show ?thesis
      by (simp add: handle_parts)
  next
    case False
    note idle = this
    show ?thesis
    proof (cases "tape_file req")
      case None
      with start_realtime [OF assms(1,2) None idle, of ?res e conf] MARKET_START v idle show ?thesis
        by (simp add: handle_parts)
    next
      case (Some f)
      have safe: "safe_start e sh (base @ f)"
        using assms(4) MARKET_START idle Some by (simp add: safe_request_def)
      show ?thesis
      proof (cases "tape_found e sh (base @ f)")
        case True
        with safe start_tape [OF assms(1,2) Some assms(3) idle _ True, of ?res] MARKET_START v idle Some
        show ?thesis by (simp add: handle_parts safe_start_def)
      next
        case False
        with start_missing [OF assms(1) Some assms(3) idle _ False safe, of ?res] MARKET_START v idle Some
        show ?thesis by (simp add: handle_parts)
      qed
    qed
  qed
next
  case MARKET_STOP
  then show ?thesis
    using publish_cmd_ok [OF assms(1,2), of WINEING_CTRL_CMD_MARKET_STOP]
    by (auto simp: handle_parts handled_def ctrl_view_def)
next
  case SHUTDOWN
  then show ?thesis
    using publish_cmd_ok [OF assms(1,2), of WINEING_CTRL_CMD_SHUTDOWN]
    by (auto simp: handle_parts handled_def ctrl_view_def
        signal_market_inv)
qed

text \<open>
  C5. Refinement and totality of the request handler: for a safe request the handler returns
  without a fault; the response carries the request's id and the type the state machine
  gives; command and tape follow the machine; the new state is published (version plus one,
  shared view equal to the thread's) exactly when the machine says so, and otherwise shared
  record and version stay; the thread's invariant holds again.
\<close>
theorem cchan_in_handle_refines_machine:
  assumes "in_inv l sh" "g_version (conc sh) \<noteq> INT_MAX" "tape_basedir conf = CStr base"
    and "safe_request e base req l sh"
  shows "\<exists>out. cchan_in_handle e conf req l sh = Inr out \<and>
     handled req l sh (ctrl_machine (tape_found e sh) base (req_type req) (tape_file req)
       (ctrl_view (in_data l))) out"
  using assms by (rule cchan_in_handle_total)

text \<open>
  C27. Buffer overflow: a start request for a tape file that exists and whose path (with the tape
  root) has 1024 characters or more makes the handler copy past the end of the 1024 byte
  buffer of its control record.
\<close>
theorem long_tape_overflows_buffer:
  assumes "in_inv l sh" "tape_basedir conf = CStr base" "req_type req = MARKET_START"
    and "w_cmd (in_data l) \<noteq> WINEING_CTRL_CMD_MARKET_RUN" "tape_file req = Some f"
    and "tape_found e sh (base @ f)" "WINEING_CTRL_DEFAULT_DATA_SIZE \<le> length (base @ f)"
  shows "cchan_in_handle e conf req l sh = Inl OutOfBounds"
proof -
  have "length (w_data (in_data l)) = WINEING_CTRL_DEFAULT_DATA_SIZE"
    using assms(1) by (simp add: in_inv_def wf_ctrl_def)
  with assms show ?thesis
    by (simp add: handle_parts start_all_unfold tape_found_def Let_def)
qed

text \<open>
  C28. Format string: the message for a tape file that does not exist is passed to the log macro
  as the format. When debug messages are printed, a start request (not running) whose message
  has a percent sign that is not doubled is a conversion without an argument, which is
  undefined behaviour; the client chooses the text.
\<close>
theorem missing_tape_is_a_format_string:
  assumes "tape_basedir conf = CStr base" "req_type req = MARKET_START"
    and "w_cmd (in_data l) \<noteq> WINEING_CTRL_CMD_MARKET_RUN" "tape_file req = Some f"
    and "\<not> tape_found e sh (base @ f)" "log_enabled (LOG_LEVEL e) LOG_DEBUG"
    and "\<not> percent_doubled (as_cstr (not_found_text (base @ f)))"
  shows "cchan_in_handle e conf req l sh = Inl BadFormat"
proof -
  have "c_format (as_cstr (not_found_text (base @ f))) [] = Inl BadFormat"
    using assms(7) by (rule c_format_no_args_fault)
  with assms show ?thesis
    by (simp add: handle_parts start_all_unfold tape_found_def Let_def sh_log_def
        log_def log_emit_def)
qed

end
