(* ===== verification/Ctrl_Out.thy ===== *)
theory Ctrl_Out
  imports Shared
begin

text \<open>
  Model of \<open>cchan_out_thread\<close> and \<open>_cchan_in_mem_copy\<close> in
  \<^verbatim>\<open>src/main/c/impl/all/core/wineing.cc\<close>: the thread that takes the serialised responses from
  the inproc channel and publishes them to the clients.

  Program points: start, head of the loop (reading the published command), testing the command
  it has read, waiting for a message with a fresh buffer, holding a message to send, end. The bytes of \<open>new char[1024]\<close>
  are indeterminate; the thread only sends the bytes it received, so the buffer starts as NULs
  here.
\<close>

record out_local =
  out_version :: c_int
  out_data :: w_ctrl

definition out_static :: "string \<Rightarrow> out_local" where
  "out_static buf = \<lparr>out_version = DEFAULTS_SHARED_VERSION_READ_INIT, out_data = ctrl_init buf\<rparr>"

definition OUT_BUFFER_SIZE :: nat where "OUT_BUFFER_SIZE = 1024"

definition cchan_in_mem_copy :: "('w, string) chan_recvFn" where
  "cchan_in_mem_copy buffer sz out_buffer io =
     res_bind (memcpy out_buffer buffer sz) (\<lambda>b. Inr (0, b, io))"

datatype o_pc =
    O_Start
  | O_Loop chan chan                  \<comment> \<open>\<open>cchan_out\<close> and \<open>cchan_in_mem\<close> bound\<close>
  | O_Test chan chan                  \<comment> \<open>the published command is read\<close>
  | O_Recv chan chan
  | O_Send chan chan string c_int     \<comment> \<open>buffer and number of bytes read\<close>
  | O_End

definition out_start :: "'w env \<Rightarrow> w_conf \<Rightarrow> 'w shared \<Rightarrow> (o_pc \<times> 'w shared) res" where
  "out_start e conf sh =
     res_bind (sh_log_lazy e LOG_INFO ''Initializing control_out thread (%s)'' (str_args (cchan_out_fqcn conf) []) sh) (\<lambda>sh.
     res_bind (chan_bind e (chan_init (cchan_out_fqcn conf) CHAN_TYPE_PUB) (sh_io sh)) (\<lambda>(rc, c, i).
     let sh = sh\<lparr>sh_io := i\<rparr> in
     if rc <s 0 then
       res_bind (sh_log_lazy e LOG_ERROR ''Failed binding cchan_out (%s). Error [%s]''
                   (str_args (cchan_out_fqcn conf) [chan_error e i]) sh) (\<lambda>sh. Inr (O_End, sh))
     else
       res_bind (chan_bind e (chan_init (CStr DEFAULTS_ICHAN_NAME) CHAN_TYPE_PULL_BIND) (sh_io sh))
         (\<lambda>(rc, m, i).
       let sh = sh\<lparr>sh_io := i\<rparr> in
       if rc <s 0 then
         res_bind (sh_log e LOG_ERROR ''Failed binding to cchan_in_mem (%s). Error [%s]''
                     [AStr DEFAULTS_ICHAN_NAME, AStr (chan_error e i)] sh) (\<lambda>sh. Inr (O_End, sh))
       else Inr (O_Loop c m, sh))))"

definition out_read :: "out_local \<Rightarrow> 'w shared \<Rightarrow> (out_local \<times> 'w shared) res" where
  "out_read l sh =
     res_bind (read_g_data (out_version l) (out_data l) sh) (\<lambda>(t_version, t_data, sh).
     Inr (l\<lparr>out_version := t_version, out_data := t_data\<rparr>, sh))"

definition out_test :: "'w env \<Rightarrow> chan \<Rightarrow> chan \<Rightarrow> w_ctrl \<Rightarrow> 'w shared \<Rightarrow> (o_pc \<times> 'w shared) res" where
  "out_test e c m t_data sh =
    (if WINEING_CTRL_CMD_SHUTDOWN = w_cmd t_data then
       res_bind (chan_destroy e m (sh_io sh)) (\<lambda>i.
       res_bind (chan_destroy e c i) (\<lambda>i.
       res_bind (sh_log e LOG_INFO ''Shutting down control_out thread'' [] (sh\<lparr>sh_io := i\<rparr>)) (\<lambda>sh.
       Inr (O_End, sh))))
     else Inr (O_Recv c m, sh))"

definition out_recv :: "'w env \<Rightarrow> chan \<Rightarrow> chan \<Rightarrow> 'w shared \<Rightarrow> (o_pc \<times> 'w shared) res" where
  "out_recv e c m sh =
     res_bind (chan_recv e m cchan_in_mem_copy (replicate OUT_BUFFER_SIZE NUL) (sh_io sh))
       (\<lambda>(read, buffer, i).
     let sh = sh\<lparr>sh_io := i\<rparr> in
     if read <s 0 then
       res_bind (sh_log e LOG_WARN ''Failed reading message from inproc channel (%s). Error %s''
                   [AStr DEFAULTS_ICHAN_NAME, AStr (chan_error e i)] sh) (\<lambda>sh. Inr (O_Loop c m, sh))
     else Inr (O_Send c m buffer read, sh))"

definition out_send :: "'w env \<Rightarrow> chan \<Rightarrow> chan \<Rightarrow> string \<Rightarrow> c_int \<Rightarrow> 'w shared \<Rightarrow> (o_pc \<times> 'w shared) res" where
  "out_send e c m buffer read sh =
     res_bind (chan_send e c buffer (size_t_of_int read) True (sh_io sh)) (\<lambda>(rc, i).
     let sh = sh\<lparr>sh_io := i\<rparr> in
     if rc <s 0 then
       res_bind (sh_log e LOG_WARN ''Sending control message failed. Error %s''
                   [AStr (chan_error e i)] sh) (\<lambda>sh. Inr (O_Loop c m, sh))
     else Inr (O_Loop c m, sh))"

definition out_step :: "'w env \<Rightarrow> w_conf \<Rightarrow> o_pc \<Rightarrow> out_local \<Rightarrow> 'w shared \<Rightarrow>
    (o_pc \<times> out_local \<times> 'w shared) res" where
  "out_step e conf p l sh = (case p of
       O_Start \<Rightarrow> res_bind (out_start e conf sh) (\<lambda>(p, sh). Inr (p, l, sh))
     | O_Loop c m \<Rightarrow> res_bind (out_read l sh) (\<lambda>(l, sh). Inr (O_Test c m, l, sh))
     | O_Test c m \<Rightarrow> res_bind (out_test e c m (out_data l) sh) (\<lambda>(p, sh). Inr (p, l, sh))
     | O_Recv c m \<Rightarrow> res_bind (out_recv e c m sh) (\<lambda>(p, sh). Inr (p, l, sh))
     | O_Send c m b n \<Rightarrow> res_bind (out_send e c m b n sh) (\<lambda>(p, sh). Inr (p, l, sh))
     | O_End \<Rightarrow> Inl WouldBlock)"

subsection \<open>Forwarding one message\<close>

lemma mem_copy_fits:
  "length d \<le> OUT_BUFFER_SIZE \<Longrightarrow>
   cchan_in_mem_copy d (length d) (replicate OUT_BUFFER_SIZE NUL) io =
     Inr (0, d @ replicate (OUT_BUFFER_SIZE - length d) NUL, io)"
  by (simp add: cchan_in_mem_copy_def memcpy_def)

lemma out_recv_message:
  assumes "sock m = Sock s" "zmq_recv e s (world (sh_io sh)) = Some (0, d, w)"
    and "length d \<le> OUT_BUFFER_SIZE"
  shows "out_recv e c m sh = Inr (O_Send c m (d @ replicate (OUT_BUFFER_SIZE - length d) NUL)
     (word_of_nat (length d)), sh\<lparr>sh_io := (sh_io sh)\<lparr>world := w\<rparr>\<rparr>)"
proof -
  have l: "length d < 2147483648" using assms(3) by (simp add: OUT_BUFFER_SIZE_def)
  have "\<not> (word_of_nat (length d) :: c_int) <s 0"
    using l by (simp add: word_sless_alt sint_word_of_nat_small)
  with assms l show ?thesis
    by (simp add: out_recv_def chan_recv_message mem_copy_fits [OF assms(3)])
qed

text \<open>
  A message of at most 1024 bytes taken from the inproc channel is sent on the control
  channel byte for byte: the bytes handed to the socket are the message's, whatever its
  content, and the thread is back at the head of its loop.
\<close>
lemma out_forwards_unchanged:
  assumes "sock m = Sock s" "sock c = Sock z"
    and "zmq_recv e s (world (sh_io sh)) = Some (0, d, w)" "length d \<le> OUT_BUFFER_SIZE"
    and "zmq_send e z d True w = (rc, w')"
  shows "\<exists>p sh1 sh2. out_step e conf (O_Recv c m) l sh = Inr (p, l, sh1) \<and>
     out_step e conf p l sh1 = Inr (O_Loop c m, l, sh2) \<and>
     world (sh_io sh2) = w' \<and> conc sh2 = conc sh \<and> g_data sh2 = g_data sh"
proof -
  let ?b = "d @ replicate (OUT_BUFFER_SIZE - length d) NUL"
  let ?n = "word_of_nat (length d) :: c_int"
  have n: "size_t_of_int ?n = length d"
    using assms(4) by (simp add: OUT_BUFFER_SIZE_def)
  let ?sh = "sh\<lparr>sh_io := (sh_io sh)\<lparr>world := w'\<rparr>\<rparr>"
  have fine: "log_fine ''Sending control message failed. Error %s'' [AStr x]" for x
    by (simp add: log_fine_def)
  obtain out where lg: "sh_log e LOG_WARN ''Sending control message failed. Error %s''
       [AStr (chan_error e (sh_io ?sh))] ?sh = Inr (?sh\<lparr>sh_io := (sh_io ?sh)\<lparr>stdout := out\<rparr>\<rparr>)"
    using sh_log_total fine by blast
  have snd: "out_send e c m ?b ?n (sh\<lparr>sh_io := (sh_io sh)\<lparr>world := w\<rparr>\<rparr>) =
      Inr (O_Loop c m, if rc <s 0 then ?sh\<lparr>sh_io := (sh_io ?sh)\<lparr>stdout := out\<rparr>\<rparr> else ?sh)"
    using assms(2,5) n lg by (simp add: out_send_def chan_send_def chan_sock_def on_world_def)
  show ?thesis
    using out_recv_message [OF assms(1,3,4), of c] snd
    by (auto simp: out_step_def)
qed

text \<open>
  C32. A message of more than 1024 bytes (up to 2 ^ 32 - 1, so also one whose size does not fit
  the \<open>int\<close> that holds it) makes the thread write past the end of its receive buffer.
\<close>
theorem long_response_overflows_buffer:
  assumes "sock m = Sock s" "zmq_recv e s (world (sh_io sh)) = Some (0, d, w)"
    and "OUT_BUFFER_SIZE < length d" "length d < 4294967296"
  shows "out_recv e c m sh = Inl OutOfBounds"
proof -
  have "OUT_BUFFER_SIZE < size_t_of_int (word_of_nat (length d) :: c_int)"
  proof (cases "length d < 2147483648")
    case True
    with assms(3) show ?thesis by simp
  next
    case False
    with assms(4) have "sint (word_of_nat (length d) :: c_int) < 0"
      by (simp add: sint_word_of_nat_big)
    from size_t_of_int_neg [OF this] show ?thesis by (simp add: OUT_BUFFER_SIZE_def)
  qed
  with assms(1,2) show ?thesis
    by (simp add: out_recv_def chan_recv_def chan_sock_def cchan_in_mem_copy_def)
qed

text \<open>
  The thread ends after the head of its loop exactly when SHUTDOWN is the command it has read;
  on every other command it goes on to wait for a message.
\<close>
lemma out_stops_on_shutdown:
  assumes "cell_ready sh" "copy_ok (out_version l) (out_data l) sh"
    and "sock m = Sock s" "sock c = Sock z"
  shows "\<exists>l' p sh'. out_step e conf (O_Loop c m) l sh = Inr (O_Test c m, l', sh) \<and>
     out_version l' = g_version (conc sh) \<and> copy_ok (out_version l') (out_data l') sh \<and>
     out_step e conf (O_Test c m) l' sh = Inr (p, l', sh') \<and>
     p = (if w_cmd (g_data sh) = WINEING_CTRL_CMD_SHUTDOWN then O_End else O_Recv c m) \<and>
     conc sh' = conc sh \<and> g_data sh' = g_data sh"
proof -
  obtain t where t: "read_g_data (out_version l) (out_data l) sh = Inr (g_version (conc sh), t, sh)"
      "wf_ctrl t" "ctrl_view t = ctrl_view (g_data sh)"
    using read_g_data_ok [OF assms(1,2)] by blast
  from t(3) have cmd: "w_cmd t = w_cmd (g_data sh)" by (rule ctrl_view_eqD)
  with t assms(3,4) show ?thesis
    by (simp add: out_step_def out_read_def out_test_def chan_destroy_def chan_sock_def sh_log_plain copy_ok_def)
qed

end
