(* ===== verification/Market.thy ===== *)
theory Market
  imports Shared
begin

text \<open>
  Model of \<open>market_thread\<close> in \<^verbatim>\<open>src/main/c/impl/all/core/wineing.cc\<close>: the thread that reads the
  published command and runs NxCore.

  The thread's statics are \<open>mk_version\<close> and \<open>mk_data\<close>; the statics of \<^verbatim>\<open>nxtape.cc\<close>, which only
  this thread uses, are with them. The program points are the start, the loop that connects to
  the inproc channel, the head of the inner loop (the outer loop only leads back to it), the
  call of NxCore with the buffer it was given, and the end. A turn of the loop is two steps:
  reading the published command, and acting on it. Inside the call NxCore invokes the callback
  as often as it likes, in the same two steps, and finally returns.
\<close>

record mk_local =
  mk_version :: c_int
  mk_data :: w_ctrl
  mk_nx :: nxtape

definition mk_static :: "string \<Rightarrow> string \<Rightarrow> mk_local" where
  "mk_static buf cb_buf = \<lparr>mk_version = DEFAULTS_SHARED_VERSION_READ_INIT, mk_data = ctrl_init buf,
     mk_nx = nxtape_static cb_buf\<rparr>"

datatype m_pc =
    M_Start
  | M_Connect chan chan        \<comment> \<open>\<open>mchan\<close> bound, connecting \<open>cchan_out_inmem\<close>\<close>
  | M_Loop chan chan           \<comment> \<open>about to read the published command\<close>
  | M_Test chan chan           \<comment> \<open>about to act on the command it has read\<close>
  | M_Nx chan chan string      \<comment> \<open>in \<open>processTapeFn\<close>, called with this buffer\<close>
  | M_Callback chan chan string NxMessageType   \<comment> \<open>and in the callback, the command read\<close>
  | M_End

definition market_start :: "'w env \<Rightarrow> w_conf \<Rightarrow> 'w shared \<Rightarrow> (m_pc \<times> 'w shared) res" where
  "market_start e conf sh =
     res_bind (sh_log_lazy e LOG_INFO ''Initializing market data thread (%s)'' (str_args (mchan_fqcn conf) []) sh) (\<lambda>sh.
     res_bind (chan_bind e (chan_init (mchan_fqcn conf) CHAN_TYPE_PUB) (sh_io sh)) (\<lambda>(rc, c, i).
     let sh = sh\<lparr>sh_io := i\<rparr> in
     if rc <s 0 then
       res_bind (sh_log_lazy e LOG_ERROR ''Failed binding mchan (%s). Error [%s]''
                   (str_args (mchan_fqcn conf) [chan_error e i]) sh) (\<lambda>sh. Inr (M_End, sh))
     else Inr (M_Connect c (chan_init (CStr DEFAULTS_ICHAN_NAME) CHAN_TYPE_PUSH_CONNECT), sh)))"

definition market_connect :: "'w env \<Rightarrow> chan \<Rightarrow> chan \<Rightarrow> mk_local \<Rightarrow> 'w shared \<Rightarrow>
    (m_pc \<times> mk_local \<times> 'w shared) res" where
  "market_connect e c o' l sh =
     res_bind (chan_bind e o' (sh_io sh)) (\<lambda>(rc, o', i).
     let sh = sh\<lparr>sh_io := i\<rparr> in
     if rc <s 0 then Inr (M_Connect c o', l, sh)
     else Inr (M_Loop c o', l\<lparr>mk_nx := nxtape_init o' c (mk_nx l)\<rparr>, sh))"

text \<open>
  The debug message before NxCore is run; the tape name is read only if it is printed.
\<close>

definition log_running :: "'w env \<Rightarrow> w_ctrl \<Rightarrow> 'w shared \<Rightarrow> 'w shared res" where
  "log_running e t_data sh =
     sh_log_lazy e LOG_DEBUG ''Running nxcore [tape: %s]''
       (res_bind (if w_size t_data = 0 then Inr ''real-time'' else read_cstr (w_data t_data))
         (\<lambda>tape. Inr [AStr tape])) sh"

lemma log_running_total:
  assumes "w_size t \<noteq> 0 \<longrightarrow> read_cstr (w_data t) = Inr tape"
  shows "\<exists>out. log_running e t sh = Inr (sh\<lparr>sh_io := (sh_io sh)\<lparr>stdout := out\<rparr>\<rparr>)"
  unfolding log_running_def using assms by (intro sh_log_lazy_total) (simp add: log_fine_def)

text \<open>
  One turn of the inner loop: reading the published command, and acting on it. \<open>nanosleep\<close> has
  no effect on the state.
\<close>

definition market_read :: "mk_local \<Rightarrow> 'w shared \<Rightarrow> (mk_local \<times> 'w shared) res" where
  "market_read l sh =
     res_bind (read_g_data (mk_version l) (mk_data l) sh) (\<lambda>(t_version, t_data, sh).
     Inr (l\<lparr>mk_version := t_version, mk_data := t_data\<rparr>, sh))"

definition market_act :: "'w env \<Rightarrow> chan \<Rightarrow> chan \<Rightarrow> w_ctrl \<Rightarrow> 'w shared \<Rightarrow> (m_pc \<times> 'w shared) res" where
  "market_act e c o' t_data sh =
    (if w_cmd t_data = WINEING_CTRL_CMD_MARKET_STOP then
       res_bind (sh_log e LOG_INFO ''Stopping nxcore'' [] sh) (\<lambda>sh. Inr (M_Loop c o', sh))
     else if w_cmd t_data = WINEING_CTRL_CMD_SHUTDOWN then
       res_bind (sh_log e LOG_INFO ''Shutting down market data thread'' [] sh) (\<lambda>sh.
       res_bind (chan_destroy e c (sh_io sh)) (\<lambda>i.
       res_bind (chan_destroy e o' i) (\<lambda>i.
       Inr (M_End, sh\<lparr>sh_io := i\<rparr>))))
     else if w_cmd t_data = WINEING_CTRL_CMD_MARKET_RUN then
       res_bind (log_running e t_data sh) (\<lambda>sh.
       res_bind (wininf_nxcore_run e (g_hlib sh) (sh_io sh)) (\<lambda>(called, i).
       Inr (if called then M_Nx c o' (w_data t_data) else M_Loop c o', sh\<lparr>sh_io := i\<rparr>)))
     else Inr (M_Loop c o', sh))"

definition market_turn :: "'w env \<Rightarrow> chan \<Rightarrow> chan \<Rightarrow> mk_local \<Rightarrow> 'w shared \<Rightarrow>
    (m_pc \<times> mk_local \<times> 'w shared) res" where
  "market_turn e c o' l sh =
     res_bind (market_read l sh) (\<lambda>(l, sh).
     res_bind (market_act e c o' (mk_data l) sh) (\<lambda>(p, sh). Inr (p, l, sh)))"

definition market_step :: "'w env \<Rightarrow> w_conf \<Rightarrow> m_pc \<Rightarrow> mk_local \<Rightarrow> 'w shared \<Rightarrow>
    (m_pc \<times> mk_local \<times> 'w shared) res" where
  "market_step e conf p l sh = (case p of
       M_Start \<Rightarrow> res_bind (market_start e conf sh) (\<lambda>(p, sh). Inr (p, l, sh))
     | M_Connect c o' \<Rightarrow> market_connect e c o' l sh
     | M_Loop c o' \<Rightarrow> res_bind (market_read l sh) (\<lambda>(l, sh). Inr (M_Test c o', l, sh))
     | M_Test c o' \<Rightarrow> res_bind (market_act e c o' (mk_data l) sh) (\<lambda>(p, sh). Inr (p, l, sh))
     | M_Nx _ _ _ \<Rightarrow> Inl WouldBlock
     | M_Callback _ _ _ _ \<Rightarrow> Inl WouldBlock
     | M_End \<Rightarrow> Inl WouldBlock)"

text \<open>
  What NxCore does while it runs: it calls back, which first reads the published command, then
  handles the message and returns to NxCore; and it returns to the thread.
\<close>

definition callback_read :: "mk_local \<Rightarrow> 'w shared \<Rightarrow> (mk_local \<times> 'w shared) res" where
  "callback_read l sh =
     res_bind (nxtape_read (mk_nx l) (conc sh, g_data sh)) (\<lambda>(n, (s, g)).
     Inr (l\<lparr>mk_nx := n\<rparr>, sh\<lparr>conc := s, g_data := g\<rparr>))"

definition callback_handle :: "'w env \<Rightarrow> NxMessageType \<Rightarrow> mk_local \<Rightarrow> 'w shared \<Rightarrow>
    (NxCallbackReturn \<times> 'w shared) res" where
  "callback_handle e mt l sh =
     res_bind (nxtape_handle e mt (mk_nx l) (sh_io sh)) (\<lambda>(ret, i). Inr (ret, sh\<lparr>sh_io := i\<rparr>))"

lemma callback_read_eq:
  "callback_read l sh =
     res_bind (read_g_data (cb_version (mk_nx l)) (cb_data (mk_nx l)) sh) (\<lambda>(v, t, sh).
     Inr (l\<lparr>mk_nx := (mk_nx l)\<lparr>cb_version := v, cb_data := t\<rparr>\<rparr>, sh))"
  by (simp add: callback_read_def nxtape_read_def read_g_data_def res_bind_assoc split_def)

lemmas market_turn_defs = market_turn_def market_read_def market_act_def

subsection \<open>One turn of the loop\<close>

definition mk_ready :: "mk_local \<Rightarrow> 'w shared \<Rightarrow> bool" where
  "mk_ready l sh \<longleftrightarrow> cell_ready sh \<and> copy_ok (mk_version l) (mk_data l) sh"

text \<open>The command the loop acts on is always the published one.\<close>

lemma market_turn_reads:
  assumes "mk_ready l sh"
  shows "\<exists>t. read_g_data (mk_version l) (mk_data l) sh = Inr (g_version (conc sh), t, sh) \<and>
     wf_ctrl t \<and> ctrl_view t = ctrl_view (g_data sh) \<and> w_cmd t = w_cmd (g_data sh)"
  using read_g_data_ok [of sh "mk_version l" "mk_data l"] assms
  by (auto simp: mk_ready_def dest: ctrl_view_eqD)

lemma mk_ready_synced:
  "cell_ready sh \<Longrightarrow> wf_ctrl t \<Longrightarrow> ctrl_view t = ctrl_view (g_data sh) \<Longrightarrow>
   mk_ready (l\<lparr>mk_version := g_version (conc sh), mk_data := t\<rparr>) sh"
  by (simp add: mk_ready_def copy_ok_def)

lemma mk_ready_cong:
  "conc sh' = conc sh \<Longrightarrow> g_data sh' = g_data sh \<Longrightarrow> mk_ready l sh' = mk_ready l sh"
  by (simp add: mk_ready_def cell_ready_def copy_ok_def)

text \<open>A turn at a stop logs a line and does nothing else.\<close>

definition stopping_line :: "'w env \<Rightarrow> log_record list" where
  "stopping_line e = (if log_enabled (LOG_LEVEL e) LOG_INFO then [(LOG_INFO, ''Stopping nxcore'')] else [])"

lemma market_turn_stop:
  assumes "mk_ready l sh" "w_cmd (g_data sh) = WINEING_CTRL_CMD_MARKET_STOP"
  shows "\<exists>l'. market_turn e c o' l sh = Inr (M_Loop c o', l',
     sh\<lparr>sh_io := (sh_io sh)\<lparr>stdout := stdout (sh_io sh) @ stopping_line e\<rparr>\<rparr>) \<and>
     mk_ready l' (sh\<lparr>sh_io := (sh_io sh)\<lparr>stdout := stdout (sh_io sh) @ stopping_line e\<rparr>\<rparr>)"
proof -
  obtain t where t: "read_g_data (mk_version l) (mk_data l) sh = Inr (g_version (conc sh), t, sh)"
      "wf_ctrl t" "ctrl_view t = ctrl_view (g_data sh)" "w_cmd t = w_cmd (g_data sh)"
    using market_turn_reads [OF assms(1)] by blast
  moreover have "cell_ready sh" using assms(1) by (simp add: mk_ready_def)
  ultimately show ?thesis
    using assms(2) mk_ready_synced [of sh t l]
    by (auto simp: market_turn_defs sh_log_plain stopping_line_def mk_ready_def cell_ready_def copy_ok_def)
qed

text \<open>A turn is two steps of the thread.\<close>

lemma market_turn_steps:
  "market_turn e c o' l sh = Inr (p, l', sh') \<Longrightarrow>
   \<exists>l1 sh1. market_step e conf (M_Loop c o') l sh = Inr (M_Test c o', l1, sh1) \<and>
     market_step e conf (M_Test c o') l1 sh1 = Inr (p, l', sh')"
  by (auto simp: market_turn_def market_step_def res_simps)

fun market_steps :: "'w env \<Rightarrow> w_conf \<Rightarrow> nat \<Rightarrow> m_pc \<Rightarrow> mk_local \<Rightarrow> 'w shared \<Rightarrow>
    (m_pc \<times> mk_local \<times> 'w shared) res" where
  "market_steps e conf 0 p l sh = Inr (p, l, sh)"
| "market_steps e conf (Suc n) p l sh =
     res_bind (market_step e conf p l sh) (\<lambda>(p, l, sh). market_steps e conf n p l sh)"

text \<open>
  C36. A stopped market thread spins: as long as MARKET_STOP is the published command, every
  turn of its loop, without any sleep or wait, writes one more "Stopping nxcore" line to the
  log and comes back to the same point; after any number n of turns the log is n lines longer
  and nothing else has happened.
\<close>
theorem stopped_market_spins:
  assumes "mk_ready l sh" "w_cmd (g_data sh) = WINEING_CTRL_CMD_MARKET_STOP"
    and "log_enabled (LOG_LEVEL e) LOG_INFO"
  shows "\<exists>l'. market_steps e conf (2 * n) (M_Loop c o') l sh = Inr (M_Loop c o', l',
     sh\<lparr>sh_io := (sh_io sh)\<lparr>stdout := stdout (sh_io sh) @
       replicate n (LOG_INFO, ''Stopping nxcore'')\<rparr>\<rparr>)"
  using assms(1,2)
proof (induction n arbitrary: l sh)
  case 0
  then show ?case by (cases sh; cases "sh_io sh") simp
next
  case (Suc n)
  let ?sh = "sh\<lparr>sh_io := (sh_io sh)\<lparr>stdout := stdout (sh_io sh) @ stopping_line e\<rparr>\<rparr>"
  obtain l1 where "market_turn e c o' l sh = Inr (M_Loop c o', l1, ?sh)" "mk_ready l1 ?sh"
    using market_turn_stop [OF Suc.prems] by blast
  with Suc.IH [of l1 ?sh] Suc.prems(2) assms(3) market_turn_steps [of e c o' l sh "M_Loop c o'" l1 ?sh conf]
  show ?case by (auto simp: stopping_line_def)
qed

text \<open>
  Once SHUTDOWN is published the next turn of the loop ends the thread and closes both of its
  sockets, the market channel first.
\<close>
lemma shutdown_ends_market_thread:
  assumes "mk_ready l sh" "w_cmd (g_data sh) = WINEING_CTRL_CMD_SHUTDOWN"
    and "sock c = Sock s1" "sock o' = Sock s2"
  shows "\<exists>l' sh'. market_turn e c o' l sh = Inr (M_End, l', sh') \<and>
     world (sh_io sh') = zmq_close e s2 (zmq_close e s1 (world (sh_io sh))) \<and>
     conc sh' = conc sh \<and> g_data sh' = g_data sh"
proof -
  obtain t where "read_g_data (mk_version l) (mk_data l) sh = Inr (g_version (conc sh), t, sh)"
      "w_cmd t = w_cmd (g_data sh)"
    using market_turn_reads [OF assms(1)] by blast
  with assms(2-4) show ?thesis
    by (auto simp: market_turn_defs sh_log_plain chan_destroy_def chan_sock_def ctrl_cmds)
qed

text \<open>
  When a tape is published, NxCore is called with a buffer that reads as exactly the
  published tape name, provided the entry point is found.
\<close>
lemma market_runs_published_tape:
  assumes "mk_ready l sh" "ctrl_view (g_data sh) = (WINEING_CTRL_CMD_MARKET_RUN, c_str tape)"
    and "NUL \<notin> set tape" "GetProcAddress e (g_hlib sh) ''sNxCoreProcessTape'' (world (sh_io sh)) \<noteq> None"
  shows "\<exists>l' sh' buf. market_turn e c o' l sh = Inr (M_Nx c o' buf, l', sh') \<and>
     read_cstr buf = Inr tape \<and> mk_ready l' sh' \<and> world (sh_io sh') = world (sh_io sh)"
proof -
  obtain t where t: "read_g_data (mk_version l) (mk_data l) sh = Inr (g_version (conc sh), t, sh)"
      "wf_ctrl t" "ctrl_view t = ctrl_view (g_data sh)"
    using market_turn_reads [OF assms(1)] by blast
  from t(3) assms(2) have v: "w_cmd t = WINEING_CTRL_CMD_MARKET_RUN" "take (w_size t) (w_data t) = c_str tape"
    by (simp_all add: ctrl_view_def)
  then have sz: "w_size t \<noteq> 0" by (cases "w_size t") (auto simp: c_str_def)
  have "w_data t = c_str tape @ drop (w_size t) (w_data t)"
    using v(2) by (metis append_take_drop_id)
  then have rd: "read_cstr (w_data t) = Inr tape"
    using read_cstr_append [OF assms(3), of "drop (w_size t) (w_data t)"] by simp
  have cr: "cell_ready sh" using assms(1) by (simp add: mk_ready_def)
  obtain out where lg: "log_running e t sh = Inr (sh\<lparr>sh_io := (sh_io sh)\<lparr>stdout := out\<rparr>\<rparr>)"
    using log_running_total [of t tape e sh] rd by blast
  have "cell_ready (sh\<lparr>sh_io := i\<rparr>)" for i using cr by (simp add: cell_ready_def)
  with t v rd lg assms(4) show ?thesis
    by (auto simp: market_turn_defs wininf_nxcore_run_def ctrl_cmds mk_ready_def copy_ok_def)
qed

text \<open>
  C26. A real-time start does not reset the tape: when MARKET_RUN is published with size 0, NxCore
  is called with the thread's old buffer as it is, so with the name of an earlier tape if the
  buffer holds one, although the log says real-time.
\<close>
theorem realtime_start_passes_old_tape:
  assumes "cell_ready sh" "wf_ctrl (mk_data l)" "mk_version l \<noteq> g_version (conc sh)"
    and "w_cmd (g_data sh) = WINEING_CTRL_CMD_MARKET_RUN" "w_size (g_data sh) = 0"
    and "w_data (mk_data l) = c_str old @ rest" "NUL \<notin> set old"
    and "GetProcAddress e (g_hlib sh) ''sNxCoreProcessTape'' (world (sh_io sh)) \<noteq> None"
    and "log_enabled (LOG_LEVEL e) LOG_DEBUG"
  shows "\<exists>l' sh' buf. market_turn e c o' l sh = Inr (M_Nx c o' buf, l', sh') \<and>
     read_cstr buf = Inr old \<and>
     stdout (sh_io sh') = stdout (sh_io sh) @ [(LOG_DEBUG, ''Running nxcore [tape: real-time]'')]"
  using assms
  by (simp add: market_turn_defs read_g_data_changed log_running_def sh_log_lazy_def wininf_nxcore_run_def
      sh_log_def log_def log_emit_def ctrl_cmds read_cstr_append)

end
