(* ===== verification/Wineing_Runs.thy ===== *)
theory Wineing_Runs
  imports Demo_World Ctrl_In_Spec Ctrl_Out Market
begin

text \<open>
  The properties of the channels, the NxCore glue and the three threads, applied to the
  concrete environment of \<open>Demo_World\<close>.
\<close>

subsection \<open>Channels and files\<close>

theorem chan_bind_valid_type_witness:
  "\<exists>w. chan_bind demo_env (chan_init (CStr ''md'') CHAN_TYPE_PUB) \<lparr>world = demo_world0, stdout = []\<rparr> =
     Inr (0, (chan_init (CStr ''md'') CHAN_TYPE_PUB)\<lparr>sock := Sock (Some 1)\<rparr>, w)"
  using chan_bind_valid_type [of "chan_init (CStr ''md'') CHAN_TYPE_PUB" "''md''" demo_env
      "\<lparr>world = demo_world0, stdout = []\<rparr>" 1 "demo_world0\<lparr>dw_next := 2, dw_open := [1]\<rparr>"]
  by (auto simp: chan_init_def chan_types demo_env_simps demo_world0_def)

lemma chan_bind_invalid_type_example:
  "\<exists>out. chan_bind demo_env (chan_init (CStr ''md'') 9) \<lparr>world = demo_world0, stdout = []\<rparr> =
     Inr (0, (chan_init (CStr ''md'') 9)\<lparr>sock := Sock (Some 1)\<rparr>,
       \<lparr>world = demo_world0\<lparr>dw_next := 2, dw_open := [1]\<rparr>, stdout = out\<rparr>)"
  using chan_bind_invalid_type [of "chan_init (CStr ''md'') 9" demo_env
      "\<lparr>world = demo_world0, stdout = []\<rparr>" 1 "demo_world0\<lparr>dw_next := 2, dw_open := [1]\<rparr>"]
  by (simp add: chan_init_def demo_env_simps demo_world0_def)

lemma file_exists_spec_example:
  "wininf_file_exists demo_env ''C:tape'' \<lparr>world = demo_world0, stdout = []\<rparr> = 0 \<and>
   wininf_file_exists demo_env ''C:none'' \<lparr>world = demo_world0, stdout = []\<rparr> = - 1"
  using file_exists_spec [OF demo_win_constants, of "''C:tape''" "\<lparr>world = demo_world0, stdout = []\<rparr>"]
    file_exists_spec [OF demo_win_constants, of "''C:none''" "\<lparr>world = demo_world0, stdout = []\<rparr>"]
  by (simp add: demo_env_def)

subsection \<open>The callback\<close>

definition demo_chan :: "string \<Rightarrow> nat \<Rightarrow> c_int \<Rightarrow> chan" where
  "demo_chan name n ty = \<lparr>fqcn = CStr name, sock = Sock (Some n), chan_type = ty\<rparr>"

definition demo_nx :: nxtape where
  "demo_nx = nxtape_init (demo_chan DEFAULTS_ICHAN_NAME 2 CHAN_TYPE_PUSH_CONNECT)
     (demo_chan ''md'' 1 CHAN_TYPE_PUB) (nxtape_static nul_buffer)"

lemma demo_nx_ok: "nxtape_ok demo_nx"
  by (simp add: nxtape_ok_def demo_nx_def nxtape_init_def nxtape_static_def wf_ctrl_init demo_chan_def)

theorem nxtape_process_follows_command_witness:
  "\<exists>n' io'. nxtape_process demo_env NxMSG_STATUS demo_nx
     (\<lparr>g_version = 3, g_lock = MFree\<rparr>, tape_ctrl WINEING_CTRL_CMD_MARKET_STOP [])
     \<lparr>world = demo_world0, stdout = []\<rparr> = Inr (NxCALLBACKRETURN_STOP, n',
       (\<lparr>g_version = 3, g_lock = MFree\<rparr>, tape_ctrl WINEING_CTRL_CMD_MARKET_STOP []), io')"
proof -
  have "wctrl.cell_ok (\<lparr>g_version = 3, g_lock = MFree\<rparr>, tape_ctrl WINEING_CTRL_CMD_MARKET_STOP [])"
    by (simp add: wctrl_cell_ok tape_ctrl_wf)
  moreover have "cb_version demo_nx \<noteq> 3"
    by (simp add: demo_nx_def nxtape_init_def nxtape_static_def shared_versions)
  moreover have "stops (w_cmd (tape_ctrl WINEING_CTRL_CMD_MARKET_STOP []))"
    by (simp add: tape_ctrl_def)
  ultimately show ?thesis
    using nxtape_process_follows_command [of "\<lparr>g_version = 3, g_lock = MFree\<rparr>"
        "tape_ctrl WINEING_CTRL_CMD_MARKET_STOP []" demo_nx demo_env NxMSG_STATUS
        "\<lparr>world = demo_world0, stdout = []\<rparr>"] demo_nx_ok
    by auto
qed

subsection \<open>The request handler\<close>

definition demo_in :: "c_int \<Rightarrow> in_local" where
  "demo_in c = \<lparr>in_version = 0, in_data = tape_ctrl c []\<rparr>"

definition demo_start :: "string \<Rightarrow> Request" where
  "demo_start f = \<lparr>requestId = 7, req_type = MARKET_START, tape_file = Some f\<rparr>"

definition demo_rest :: "demo_world shared" where
  "demo_rest = demo_shared 0 (tape_ctrl WINEING_CTRL_CMD_INIT []) demo_world0"

lemma demo_in_inv: "in_inv (demo_in c) demo_rest"
  by (simp add: in_inv_def demo_in_def demo_rest_def demo_shared_ready tape_ctrl_wf)

lemma demo_idle: "w_cmd (in_data (demo_in WINEING_CTRL_CMD_INIT)) \<noteq> WINEING_CTRL_CMD_MARKET_RUN"
  by (simp add: demo_in_def tape_ctrl_def ctrl_cmds)

lemma demo_tape_found:
  "tape_found demo_env demo_rest t \<longleftrightarrow> as_cstr t = ''C:tape''"
  by (simp add: tape_found_def demo_rest_def file_exists_iff [OF demo_win_constants])
    (simp add: demo_env_def)

theorem cchan_in_handle_refines_machine_witness:
  "\<exists>out. cchan_in_handle demo_env demo_conf (demo_start ''tape'') (demo_in WINEING_CTRL_CMD_INIT) demo_rest
       = Inr out \<and>
     handled (demo_start ''tape'') (demo_in WINEING_CTRL_CMD_INIT) demo_rest
       (MARKET_START_OK, True, WINEING_CTRL_CMD_MARKET_RUN, c_str ''C:tape'') out"
proof -
  have "as_cstr ''C:tape'' = ''C:tape''" by (simp add: as_cstr_def NUL_def)
  then have f: "tape_found demo_env demo_rest ''C:tape''" by (simp add: demo_tape_found)
  have "safe_request demo_env ''C:'' (demo_start ''tape'') (demo_in WINEING_CTRL_CMD_INIT) demo_rest"
    using f by (simp add: safe_request_def safe_start_def demo_start_def
        WINEING_CTRL_DEFAULT_DATA_SIZE_def)
  moreover have "g_version (conc demo_rest) \<noteq> INT_MAX" "tape_basedir demo_conf = CStr ''C:''"
    by (simp_all add: demo_rest_def INT_MAX_def demo_conf_def)
  ultimately show ?thesis
    using cchan_in_handle_refines_machine [OF demo_in_inv [of WINEING_CTRL_CMD_INIT], of demo_conf "''C:''"
        demo_env "demo_start ''tape''"] f
    by (simp add: demo_start_def demo_in_def tape_ctrl_view ctrl_cmds)
qed

text \<open>An environment where every file exists, for the long path.\<close>

definition demo_env_all_files :: "demo_world env" where
  "demo_env_all_files = demo_env\<lparr>GetFileAttributes := (\<lambda>_ _. 0x20)\<rparr>"

theorem long_tape_overflows_buffer_witness:
  "cchan_in_handle demo_env_all_files demo_conf (demo_start (replicate 1022 (CHR ''a'')))
     (demo_in WINEING_CTRL_CMD_INIT) demo_rest = Inl OutOfBounds"
proof -
  have "tape_found demo_env_all_files demo_rest t" for t
    by (simp add: tape_found_def demo_env_all_files_def demo_env_def wininf_file_exists_def)
  then show ?thesis
    using long_tape_overflows_buffer [OF demo_in_inv _ _ demo_idle, of demo_conf "''C:''"
        "demo_start (replicate 1022 (CHR ''a''))" "replicate 1022 (CHR ''a'')" demo_env_all_files]
    by (simp add: demo_conf_def demo_start_def WINEING_CTRL_DEFAULT_DATA_SIZE_def)
qed

theorem missing_tape_is_a_format_string_witness:
  "cchan_in_handle demo_env demo_conf (demo_start ''%n'') (demo_in WINEING_CTRL_CMD_INIT) demo_rest
     = Inl BadFormat"
proof -
  have "\<not> tape_found demo_env demo_rest ''C:%n''"
    by (simp add: demo_tape_found as_cstr_def NUL_def)
  moreover have "\<not> percent_doubled (as_cstr (not_found_text ''C:%n''))"
    by (simp add: not_found_text_def as_cstr_def NUL_def percent_doubled.simps(2))
  moreover have "log_enabled (LOG_LEVEL demo_env) LOG_DEBUG"
    by (simp add: demo_env_def log_enabled_iff log_levels)
  ultimately show ?thesis
    using missing_tape_is_a_format_string [OF _ _ demo_idle, of demo_conf "''C:''"
        "demo_start ''%n''" "''%n''" demo_env demo_rest]
    by (simp add: demo_conf_def demo_start_def)
qed

subsection \<open>The market thread\<close>

definition demo_mk :: "w_ctrl \<Rightarrow> mk_local" where
  "demo_mk t = \<lparr>mk_version = 1, mk_data = t, mk_nx = demo_nx\<rparr>"

definition demo_published :: "c_int \<Rightarrow> string \<Rightarrow> demo_world shared" where
  "demo_published c tape = demo_shared 2 (tape_ctrl c tape) demo_world0"

lemma demo_mk_ready:
  "wf_ctrl t \<Longrightarrow> length tape \<le> WINEING_CTRL_DEFAULT_DATA_SIZE \<Longrightarrow>
   mk_ready (demo_mk t) (demo_published c tape)"
  by (simp add: mk_ready_def demo_published_def demo_cell_ready tape_ctrl_wf copy_ok_def demo_mk_def)

lemma demo_published_simps [simp]:
  "g_data (demo_published c tape) = tape_ctrl c tape"
  "conc (demo_published c tape) = \<lparr>g_version = 2, g_lock = MFree\<rparr>"
  "g_hlib (demo_published c tape) = Some 1"
  "sh_io (demo_published c tape) = \<lparr>world = demo_world0, stdout = []\<rparr>"
  by (simp_all add: demo_published_def)

lemma tape_ctrl_fields [simp]:
  "w_cmd (tape_ctrl c tape) = c" "w_size (tape_ctrl c tape) = length tape"
  by (simp_all add: tape_ctrl_def)

lemma demo_log_levels:
  "log_enabled (LOG_LEVEL demo_env) LOG_DEBUG" "log_enabled (LOG_LEVEL demo_env) LOG_INFO"
  by (simp_all add: demo_env_def log_enabled_iff log_levels)

lemma demo_entry_point: "GetProcAddress demo_env h f w \<noteq> None"
  by (simp add: demo_env_def)

abbreviation demo_md :: chan where "demo_md \<equiv> demo_chan ''md'' 1 CHAN_TYPE_PUB"
abbreviation demo_push :: chan where
  "demo_push \<equiv> demo_chan DEFAULTS_ICHAN_NAME 2 CHAN_TYPE_PUSH_CONNECT"

lemma demo_chan_sock [simp]: "sock (demo_chan name n ty) = Sock (Some n)"
  by (simp add: demo_chan_def)

theorem stopped_market_spins_witness:
  "\<exists>l' sh'. market_steps demo_env demo_conf 200 (M_Loop demo_md demo_push)
     (demo_mk (tape_ctrl WINEING_CTRL_CMD_INIT [])) (demo_published WINEING_CTRL_CMD_MARKET_STOP [])
       = Inr (M_Loop demo_md demo_push, l', sh') \<and>
     stdout (sh_io sh') = replicate 100 (LOG_INFO, ''Stopping nxcore'')"
  using stopped_market_spins [OF demo_mk_ready _ demo_log_levels(2), of "tape_ctrl WINEING_CTRL_CMD_INIT []"
      "[]" WINEING_CTRL_CMD_MARKET_STOP demo_conf 100 demo_md demo_push]
  by (auto simp: tape_ctrl_wf)

lemma shutdown_ends_market_thread_witness:
  "\<exists>l' sh'. market_turn demo_env demo_md demo_push (demo_mk (tape_ctrl WINEING_CTRL_CMD_INIT []))
     (demo_published WINEING_CTRL_CMD_SHUTDOWN []) = Inr (M_End, l', sh')"
  using shutdown_ends_market_thread [OF demo_mk_ready, of "tape_ctrl WINEING_CTRL_CMD_INIT []" "[]"
      WINEING_CTRL_CMD_SHUTDOWN demo_md "Some 1" demo_push "Some 2" demo_env]
  by (auto simp: tape_ctrl_wf)

lemma NUL_not_in_tape: "NUL \<notin> set ''C:tape''"
  by (simp add: NUL_def)

lemma market_runs_published_tape_example:
  "\<exists>l' sh' buf. market_turn demo_env demo_md demo_push (demo_mk (tape_ctrl WINEING_CTRL_CMD_INIT []))
     (demo_published WINEING_CTRL_CMD_MARKET_RUN (c_str ''C:tape'')) =
       Inr (M_Nx demo_md demo_push buf, l', sh') \<and> read_cstr buf = Inr ''C:tape''"
  using market_runs_published_tape [OF demo_mk_ready _ NUL_not_in_tape demo_entry_point,
      of "tape_ctrl WINEING_CTRL_CMD_INIT []" "c_str ''C:tape''" WINEING_CTRL_CMD_MARKET_RUN demo_md demo_push]
  by (auto simp: tape_ctrl_wf tape_ctrl_view WINEING_CTRL_DEFAULT_DATA_SIZE_def)

theorem realtime_start_passes_old_tape_witness:
  "\<exists>l' sh' buf. market_turn demo_env demo_md demo_push
     (demo_mk (tape_ctrl WINEING_CTRL_CMD_MARKET_STOP (c_str ''C:tape'')))
     (demo_published WINEING_CTRL_CMD_MARKET_RUN []) = Inr (M_Nx demo_md demo_push buf, l', sh') \<and>
     read_cstr buf = Inr ''C:tape''"
proof -
  let ?l = "demo_mk (tape_ctrl WINEING_CTRL_CMD_MARKET_STOP (c_str ''C:tape''))"
  have "wf_ctrl (mk_data ?l)"
    by (simp add: demo_mk_def tape_ctrl_wf WINEING_CTRL_DEFAULT_DATA_SIZE_def)
  moreover have "w_data (mk_data ?l) = c_str ''C:tape'' @ drop 7 nul_buffer" "mk_version ?l \<noteq> 2"
    by (simp_all add: demo_mk_def tape_ctrl_def numeral_eq_Suc)
  ultimately show ?thesis
    using realtime_start_passes_old_tape [of "demo_published WINEING_CTRL_CMD_MARKET_RUN []" ?l
        "''C:tape''" "drop 7 nul_buffer" demo_env demo_md demo_push] NUL_not_in_tape demo_log_levels(1)
      demo_entry_point
    by (auto simp: demo_published_def demo_cell_ready tape_ctrl_wf)
qed

subsection \<open>The response thread\<close>

abbreviation demo_out :: chan where "demo_out \<equiv> demo_chan ''out'' 3 CHAN_TYPE_PUB"
abbreviation demo_pull :: chan where
  "demo_pull \<equiv> demo_chan DEFAULTS_ICHAN_NAME 4 CHAN_TYPE_PULL_BIND"

definition demo_queued :: "string \<Rightarrow> demo_world shared" where
  "demo_queued d = demo_shared 2 (tape_ctrl WINEING_CTRL_CMD_INIT [])
     (demo_put DEFAULTS_ICHAN_NAME [d] (demo_world0\<lparr>dw_next := 5, dw_endpoint :=
       (\<lambda>_. None)(3 := Some ''out'', 4 := Some DEFAULTS_ICHAN_NAME)\<rparr>))"

definition demo_outl :: out_local where
  "demo_outl = out_static nul_buffer"

lemma demo_recv_queued:
  "zmq_recv demo_env (Some 4) (world (sh_io (demo_queued d))) =
     Some (0, d, demo_put DEFAULTS_ICHAN_NAME [] (world (sh_io (demo_queued d))))"
  by (simp add: demo_env_simps demo_queued_def)

lemma out_forwards_unchanged_example:
  "\<exists>p sh1 sh2. out_step demo_env demo_conf (O_Recv demo_out demo_pull) demo_outl (demo_queued ''+ok'') =
       Inr (p, demo_outl, sh1) \<and>
     out_step demo_env demo_conf p demo_outl sh1 = Inr (O_Loop demo_out demo_pull, demo_outl, sh2) \<and>
     dw_queue (world (sh_io sh2)) ''out'' = [''+ok'']"
proof -
  let ?w = "demo_put DEFAULTS_ICHAN_NAME [] (world (sh_io (demo_queued ''+ok'')))"
  have "zmq_send demo_env (Some 3) ''+ok'' True ?w = (0, demo_put ''out'' [''+ok''] ?w)"
    by (simp add: demo_env_simps demo_queued_def demo_world0_def)
  then show ?thesis
    using out_forwards_unchanged [of demo_pull "Some 4" demo_out "Some 3" demo_env
        "demo_queued ''+ok''" "''+ok''" ?w 0 "demo_put ''out'' [''+ok''] ?w" demo_conf demo_outl]
      demo_recv_queued [of "''+ok''"]
    by (auto simp: OUT_BUFFER_SIZE_def demo_put_def)
qed

theorem long_response_overflows_buffer_witness:
  "out_recv demo_env demo_out demo_pull (demo_queued (replicate 1025 (CHR ''?''))) = Inl OutOfBounds"
  using long_response_overflows_buffer [of demo_pull "Some 4" demo_env
      "demo_queued (replicate 1025 (CHR ''?''))" "replicate 1025 (CHR ''?'')" _ demo_out]
    demo_recv_queued [of "replicate 1025 (CHR ''?'')"]
  by (simp add: OUT_BUFFER_SIZE_def)

lemma out_stops_on_shutdown_witness:
  "\<exists>l' sh'. out_step demo_env demo_conf (O_Test demo_out demo_pull) l'
     (demo_published WINEING_CTRL_CMD_SHUTDOWN []) = Inr (O_End, l', sh')"
proof -
  have "cell_ready (demo_published WINEING_CTRL_CMD_SHUTDOWN [])"
    by (simp add: demo_published_def demo_cell_ready tape_ctrl_wf)
  moreover have "copy_ok (out_version demo_outl) (out_data demo_outl)
      (demo_published WINEING_CTRL_CMD_SHUTDOWN [])"
    by (simp add: copy_ok_def demo_outl_def out_static_def wf_ctrl_init shared_versions)
  ultimately show ?thesis
    using out_stops_on_shutdown [of "demo_published WINEING_CTRL_CMD_SHUTDOWN []" demo_outl
        demo_pull "Some 4" demo_out "Some 3" demo_env demo_conf] by auto
qed

end
