(* ===== verification/Wineing_System.thy ===== *)
theory Wineing_System
  imports Ctrl_In_Spec Ctrl_Out Market
begin

text \<open>
  The three threads that \<open>wineing_run\<close> starts, as one transition system: every step of a
  thread is the step function of its theory, NxCore may call back or return while the market
  thread is inside it, and the outside world moves by a relation \<open>R\<close> of its own.

  A thread's step is one access to the shared cell and nothing else, or it does not touch the
  cell. An access is one step here; \<open>Fine_System\<close> runs the accesses statement by statement and
  shows that this makes no difference.
\<close>

subsection \<open>States and steps\<close>

record 'w sys =
  in_at :: in_pc
  in_vars :: in_local
  out_at :: o_pc
  out_vars :: out_local
  mk_at :: m_pc
  mk_vars :: mk_local
  sys_sh :: "'w shared"

text \<open>The state in which \<open>wineing_run\<close> has created its threads.\<close>

definition sys_start :: "in_local \<Rightarrow> out_local \<Rightarrow> mk_local \<Rightarrow> 'w shared \<Rightarrow> 'w sys" where
  "sys_start li lo lm sh = \<lparr>in_at = In_Start, in_vars = li, out_at = O_Start, out_vars = lo,
     mk_at = M_Start, mk_vars = lm, sys_sh = sh\<rparr>"

datatype action =
    Act_In | Act_Out | Act_Market
  | Act_Callback NxMessageType
  | Act_Answer NxCallbackReturn
  | Act_Return
  | Act_World

definition in_nx :: "m_pc \<Rightarrow> bool" where
  "in_nx p \<longleftrightarrow> (case p of M_Nx _ _ _ \<Rightarrow> True | M_Callback _ _ _ _ \<Rightarrow> True | _ \<Rightarrow> False)"

inductive sys_step :: "'w env \<Rightarrow> w_conf \<Rightarrow> ('w \<Rightarrow> 'w \<Rightarrow> bool) \<Rightarrow> 'w sys \<Rightarrow> action \<Rightarrow> 'w sys \<Rightarrow> bool"
  for e conf R where
  step_in: "in_step e conf (in_at s) (in_vars s) (sys_sh s) = Inr (p, l, sh) \<Longrightarrow>
    sys_step e conf R s Act_In (s\<lparr>in_at := p, in_vars := l, sys_sh := sh\<rparr>)"
| step_out: "out_step e conf (out_at s) (out_vars s) (sys_sh s) = Inr (p, l, sh) \<Longrightarrow>
    sys_step e conf R s Act_Out (s\<lparr>out_at := p, out_vars := l, sys_sh := sh\<rparr>)"
| step_market: "market_step e conf (mk_at s) (mk_vars s) (sys_sh s) = Inr (p, l, sh) \<Longrightarrow>
    sys_step e conf R s Act_Market (s\<lparr>mk_at := p, mk_vars := l, sys_sh := sh\<rparr>)"
| step_callback: "mk_at s = M_Nx c o' b \<Longrightarrow> callback_read (mk_vars s) (sys_sh s) = Inr (l, sh) \<Longrightarrow>
    sys_step e conf R s (Act_Callback mt) (s\<lparr>mk_at := M_Callback c o' b mt, mk_vars := l, sys_sh := sh\<rparr>)"
| step_answer: "mk_at s = M_Callback c o' b mt \<Longrightarrow>
    callback_handle e mt (mk_vars s) (sys_sh s) = Inr (ret, sh) \<Longrightarrow>
    sys_step e conf R s (Act_Answer ret) (s\<lparr>mk_at := M_Nx c o' b, sys_sh := sh\<rparr>)"
| step_return: "mk_at s = M_Nx c o' b \<Longrightarrow>
    sys_step e conf R s Act_Return (s\<lparr>mk_at := M_Loop c o'\<rparr>)"
| step_world: "R (world (sh_io (sys_sh s))) w \<Longrightarrow>
    sys_step e conf R s Act_World
      (s\<lparr>sys_sh := (sys_sh s)\<lparr>sh_io := (sh_io (sys_sh s))\<lparr>world := w\<rparr>\<rparr>\<rparr>)"

inductive_cases sys_step_InE: "sys_step e conf R s Act_In s'"
inductive_cases sys_step_OutE: "sys_step e conf R s Act_Out s'"
inductive_cases sys_step_MarketE: "sys_step e conf R s Act_Market s'"

text \<open>
  A run, with the responses the request thread hands to the inproc channel in its course.
\<close>

definition replied :: "action \<Rightarrow> 'w sys \<Rightarrow> Response list" where
  "replied a s = (case (a, in_at s) of (Act_In, In_Reply _ _ r) \<Rightarrow> [r] | _ \<Rightarrow> [])"

inductive sys_run :: "'w env \<Rightarrow> w_conf \<Rightarrow> ('w \<Rightarrow> 'w \<Rightarrow> bool) \<Rightarrow> 'w sys \<Rightarrow> Response list \<Rightarrow> 'w sys \<Rightarrow> bool"
  for e conf R where
  run_refl: "sys_run e conf R s [] s"
| run_step: "sys_run e conf R s rs s' \<Longrightarrow> sys_step e conf R s' a s'' \<Longrightarrow>
    sys_run e conf R s (rs @ replied a s') s''"

lemma sys_run_trans:
  "sys_run e conf R s1 rs2 s2 \<Longrightarrow> sys_run e conf R s0 rs1 s1 \<Longrightarrow> sys_run e conf R s0 (rs1 @ rs2) s2"
  by (induction rule: sys_run.induct) (auto simp flip: append_assoc intro: run_step)

text \<open>A set of states that every step keeps is kept by runs.\<close>

lemma sys_run_invariant:
  assumes "sys_run e conf R s rs s'" "P s"
    and "\<And>s a s'. P s \<Longrightarrow> sys_step e conf R s a s' \<Longrightarrow> P s'"
  shows "P s'"
  using assms by (induction rule: sys_run.induct) auto

end
