(* ===== verification/System_Invariant.thy ===== *)
theory System_Invariant
  imports Wineing_System
begin

text \<open>
  An invariant of all states the three threads can reach, and what follows from it: which
  steps can fault, and that SHUTDOWN is final.
\<close>

subsection \<open>How a step may change the shared cell\<close>

text \<open>Nothing, or a publication: the version goes up by one.\<close>

definition cell_adv :: "'w shared \<Rightarrow> 'w shared \<Rightarrow> bool" where
  "cell_adv sh sh' \<longleftrightarrow>
     conc sh' = conc sh \<and> g_data sh' = g_data sh \<or>
     g_version (conc sh) \<noteq> INT_MAX \<and> g_version (conc sh') = g_version (conc sh) + 1"

definition io_only :: "'w shared \<Rightarrow> 'w shared \<Rightarrow> bool" where
  "io_only sh sh' \<longleftrightarrow> (\<exists>i. sh' = sh\<lparr>sh_io := i\<rparr>)"

lemma io_only_refl [simp]: "io_only sh sh"
  unfolding io_only_def by (rule exI [of _ "sh_io sh"]) simp

lemma io_only_upd [simp]: "io_only sh (sh\<lparr>sh_io := i\<rparr>)"
  by (auto simp: io_only_def)

lemma io_only_upd_left [simp]: "io_only (sh\<lparr>sh_io := i\<rparr>) sh' = io_only sh sh'"
  by (simp add: io_only_def)

lemma io_only_trans: "io_only a b \<Longrightarrow> io_only b c \<Longrightarrow> io_only a c"
  by (auto simp: io_only_def)

lemma sh_log_io: "sh_log e lv m as sh = Inr sh' \<Longrightarrow> io_only sh sh'"
  by (auto simp: sh_log_def res_simps)

lemma sh_log_lazy_io: "sh_log_lazy e lv m as sh = Inr sh' \<Longrightarrow> io_only sh sh'"
  by (auto simp: sh_log_lazy_def res_simps split: if_splits dest: sh_log_io)

lemma io_onlyD:
  "io_only sh sh' \<Longrightarrow> conc sh' = conc sh \<and> g_data sh' = g_data sh \<and>
     g_market_sync_mutex sh' = g_market_sync_mutex sh \<and>
     g_market_sync_cond sh' = g_market_sync_cond sh \<and> g_hlib sh' = g_hlib sh"
  by (auto simp: io_only_def)

text \<open>The commands that are ever published.\<close>

definition known_cmd :: "c_int \<Rightarrow> bool" where
  "known_cmd c \<longleftrightarrow> c \<in> {WINEING_CTRL_CMD_INIT, WINEING_CTRL_CMD_MARKET_RUN,
     WINEING_CTRL_CMD_MARKET_STOP, WINEING_CTRL_CMD_SHUTDOWN}"

lemma known_cmds [simp]:
  "known_cmd WINEING_CTRL_CMD_INIT" "known_cmd WINEING_CTRL_CMD_MARKET_RUN"
  "known_cmd WINEING_CTRL_CMD_MARKET_STOP" "known_cmd WINEING_CTRL_CMD_SHUTDOWN"
  by (simp_all add: known_cmd_def)

text \<open>A published record is empty or holds a C string.\<close>

definition text_ok :: "w_ctrl \<Rightarrow> bool" where
  "text_ok t \<longleftrightarrow> (w_size t \<noteq> 0 \<longrightarrow> NUL \<in> set (take (w_size t) (w_data t)))"

lemma text_ok_cong:
  "wf_ctrl a \<Longrightarrow> wf_ctrl b \<Longrightarrow> ctrl_view a = ctrl_view b \<Longrightarrow> text_ok a = text_ok b"
  using ctrl_view_size [of a b] unfolding text_ok_def by metis

text \<open>
  A reader: its copy is good, its version is not ahead, its command is known and its text
  terminated. The cell it reads from is at rest and has such a content.
\<close>

definition reader_ok :: "c_int \<Rightarrow> w_ctrl \<Rightarrow> 'w shared \<Rightarrow> bool" where
  "reader_ok v t sh \<longleftrightarrow> copy_ok v t sh \<and> sint v \<le> sint (g_version (conc sh)) \<and>
     text_ok t \<and> known_cmd (w_cmd t)"

definition cell_good :: "'w shared \<Rightarrow> bool" where
  "cell_good sh \<longleftrightarrow> cell_ready sh \<and> text_ok (g_data sh) \<and> known_cmd (w_cmd (g_data sh))"

lemma reader_ok_adv:
  assumes "reader_ok v t sh" "cell_adv sh sh'"
  shows "reader_ok v t sh'"
proof (cases "conc sh' = conc sh \<and> g_data sh' = g_data sh")
  case True
  with assms(1) show ?thesis by (simp add: reader_ok_def copy_ok_def)
next
  case False
  with assms(2) have g: "g_version (conc sh) \<noteq> INT_MAX" "g_version (conc sh') = g_version (conc sh) + 1"
    by (auto simp: cell_adv_def)
  then have "sint (g_version (conc sh')) = sint (g_version (conc sh)) + 1"
    by (simp add: sint_Suc32)
  with assms(1) show ?thesis by (auto simp: reader_ok_def copy_ok_def)
qed

lemma reader_ok_read:
  assumes "cell_good sh" "reader_ok v t sh" "read_g_data v t sh = Inr (v', t', sh')"
  shows "sh' = sh \<and> v' = g_version (conc sh) \<and> ctrl_view t' = ctrl_view (g_data sh) \<and> reader_ok v' t' sh"
proof -
  have c: "cell_ready sh" "wf_ctrl (g_data sh)" using assms(1) by (simp_all add: cell_good_def cell_ready_def)
  obtain t2 where "read_g_data v t sh = Inr (g_version (conc sh), t2, sh)" "wf_ctrl t2"
      "ctrl_view t2 = ctrl_view (g_data sh)"
    using read_g_data_ok [OF c(1), of v t] assms(2) by (auto simp: reader_ok_def)
  with assms(3) have r: "sh' = sh" "v' = g_version (conc sh)" "wf_ctrl t'" "ctrl_view t' = ctrl_view (g_data sh)"
    by auto
  moreover from r c have "text_ok t' = text_ok (g_data sh)" by (intro text_ok_cong)
  moreover from r have "w_cmd t' = w_cmd (g_data sh)" by (intro ctrl_view_eqD)
  ultimately show ?thesis using assms(1) by (simp add: reader_ok_def copy_ok_def cell_good_def)
qed

subsection \<open>The owner of the cell\<close>

definition owner_ok :: "in_local \<Rightarrow> 'w shared \<Rightarrow> bool" where
  "owner_ok l sh \<longleftrightarrow> in_inv l sh \<and> text_ok (in_data l) \<and> text_ok (g_data sh)"

lemma owner_ok_io: "io_only sh sh' \<Longrightarrow> owner_ok l sh' = owner_ok l sh"
  by (auto simp: io_only_def owner_ok_def in_inv_io)

lemma owner_ok_upd [simp]: "owner_ok l (sh\<lparr>sh_io := i\<rparr>) = owner_ok l sh"
  by (simp add: owner_ok_def in_inv_io)

lemma publish_data_cmd: "publish_data l sh = publish_cmd (w_cmd (in_data l)) l sh"
  by (simp add: publish_cmd_unfold)

lemma publish_Inr:
  assumes "owner_ok l sh" "publish_data l sh = Inr (l', sh')"
  shows "owner_ok l' sh' \<and> cell_adv sh sh' \<and> w_cmd (g_data sh') = w_cmd (in_data l) \<and>
    in_data l' = in_data l \<and> ctrl_view (g_data sh') = ctrl_view (in_data l)"
proof -
  have inv: "in_inv l sh" "text_ok (in_data l)" using assms(1) by (simp_all add: owner_ok_def)
  have ne: "g_version (conc sh) \<noteq> INT_MAX"
    using publish_cmd_overflow [OF inv(1), of "w_cmd (in_data l)"] assms(2)
    by (auto simp: publish_data_cmd)
  from publish_cmd_ok [OF inv(1) ne, of "w_cmd (in_data l)"] assms(2) have p: "in_inv l' sh'"
      "in_data l' = in_data l" "ctrl_view (g_data sh') = ctrl_view (in_data l')"
      "g_version (conc sh') = g_version (conc sh) + 1"
    by (auto simp: publish_data_cmd)
  have "text_ok (g_data sh') = text_ok (in_data l')"
    using p(1,3) by (intro text_ok_cong) (auto simp: in_inv_def shared_ready_def cell_ready_def)
  moreover have "w_cmd (g_data sh') = w_cmd (in_data l)" using ctrl_view_eqD [OF p(3)] p(2) by simp
  ultimately show ?thesis using p inv(2) ne by (simp add: owner_ok_def cell_adv_def)
qed

lemma signal_Inr: "in_inv l sh \<Longrightarrow> signal_market sh = Inr sh' \<Longrightarrow> sh' = sh"
  by (simp add: signal_market_inv)

text \<open>The switch, when it returns: it may change the thread's record, not the shared one.\<close>

lemma in_inv_tape:
  assumes "in_inv l sh" "memcpy (w_data (in_data l)) (c_str tape) (length tape + 1) = Inr d"
  shows "in_inv (l\<lparr>in_data := (in_data l)\<lparr>w_size := length tape + 1, w_data := d\<rparr>\<rparr>) sh \<and>
    text_ok ((in_data l)\<lparr>w_size := length tape + 1, w_data := d\<rparr>)"
  using assms by (auto simp: in_inv_def wf_ctrl_def text_ok_def res_simps c_str_def)

lemma owner_ok_set_cmd: "owner_ok (set_cmd c l) sh = owner_ok l sh"
  by (simp add: owner_ok_def set_cmd_def in_inv_def wf_ctrl_def text_ok_def)

lemma owner_ok_size0: "owner_ok l sh \<Longrightarrow> owner_ok (l\<lparr>in_data := (in_data l)\<lparr>w_size := 0\<rparr>\<rparr>) sh"
  by (simp add: owner_ok_def in_inv_size0 text_ok_def)

definition switched :: "in_local \<Rightarrow> 'w shared \<Rightarrow> Response \<times> followup \<times> in_local \<times> 'w shared \<Rightarrow> bool" where
  "switched l sh out \<longleftrightarrow> (case out of (res, f, l', sh') \<Rightarrow> owner_ok l' sh' \<and> io_only sh sh' \<and>
     (if f = Reply_Now then w_cmd (in_data l') = w_cmd (in_data l) else known_cmd (w_cmd (in_data l'))))"

lemma start_switched:
  assumes "owner_ok l sh" "handle_market_start e conf req res l sh = Inr out"
  shows "switched l sh out"
proof (cases "w_cmd (in_data l) = WINEING_CTRL_CMD_MARKET_RUN")
  case True
  with assms show ?thesis by (auto simp: handle_market_start_def switched_def)
next
  case idle: False
  note l0 = owner_ok_size0 [OF assms(1)]
  show ?thesis
  proof (cases "tape_file req")
    case None
    with assms(2) idle l0 show ?thesis
      by (auto simp: handle_market_start_def switched_def owner_ok_set_cmd) (simp add: set_cmd_def)
  next
    case (Some f)
    with assms(2) idle obtain base where b: "deref (tape_basedir conf) = Inr base"
      by (auto simp: handle_market_start_def Let_def res_simps)
    show ?thesis
    proof (cases "tape_found e sh (base @ f)")
      case False
      with assms(2) idle Some b obtain out' sh' where
        "sh_log e LOG_DEBUG out' [] sh = Inr sh'"
        "out = (res\<lparr>res_type := Some ERR, err_text := Some (not_found_text (base @ f))\<rparr>, Reply_Now,
           l\<lparr>in_data := (in_data l)\<lparr>w_size := 0\<rparr>\<rparr>, sh')"
        by (auto simp: handle_market_start_def Let_def res_simps tape_found_def)
      moreover from this(1) have "io_only sh sh'" by (rule sh_log_io)
      moreover from this l0 have "owner_ok (l\<lparr>in_data := (in_data l)\<lparr>w_size := 0\<rparr>\<rparr>) sh'"
        by (simp add: owner_ok_io)
      ultimately show ?thesis by (simp add: switched_def)
    next
      case True
      with assms(2) idle Some b obtain d where
        d: "memcpy (w_data (in_data l)) (c_str (base @ f)) (length (base @ f) + 1) = Inr d"
        by (auto simp: handle_market_start_def Let_def res_simps tape_found_def)
      let ?l1 = "l\<lparr>in_data := (in_data l)\<lparr>w_size := length (base @ f) + 1, w_data := d\<rparr>\<rparr>"
      have "owner_ok ?l1 sh"
        using in_inv_tape [OF _ d, of sh] assms(1) by (simp add: owner_ok_def)
      moreover have "out = (res\<lparr>res_type := Some MARKET_START_OK\<rparr>, Publish_Then_Signal,
          set_cmd WINEING_CTRL_CMD_MARKET_RUN ?l1, sh)"
        using assms(2) True idle Some b d
        by (simp add: handle_market_start_def tape_found_def Let_def)
      ultimately show ?thesis
        by (simp add: switched_def owner_ok_set_cmd) (simp add: set_cmd_def)
    qed
  qed
qed

lemma switch_switched:
  assumes "owner_ok l sh" "cchan_in_switch e conf req l sh = Inr out"
  shows "switched l sh out"
proof (cases "req_type req")
  case MARKET_START
  with assms show ?thesis by (auto simp: cchan_in_switch_def dest: start_switched)
next
  case MARKET_STOP
  with assms have "out = (Response_Clear\<lparr>res_requestId := Some (requestId req), res_type := Some MARKET_STOP_OK\<rparr>,
      Publish_Then_Reply, set_cmd WINEING_CTRL_CMD_MARKET_STOP l, sh)"
    by (simp add: cchan_in_switch_def handle_market_stop_def)
  with assms(1) show ?thesis by (simp add: switched_def owner_ok_set_cmd) (simp add: set_cmd_def)
next
  case SHUTDOWN
  with assms have "out = (Response_Clear\<lparr>res_requestId := Some (requestId req), res_type := Some SHUTDOWN_OK\<rparr>,
      Publish_Then_Signal, set_cmd WINEING_CTRL_CMD_SHUTDOWN l, sh)"
    by (simp add: cchan_in_switch_def handle_shutdown_def)
  with assms(1) show ?thesis by (simp add: switched_def owner_ok_set_cmd) (simp add: set_cmd_def)
qed

subsection \<open>The invariant\<close>

definition chan_ok :: "chan \<Rightarrow> bool" where
  "chan_ok c \<longleftrightarrow> (\<exists>s. sock c = Sock s)"

text \<open>A channel that is still to be connected to the inproc endpoint.\<close>

definition push_chan :: "chan \<Rightarrow> bool" where
  "push_chan c \<longleftrightarrow> fqcn c = CStr DEFAULTS_ICHAN_NAME \<and> chan_type c = CHAN_TYPE_PUSH_CONNECT"

text \<open>
  The request thread's program point, with the command of its record and the published one:
  they differ only between the assignment of a new command and its publication.
\<close>

fun in_pc_inv :: "in_pc \<Rightarrow> c_int \<Rightarrow> c_int \<Rightarrow> bool" where
  "in_pc_inv In_Start c g = (c = g \<and> g = WINEING_CTRL_CMD_INIT)"
| "in_pc_inv (In_Connect ci co) c g = (chan_ok ci \<and> push_chan co \<and> c = g \<and> g = WINEING_CTRL_CMD_INIT)"
| "in_pc_inv (In_Loop ci co) c g = (chan_ok ci \<and> chan_ok co \<and> c = g)"
| "in_pc_inv (In_Handle ci co r) c g = (chan_ok ci \<and> chan_ok co \<and> c = g \<and> g \<noteq> WINEING_CTRL_CMD_SHUTDOWN)"
| "in_pc_inv (In_Publish ci co r b) c g = (chan_ok ci \<and> chan_ok co \<and> known_cmd c \<and> g \<noteq> WINEING_CTRL_CMD_SHUTDOWN)"
| "in_pc_inv (In_Signal ci co r) c g = (chan_ok ci \<and> chan_ok co \<and> c = g)"
| "in_pc_inv (In_Reply ci co r) c g = (chan_ok ci \<and> chan_ok co \<and> c = g)"
| "in_pc_inv In_End c g = (c = g \<and> (g = WINEING_CTRL_CMD_INIT \<or> g = WINEING_CTRL_CMD_SHUTDOWN))"

fun out_pc_inv :: "o_pc \<Rightarrow> bool" where
  "out_pc_inv (O_Loop c m) = (chan_ok c \<and> chan_ok m)"
| "out_pc_inv (O_Test c m) = (chan_ok c \<and> chan_ok m)"
| "out_pc_inv (O_Recv c m) = (chan_ok c \<and> chan_ok m)"
| "out_pc_inv (O_Send c m b n) = (chan_ok c \<and> chan_ok m \<and> 0 \<le> sint n \<and> nat (sint n) \<le> length b)"
| "out_pc_inv p = True"

fun mk_pc_inv :: "m_pc \<Rightarrow> nxtape \<Rightarrow> bool" where
  "mk_pc_inv (M_Connect c co) n = (chan_ok c \<and> push_chan co)"
| "mk_pc_inv (M_Loop c co) n = (chan_ok c \<and> chan_ok co \<and> nxtape_ok n)"
| "mk_pc_inv (M_Test c co) n = (chan_ok c \<and> chan_ok co \<and> nxtape_ok n)"
| "mk_pc_inv (M_Callback c co b mt) n = (chan_ok c \<and> chan_ok co \<and> nxtape_ok n)"
| "mk_pc_inv (M_Nx c co b) n = (chan_ok c \<and> chan_ok co \<and> nxtape_ok n)"
| "mk_pc_inv p n = True"

definition sys_inv :: "'w sys \<Rightarrow> bool" where
  "sys_inv s \<longleftrightarrow> (let sh = sys_sh s; n = mk_nx (mk_vars s) in
     owner_ok (in_vars s) sh \<and> known_cmd (w_cmd (g_data sh)) \<and>
     reader_ok (out_version (out_vars s)) (out_data (out_vars s)) sh \<and>
     reader_ok (mk_version (mk_vars s)) (mk_data (mk_vars s)) sh \<and>
     reader_ok (cb_version n) (cb_data n) sh \<and>
     in_pc_inv (in_at s) (w_cmd (in_data (in_vars s))) (w_cmd (g_data sh)) \<and>
     out_pc_inv (out_at s) \<and> mk_pc_inv (mk_at s) n)"

subsection \<open>The steps of the request thread\<close>

lemma chan_bind_Inr:
  "chan_bind e c io = Inr (rc, c', io') \<Longrightarrow>
   chan_ok c' \<and> fqcn c' = fqcn c \<and> chan_type c' = chan_type c"
  by (auto simp: chan_bind_def chan_ok_def on_world_def Let_def res_simps split: prod.splits if_splits)

lemma in_start_Inr:
  assumes "in_start e conf sh = Inr (p, sh')"
  shows "io_only sh sh' \<and> in_pc_inv p WINEING_CTRL_CMD_INIT WINEING_CTRL_CMD_INIT"
  using assms
  by (auto simp: in_start_def res_simps Let_def chan_init_def push_chan_def split: if_splits
      dest!: sh_log_io sh_log_lazy_io chan_bind_Inr intro: io_only_trans)

lemma in_connect_Inr:
  assumes "in_connect e c o' sh = Inr (p, sh')" "chan_ok c" "push_chan o'"
  shows "io_only sh sh' \<and> in_pc_inv p WINEING_CTRL_CMD_INIT WINEING_CTRL_CMD_INIT"
  using assms
  by (auto simp: in_connect_def res_simps Let_def push_chan_def split: if_splits
      dest!: sh_log_io chan_bind_Inr intro: io_only_trans)

lemma reply_Inr: "cchan_in_reply e o' res sh = Inr sh' \<Longrightarrow> io_only sh sh'"
  by (auto simp: cchan_in_reply_def res_simps Let_def split: if_splits
      dest!: sh_log_io intro: io_only_trans)

text \<open>
  One turn of the receive loop. When SHUTDOWN is the last command the thread has set, it does
  not receive any more.
\<close>

lemma in_turn_receives:
  assumes "WINEING_CTRL_CMD_SHUTDOWN <s w_cmd (in_data l)"
  shows "in_turn e c o' l sh =
     res_bind (chan_recv e c (recv_ctrl e) Request_Clear (sh_io sh)) (\<lambda>(rc, req, i).
       Inr (if 0 <s rc then In_Handle c o' req else In_Loop c o', sh\<lparr>sh_io := i\<rparr>))"
  unfolding in_turn_def if_P [OF assms] Let_def ..

lemma known_not_shutdown:
  "known_cmd c \<Longrightarrow> WINEING_CTRL_CMD_SHUTDOWN <s c \<longleftrightarrow> c \<noteq> WINEING_CTRL_CMD_SHUTDOWN"
  by (auto simp: known_cmd_def ctrl_cmds word_sless_alt)

lemma in_turn_Inr:
  assumes "in_turn e c o' l sh = Inr (p', sh')" "chan_ok c" "chan_ok o'"
    and "w_cmd (in_data l) = g" "known_cmd g"
  shows "io_only sh sh' \<and> in_pc_inv p' g g \<and> (g = WINEING_CTRL_CMD_SHUTDOWN \<longrightarrow> p' = In_End)"
proof (cases "g = WINEING_CTRL_CMD_SHUTDOWN")
  case True
  with assms(1,4) show ?thesis
    by (auto simp: in_turn_def ctrl_cmds res_simps dest!: sh_log_io)
next
  case False
  with assms(4,5) have lt: "WINEING_CTRL_CMD_SHUTDOWN <s w_cmd (in_data l)"
    by (simp add: known_not_shutdown)
  from assms(1) show ?thesis
    unfolding in_turn_receives [OF lt] res_bind_eq_Inr using assms(2,3) False by auto
qed

lemma in_step_Inr:
  assumes "in_step e conf p l sh = Inr (p', l', sh')" "owner_ok l sh" "known_cmd (w_cmd (g_data sh))"
    and "in_pc_inv p (w_cmd (in_data l)) (w_cmd (g_data sh))"
  shows "owner_ok l' sh' \<and> cell_adv sh sh' \<and> known_cmd (w_cmd (g_data sh')) \<and>
    in_pc_inv p' (w_cmd (in_data l')) (w_cmd (g_data sh')) \<and>
    (w_cmd (g_data sh) = WINEING_CTRL_CMD_SHUTDOWN \<longrightarrow> io_only sh sh')"
proof -
  have io: ?thesis if "io_only sh sh'" "owner_ok l' sh'" "in_pc_inv p' (w_cmd (in_data l')) (w_cmd (g_data sh))"
    using that assms(3) io_onlyD [OF that(1)] by (simp add: cell_adv_def)
  have keep: ?thesis if "io_only sh sh'" "l' = l" "in_pc_inv p' (w_cmd (in_data l')) (w_cmd (g_data sh))"
    using that assms(2) by (intro io) (simp_all add: owner_ok_io)
  show ?thesis
  proof (cases p)
    case In_Start
    with assms keep show ?thesis by (auto simp: in_step_def res_simps dest!: in_start_Inr)
  next
    case (In_Connect c o')
    with assms keep show ?thesis by (auto simp: in_step_def res_simps dest!: in_connect_Inr)
  next
    case (In_Loop c o')
    with assms keep show ?thesis by (auto simp: in_step_def res_simps dest!: in_turn_Inr)
  next
    case (In_Handle c o' req)
    with assms(1) obtain res f where sw: "cchan_in_switch e conf req l sh = Inr (res, f, l', sh')"
      and p': "p' = (case f of Reply_Now \<Rightarrow> In_Reply c o' res | Publish_Then_Reply \<Rightarrow> In_Publish c o' res False
          | Publish_Then_Signal \<Rightarrow> In_Publish c o' res True)"
      by (auto simp: in_step_def in_dispatch_def res_simps)
    from switch_switched [OF assms(2) sw] In_Handle assms(4) p' show ?thesis
      by (intro io; cases f) (auto simp: switched_def)
  next
    case (In_Publish c o' res sig)
    with assms(1) have "publish_data l sh = Inr (l', sh')"
        "p' = (if sig then In_Signal c o' res else In_Reply c o' res)"
      by (auto simp: in_step_def res_simps)
    with publish_Inr [OF assms(2) this(1)] In_Publish assms(4) show ?thesis by auto
  next
    case (In_Signal c o' res)
    with assms(1,2) have "sh' = sh" "l' = l" "p' = In_Reply c o' res"
      by (auto simp: in_step_def res_simps owner_ok_def dest: signal_Inr)
    with In_Signal assms keep show ?thesis by simp
  next
    case (In_Reply c o' res)
    with assms keep show ?thesis by (auto simp: in_step_def res_simps dest!: reply_Inr)
  next
    case In_End
    with assms(1) show ?thesis by (simp add: in_step_def)
  qed
qed

subsection \<open>The steps of the response thread\<close>

lemma out_start_Inr: "out_start e conf sh = Inr (p, sh') \<Longrightarrow> io_only sh sh' \<and> out_pc_inv p"
  by (auto simp: out_start_def res_simps Let_def split: if_splits
      dest!: sh_log_io sh_log_lazy_io chan_bind_Inr intro: io_only_trans)

lemma out_read_Inr:
  assumes "out_read l sh = Inr (l', sh')" "cell_good sh" "reader_ok (out_version l) (out_data l) sh"
  shows "sh' = sh \<and> reader_ok (out_version l') (out_data l') sh \<and>
    out_version l' = g_version (conc sh) \<and> ctrl_view (out_data l') = ctrl_view (g_data sh)"
proof -
  from assms(1) obtain v t where r: "read_g_data (out_version l) (out_data l) sh = Inr (v, t, sh')"
      "l' = l\<lparr>out_version := v, out_data := t\<rparr>"
    by (auto simp: out_read_def res_simps)
  from reader_ok_read [OF assms(2,3) r(1)] r(2) show ?thesis by auto
qed

lemma out_test_Inr:
  "out_test e c m t sh = Inr (p, sh') \<Longrightarrow> chan_ok c \<Longrightarrow> chan_ok m \<Longrightarrow> io_only sh sh' \<and> out_pc_inv p"
  by (auto simp: out_test_def res_simps split: if_splits dest!: sh_log_io)

text \<open>
  What a receive of the response thread leaves in the buffer. ZeroMQ documents 0 and -1 as
  the only return codes of \<open>zmq_recv\<close>.
\<close>

definition recv_codes :: "'w env \<Rightarrow> bool" where
  "recv_codes e \<longleftrightarrow> (\<forall>s w. case zmq_recv e s w of None \<Rightarrow> True | Some (r, d, w') \<Rightarrow> r = 0 \<or> r <s 0)"

lemma recv_codesD: "recv_codes e \<Longrightarrow> zmq_recv e s w = Some (r, d, w') \<Longrightarrow> r = 0 \<or> r <s 0"
  unfolding recv_codes_def by (auto dest!: spec [where x = s] spec [where x = w])

lemma mem_recv_Inr:
  assumes "chan_recv e m cchan_in_mem_copy b io = Inr (read, b', io')" "\<not> read <s 0" "recv_codes e"
  shows "length b' = length b \<and> 0 \<le> sint read \<and> nat (sint read) \<le> length b"
proof -
  from assms(1) obtain s where s: "sock m = Sock s"
    by (cases "sock m") (auto simp: chan_recv_def chan_sock_def)
  from assms(1) s obtain r d w where d: "zmq_recv e s (world io) = Some (r, d, w)"
    by (cases "zmq_recv e s (world io)") (auto simp: chan_recv_def chan_sock_def)
  have nn: "0 \<le> sint read" using assms(2) by (simp add: word_sless_alt)
  have "r = 0 \<or> r <s 0" using recv_codesD [OF assms(3) d] .
  then show ?thesis
  proof
    assume "r = 0"
    with assms(1) s d nn show ?thesis
      by (auto simp: chan_recv_def chan_sock_def cchan_in_mem_copy_def res_simps Let_def
          size_t_of_int_nonneg)
  next
    assume neg: "r <s 0"
    then have "r \<noteq> 0" by auto
    from chan_recv_error [OF s d this, of cchan_in_mem_copy b] assms(1) have "read = r" by simp
    with assms(2) neg show ?thesis by simp
  qed
qed

lemma out_recv_Inr:
  assumes "out_recv e c m sh = Inr (p, sh')" "chan_ok c" "chan_ok m" "recv_codes e"
  shows "io_only sh sh' \<and> out_pc_inv p"
  using assms
  by (auto simp: out_recv_def res_simps Let_def split: if_splits
      dest!: sh_log_io mem_recv_Inr [OF _ _ assms(4)] intro: io_only_trans)

lemma out_send_Inr:
  "out_send e c m b n sh = Inr (p, sh') \<Longrightarrow> chan_ok c \<Longrightarrow> chan_ok m \<Longrightarrow> io_only sh sh' \<and> out_pc_inv p"
  by (auto simp: out_send_def res_simps Let_def split: if_splits dest!: sh_log_io intro: io_only_trans)

lemma out_step_Inr:
  assumes "out_step e conf p l sh = Inr (p', l', sh')" "out_pc_inv p" "recv_codes e"
    and "cell_good sh" "reader_ok (out_version l) (out_data l) sh"
  shows "io_only sh sh' \<and> out_pc_inv p' \<and> reader_ok (out_version l') (out_data l') sh"
proof (cases p)
  case O_Start
  with assms show ?thesis by (auto simp: out_step_def res_simps dest!: out_start_Inr)
next
  case (O_Loop c m)
  with assms show ?thesis by (auto simp: out_step_def res_simps dest!: out_read_Inr)
next
  case (O_Test c m)
  with assms show ?thesis by (auto simp: out_step_def res_simps dest!: out_test_Inr)
next
  case (O_Recv c m)
  with assms show ?thesis by (auto simp: out_step_def res_simps dest!: out_recv_Inr)
next
  case (O_Send c m b n)
  with assms show ?thesis by (auto simp: out_step_def res_simps dest!: out_send_Inr)
next
  case O_End
  with assms(1) show ?thesis by (simp add: out_step_def)
qed

subsection \<open>The steps of the market thread and of NxCore\<close>

lemma market_start_Inr:
  "market_start e conf sh = Inr (p, sh') \<Longrightarrow> io_only sh sh' \<and> mk_pc_inv p n"
  by (auto simp: market_start_def res_simps Let_def chan_init_def push_chan_def split: if_splits
      dest!: sh_log_io sh_log_lazy_io chan_bind_Inr intro: io_only_trans)

lemma market_connect_Inr:
  assumes "market_connect e c o' l sh = Inr (p, l', sh')" "chan_ok c" "push_chan o'"
    and "wf_ctrl (cb_data (mk_nx l))"
  shows "io_only sh sh' \<and> mk_pc_inv p (mk_nx l') \<and> mk_version l' = mk_version l \<and>
    mk_data l' = mk_data l \<and> cb_version (mk_nx l') = cb_version (mk_nx l) \<and>
    cb_data (mk_nx l') = cb_data (mk_nx l)"
  using assms
  by (auto simp: market_connect_def res_simps Let_def push_chan_def nxtape_ok_def nxtape_init_def
      chan_ok_def split: if_splits dest!: chan_bind_Inr)

lemma log_running_io: "log_running e t sh = Inr sh' \<Longrightarrow> io_only sh sh'"
  unfolding log_running_def by (rule sh_log_lazy_io)

lemma market_read_Inr:
  assumes "market_read l sh = Inr (l', sh')" "cell_good sh" "reader_ok (mk_version l) (mk_data l) sh"
  shows "sh' = sh \<and> reader_ok (mk_version l') (mk_data l') sh \<and> mk_nx l' = mk_nx l \<and>
    mk_version l' = g_version (conc sh) \<and> ctrl_view (mk_data l') = ctrl_view (g_data sh)"
proof -
  from assms(1) obtain v t where r: "read_g_data (mk_version l) (mk_data l) sh = Inr (v, t, sh')"
      "l' = l\<lparr>mk_version := v, mk_data := t\<rparr>"
    by (auto simp: market_read_def res_simps)
  from reader_ok_read [OF assms(2,3) r(1)] r(2) show ?thesis by auto
qed

lemma market_act_Inr:
  assumes "market_act e c o' t sh = Inr (p, sh')" "chan_ok c" "chan_ok o'" "nxtape_ok n"
  shows "io_only sh sh' \<and> mk_pc_inv p n"
  using assms
  by (auto simp: market_act_def res_simps split: if_splits
      dest!: sh_log_io log_running_io intro: io_only_trans)

lemma callback_read_Inr:
  assumes "callback_read l sh = Inr (l', sh')" "cell_good sh"
    and "reader_ok (cb_version (mk_nx l)) (cb_data (mk_nx l)) sh"
  shows "sh' = sh \<and> mk_version l' = mk_version l \<and> mk_data l' = mk_data l \<and>
    reader_ok (cb_version (mk_nx l')) (cb_data (mk_nx l')) sh \<and>
    cb_version (mk_nx l') = g_version (conc sh) \<and> ctrl_view (cb_data (mk_nx l')) = ctrl_view (g_data sh) \<and>
    g_mchan (mk_nx l') = g_mchan (mk_nx l)"
proof -
  from assms(1) obtain v t where r: "read_g_data (cb_version (mk_nx l)) (cb_data (mk_nx l)) sh = Inr (v, t, sh')"
      "l' = l\<lparr>mk_nx := (mk_nx l)\<lparr>cb_version := v, cb_data := t\<rparr>\<rparr>"
    by (auto simp: callback_read_eq res_simps)
  from reader_ok_read [OF assms(2,3) r(1)] r(2) show ?thesis by auto
qed

lemma nxtape_ok_read:
  "nxtape_ok n \<Longrightarrow> g_mchan n' = g_mchan n \<Longrightarrow> reader_ok v (cb_data n') sh \<Longrightarrow> nxtape_ok n'"
  by (auto simp: nxtape_ok_def reader_ok_def copy_ok_def)

lemma callback_handle_Inr: "callback_handle e mt l sh = Inr (ret, sh') \<Longrightarrow> io_only sh sh'"
  by (auto simp: callback_handle_def res_simps)

lemma market_step_Inr:
  assumes "market_step e conf p l sh = Inr (p', l', sh')" "mk_pc_inv p (mk_nx l)" "cell_good sh"
    and "reader_ok (mk_version l) (mk_data l) sh" "reader_ok (cb_version (mk_nx l)) (cb_data (mk_nx l)) sh"
  shows "io_only sh sh' \<and> mk_pc_inv p' (mk_nx l') \<and> reader_ok (mk_version l') (mk_data l') sh \<and>
    reader_ok (cb_version (mk_nx l')) (cb_data (mk_nx l')) sh"
proof (cases p)
  case M_Start
  with assms show ?thesis by (auto simp: market_step_def res_simps dest!: market_start_Inr)
next
  case (M_Connect c o')
  have "wf_ctrl (cb_data (mk_nx l))" using assms(5) by (simp add: reader_ok_def copy_ok_def)
  with M_Connect assms market_connect_Inr [of e c o' l sh p' l' sh'] show ?thesis
    by (simp add: market_step_def)
next
  case (M_Loop c o')
  with assms show ?thesis by (auto simp: market_step_def res_simps dest!: market_read_Inr)
next
  case (M_Test c o')
  with assms show ?thesis by (auto simp: market_step_def res_simps dest!: market_act_Inr)
qed (use assms(1) in \<open>simp_all add: market_step_def\<close>)

subsection \<open>Reachable states\<close>

lemma owner_ready: "owner_ok l sh \<Longrightarrow> cell_ready sh"
  by (simp add: owner_ok_def in_inv_def shared_ready_def)

lemma io_only_readers:
  assumes "io_only sh sh'"
  shows "owner_ok l sh' = owner_ok l sh" "reader_ok v t sh' = reader_ok v t sh"
    "g_data sh' = g_data sh"
  using assms by (auto simp: io_only_def reader_ok_def copy_ok_def)

text \<open>A command that is final stays, with its version.\<close>

definition final_kept :: "'w sys \<Rightarrow> 'w sys \<Rightarrow> bool" where
  "final_kept s s' \<longleftrightarrow> (w_cmd (g_data (sys_sh s)) = WINEING_CTRL_CMD_SHUTDOWN \<longrightarrow>
     io_only (sys_sh s) (sys_sh s'))"

lemma sys_inv_cell: "sys_inv s \<Longrightarrow> cell_good (sys_sh s)"
  by (simp add: sys_inv_def Let_def cell_good_def owner_ok_def in_inv_def shared_ready_def)

lemma sys_inv_reader:
  assumes "sys_inv s" "io_only (sys_sh s) sh"
  shows "sys_inv (s\<lparr>sys_sh := sh\<rparr>)"
  using assms io_only_readers [OF assms(2)] by (simp add: sys_inv_def Let_def)

lemma sys_inv_step:
  assumes "recv_codes e" "sys_inv s" "sys_step e conf R s a s'"
  shows "sys_inv s' \<and> final_kept s s'"
  using assms(3)
proof cases
  case (step_in p l sh)
  with assms(2) have i: "owner_ok (in_vars s) (sys_sh s)" "known_cmd (w_cmd (g_data (sys_sh s)))"
      "in_pc_inv (in_at s) (w_cmd (in_data (in_vars s))) (w_cmd (g_data (sys_sh s)))"
    by (simp_all add: sys_inv_def Let_def)
  from in_step_Inr [OF step_in(3) i] have o': "owner_ok l sh" "cell_adv (sys_sh s) sh"
    "known_cmd (w_cmd (g_data sh))" "in_pc_inv p (w_cmd (in_data l)) (w_cmd (g_data sh))"
    "w_cmd (g_data (sys_sh s)) = WINEING_CTRL_CMD_SHUTDOWN \<longrightarrow> io_only (sys_sh s) sh"
    by blast+
  with assms(2) step_in(2) show ?thesis
    by (simp add: sys_inv_def Let_def reader_ok_adv [OF _ o'(2)] final_kept_def)
next
  case (step_out p l sh)
  with assms(2) have "out_pc_inv (out_at s)" "cell_good (sys_sh s)"
      "reader_ok (out_version (out_vars s)) (out_data (out_vars s)) (sys_sh s)"
    by (auto simp: sys_inv_def Let_def sys_inv_cell [OF assms(2)])
  from out_step_Inr [OF step_out(3) this(1) assms(1) this(2,3)] assms(2) step_out(2) show ?thesis
    by (auto simp: sys_inv_def Let_def io_only_readers final_kept_def)
next
  case (step_market p l sh)
  with assms(2) have "mk_pc_inv (mk_at s) (mk_nx (mk_vars s))" "cell_good (sys_sh s)"
      "reader_ok (mk_version (mk_vars s)) (mk_data (mk_vars s)) (sys_sh s)"
      "reader_ok (cb_version (mk_nx (mk_vars s))) (cb_data (mk_nx (mk_vars s))) (sys_sh s)"
    by (auto simp: sys_inv_def Let_def sys_inv_cell [OF assms(2)])
  from market_step_Inr [OF step_market(3) this] assms(2) step_market(2) show ?thesis
    by (auto simp: sys_inv_def Let_def io_only_readers final_kept_def)
next
  case (step_callback c o' b l sh mt)
  with assms(2) have n: "nxtape_ok (mk_nx (mk_vars s))" "cell_good (sys_sh s)"
      "reader_ok (cb_version (mk_nx (mk_vars s))) (cb_data (mk_nx (mk_vars s))) (sys_sh s)"
    by (auto simp: sys_inv_def Let_def sys_inv_cell [OF assms(2)])
  from callback_read_Inr [OF step_callback(4) n(2,3)] nxtape_ok_read [OF n(1)] assms(2) step_callback(2,3)
  show ?thesis by (auto simp: sys_inv_def Let_def final_kept_def)
next
  case (step_answer c o' b mt ret sh)
  from callback_handle_Inr [OF step_answer(4)] assms(2) step_answer(2,3) show ?thesis
    by (auto simp: sys_inv_def Let_def io_only_readers final_kept_def)
next
  case (step_return c o' b)
  with assms(2) show ?thesis by (auto simp: sys_inv_def Let_def final_kept_def)
next
  case (step_world w)
  with assms(2) show ?thesis by (simp add: sys_inv_reader final_kept_def)
qed

text \<open>Only the request thread changes the shared cell, or the request thread's own state.\<close>

lemma others_leave_cell:
  assumes "recv_codes e" "sys_inv s" "sys_step e conf R s a s'" "a \<noteq> Act_In"
  shows "io_only (sys_sh s) (sys_sh s') \<and> in_at s' = in_at s \<and> in_vars s' = in_vars s"
  using assms(3)
proof cases
  case (step_out p l sh)
  with assms(2) have "out_pc_inv (out_at s)" "cell_good (sys_sh s)"
      "reader_ok (out_version (out_vars s)) (out_data (out_vars s)) (sys_sh s)"
    by (auto simp: sys_inv_def Let_def sys_inv_cell [OF assms(2)])
  from out_step_Inr [OF step_out(3) this(1) assms(1) this(2,3)] step_out(2) show ?thesis by simp
next
  case (step_market p l sh)
  with assms(2) have "mk_pc_inv (mk_at s) (mk_nx (mk_vars s))" "cell_good (sys_sh s)"
      "reader_ok (mk_version (mk_vars s)) (mk_data (mk_vars s)) (sys_sh s)"
      "reader_ok (cb_version (mk_nx (mk_vars s))) (cb_data (mk_nx (mk_vars s))) (sys_sh s)"
    by (auto simp: sys_inv_def Let_def sys_inv_cell [OF assms(2)])
  from market_step_Inr [OF step_market(3) this] step_market(2) show ?thesis by simp
next
  case (step_callback c o' b l sh mt)
  with assms(2) have "cell_good (sys_sh s)"
      "reader_ok (cb_version (mk_nx (mk_vars s))) (cb_data (mk_nx (mk_vars s))) (sys_sh s)"
    by (auto simp: sys_inv_def Let_def sys_inv_cell [OF assms(2)])
  from callback_read_Inr [OF step_callback(4) this] step_callback(2) show ?thesis by simp
next
  case (step_answer c o' b mt ret sh)
  from callback_handle_Inr [OF step_answer(4)] step_answer(2) show ?thesis by simp
qed (use assms(4) in simp_all)

end
