(* ===== verification/Cmdline.thy ===== *)
theory Cmdline
  imports Ctrl_Data
begin

text \<open>
  Model of the command line of \<^verbatim>\<open>src/main/c/main.win.cc\<close>: \<open>cmd_parse_opt\<close>, \<open>cmd_parse\<close> and
  the defaults \<open>main\<close> starts from. An argument is a C string, so it holds no NUL;
  \<open>argv[i][k]\<close> is its \<open>k\<close>-th character, its NUL for \<open>k\<close> equal to its length, and a fault
  beyond.
\<close>

definition arg_char :: "string \<Rightarrow> nat \<Rightarrow> char res" where
  "arg_char s k = (if k < length s then Inr (s ! k) else if k = length s then Inr NUL
                   else Inl OutOfBounds)"

text \<open>\<open>strcspn(s, "=")\<close>, and the address behind it.\<close>

definition strcspn_eq :: "string \<Rightarrow> nat" where
  "strcspn_eq s = length (takeWhile (\<lambda>c. c \<noteq> CHR ''='') s)"

definition cmd_parse_opt :: "string \<Rightarrow> c_ptr" where
  "cmd_parse_opt argv =
     (let eq = strcspn_eq argv in
      if eq + 1 \<le> length argv then CStr (drop (eq + 1) argv) else PastEnd)"

definition main_defaults :: w_conf where
  "main_defaults = \<lparr>cchan_in_fqcn = CStr DEFAULTS_CCHAN_IN_NAME,
     cchan_out_fqcn = CStr DEFAULTS_CCHAN_OUT_NAME,
     mchan_fqcn = CStr DEFAULTS_MCHAN_NAME,
     tape_basedir = CStr DEFAULTS_TAPE_BASE_DIR\<rparr>"

text \<open>
  One turn of the loop: the option is chosen by the character at index 2 (and 8) alone.
\<close>

unbundle bit_operations_syntax

definition cmd_parse_arg :: "string \<Rightarrow> c_int \<times> w_conf \<Rightarrow> (c_int \<times> w_conf) res" where
  "cmd_parse_arg arg st =
     (let (allOpts, conf) = st in
      res_bind (arg_char arg 2) (\<lambda>c2.
      if c2 = CHR ''c'' then
        res_bind (arg_char arg 8) (\<lambda>c8.
        if c8 = CHR ''i'' then Inr (allOpts OR 0x1, conf\<lparr>cchan_in_fqcn := cmd_parse_opt arg\<rparr>)
        else Inr (allOpts OR 0x2, conf\<lparr>cchan_out_fqcn := cmd_parse_opt arg\<rparr>))
      else if c2 = CHR ''m'' then Inr (allOpts OR 0x4, conf\<lparr>mchan_fqcn := cmd_parse_opt arg\<rparr>)
      else if c2 = CHR ''t'' then Inr (allOpts, conf\<lparr>tape_basedir := cmd_parse_opt arg\<rparr>)
      else Inr (allOpts, conf)))"

fun cmd_parse_args :: "string list \<Rightarrow> c_int \<times> w_conf \<Rightarrow> (c_int \<times> w_conf) res" where
  "cmd_parse_args [] st = Inr st"
| "cmd_parse_args (a # as) st = res_bind (cmd_parse_arg a st) (cmd_parse_args as)"

text \<open>The usage text, printed line by line.\<close>

definition cmd_usage :: "string list" where
  "cmd_usage =
    [''Usage: wineing.exe --cchan-in=<fqcn> --cchan-out=<fqcn> --mchan=<fqcn> [--tape-root=<dir>]'',
     [],
     ''Wineing TBD.'',
     [],
     ''ZMQ channels:'',
     ''  --cchan-in       Incoming control messages channel (binds to a'',
     ''                   ZMQ PULL socket)'',
     ''  --cchan-out      Outgoing control messages channel (binds to a'',
     ''                   ZMQ PUSH socket)'',
     ''  --mchan          Market data channel (binds to a ZMQ PUB socket'',
     ''                   socket)'',
     ''NxCore related options:'',
     ''  [--tape-root]    The directory from which to serve the tape files'',
     ''                   Defaults to '' @ [CHR 0x27] @ ''C:'' @ [CHR 0x5C] @ ''md'' @ [CHR 0x5C, CHR 0x27] @
       ''. The path has to end in '' @ [CHR 0x27, CHR 0x5C, CHR 0x27]]"

text \<open>A part of the program ends the process, after printing some lines, or goes on.\<close>

datatype 'a outcome = Exit "string list" int | Continue 'a

text \<open>\<open>args\<close> are the arguments after the program name. A missing option exits with code 1.\<close>

definition cmd_parse :: "string list \<Rightarrow> w_conf \<Rightarrow> w_conf outcome res" where
  "cmd_parse args conf =
     res_bind (cmd_parse_args args (0, conf)) (\<lambda>(allOpts, conf).
     if allOpts \<noteq> 7 then Inr (Exit cmd_usage 1) else Inr (Continue conf))"

subsection \<open>Options of the documented form\<close>

definition opt_in :: "string \<Rightarrow> string" where "opt_in v = ''--cchan-in='' @ v"
definition opt_out :: "string \<Rightarrow> string" where "opt_out v = ''--cchan-out='' @ v"
definition opt_mchan :: "string \<Rightarrow> string" where "opt_mchan v = ''--mchan='' @ v"
definition opt_tape :: "string \<Rightarrow> string" where "opt_tape v = ''--tape-root='' @ v"

lemmas opt_defs = opt_in_def opt_out_def opt_mchan_def opt_tape_def

lemma cmd_parse_opt_name:
  "CHR ''='' \<notin> set name \<Longrightarrow> cmd_parse_opt (name @ CHR ''='' # v) = CStr v"
proof -
  assume "CHR ''='' \<notin> set name"
  then have "takeWhile (\<lambda>c. c \<noteq> CHR ''='') (name @ CHR ''='' # v) = name"
    by (induction name) auto
  then show ?thesis by (simp add: cmd_parse_opt_def strcspn_eq_def)
qed

text \<open>Without an equals sign the value is a pointer past the end.\<close>

lemma cmd_parse_opt_no_eq: "CHR ''='' \<notin> set s \<Longrightarrow> cmd_parse_opt s = PastEnd"
proof -
  assume "CHR ''='' \<notin> set s"
  then have "takeWhile (\<lambda>c. c \<noteq> CHR ''='') s = s" by (induction s) auto
  then show ?thesis by (simp add: cmd_parse_opt_def strcspn_eq_def del: takeWhile_eq_all_conv)
qed

lemma cmd_parse_arg_opts:
  "cmd_parse_arg (opt_in v) (m, c) = Inr (m OR 0x1, c\<lparr>cchan_in_fqcn := CStr v\<rparr>)"
  "cmd_parse_arg (opt_out v) (m, c) = Inr (m OR 0x2, c\<lparr>cchan_out_fqcn := CStr v\<rparr>)"
  "cmd_parse_arg (opt_mchan v) (m, c) = Inr (m OR 0x4, c\<lparr>mchan_fqcn := CStr v\<rparr>)"
  "cmd_parse_arg (opt_tape v) (m, c) = Inr (m, c\<lparr>tape_basedir := CStr v\<rparr>)"
  using cmd_parse_opt_name [of "''--cchan-in''" v] cmd_parse_opt_name [of "''--cchan-out''" v]
    cmd_parse_opt_name [of "''--mchan''" v] cmd_parse_opt_name [of "''--tape-root''" v]
  by (simp_all add: cmd_parse_arg_def arg_char_def opt_defs)

datatype opt = In string | Out string | MChan string | Tape string

fun opt_arg :: "opt \<Rightarrow> string" where
  "opt_arg (In v) = opt_in v"
| "opt_arg (Out v) = opt_out v"
| "opt_arg (MChan v) = opt_mchan v"
| "opt_arg (Tape v) = opt_tape v"

text \<open>What a list of documented options should mean: for each field, the last one wins.\<close>

fun opt_apply :: "opt \<Rightarrow> w_conf \<Rightarrow> w_conf" where
  "opt_apply (In v) c = c\<lparr>cchan_in_fqcn := CStr v\<rparr>"
| "opt_apply (Out v) c = c\<lparr>cchan_out_fqcn := CStr v\<rparr>"
| "opt_apply (MChan v) c = c\<lparr>mchan_fqcn := CStr v\<rparr>"
| "opt_apply (Tape v) c = c\<lparr>tape_basedir := CStr v\<rparr>"

fun opt_bit :: "opt \<Rightarrow> c_int" where
  "opt_bit (In _) = 1" | "opt_bit (Out _) = 2" | "opt_bit (MChan _) = 4" | "opt_bit (Tape _) = 0"

lemma cmd_parse_args_opts:
  "cmd_parse_args (map opt_arg os) (m, c) =
     Inr (fold (\<lambda>x m. m OR opt_bit x) os m, fold opt_apply os c)"
proof (induction os arbitrary: m c)
  case Nil
  then show ?case by simp
next
  case (Cons x os)
  then show ?case by (cases x) (simp_all add: cmd_parse_arg_opts)
qed

lemma or_bits_cases:
  "(if p then 1 else 0) OR ((if q then 2 else 0) OR (if r then 4 else 0)) = (7 :: c_int) \<longleftrightarrow> p \<and> q \<and> r"
  by (cases p; cases q; cases r) simp_all

lemma or_bits_step:
  "(m OR 1) OR ((if p then 1 else 0) OR ((if q then 2 else 0) OR (if r then 4 else 0))) =
     m OR (1 OR ((if q then 2 else 0) OR (if r then 4 else (0 :: c_int))))"
  "(m OR 2) OR ((if p then 1 else 0) OR ((if q then 2 else 0) OR (if r then 4 else 0))) =
     m OR ((if p then 1 else 0) OR (2 OR (if r then 4 else (0 :: c_int))))"
  "(m OR 4) OR ((if p then 1 else 0) OR ((if q then 2 else 0) OR (if r then 4 else 0))) =
     m OR ((if p then 1 else 0) OR ((if q then 2 else 0) OR (4 :: c_int)))"
  by (cases p; cases q; cases r; simp add: or.assoc)+

lemma opt_bits:
  "fold (\<lambda>x m. m OR opt_bit x) os m =
     m OR ((if \<exists>v. In v \<in> set os then 1 else 0) OR ((if \<exists>v. Out v \<in> set os then 2 else 0) OR
       (if \<exists>v. MChan v \<in> set os then 4 else 0)))"
proof (induction os arbitrary: m)
  case Nil
  show ?case by simp
next
  case (Cons x os)
  have ex: "(\<exists>v. v = w \<or> P v) = True" for w :: string and P by blast
  show ?case
    by (cases x) (simp_all only: fold_simps Cons.IH opt_bit.simps list.set insert_iff opt.inject
        opt.distinct ex or_bits_step simp_thms if_True or.right_neutral)
qed

lemmas cmd_parse_opts = cmd_parse_def cmd_parse_args_opts opt_bits or_bits_cases

text \<open>
  C37. On options of the documented form, in any order and number, the parser never faults; it
  accepts exactly when each of the three channel options occurs, and then every field holds
  the value of its last option (the tape root keeps its default when it is not given);
  otherwise the program prints its usage and exits with code 1. So the defaults of the three channels are never
  used.
\<close>
theorem cmd_parse_options:
  "cmd_parse (map opt_arg os) conf =
     Inr (if (\<exists>v. In v \<in> set os) \<and> (\<exists>v. Out v \<in> set os) \<and> (\<exists>v. MChan v \<in> set os)
          then Continue (fold opt_apply os conf) else Exit cmd_usage 1)"
  by (simp add: cmd_parse_opts)

definition short_arg :: "string \<Rightarrow> bool" where
  "short_arg a \<longleftrightarrow> length a < 2 \<or> (3 \<le> length a \<and> length a < 8 \<and> a ! 2 = CHR ''c'')"

lemma cmd_parse_arg_short: "short_arg a \<Longrightarrow> cmd_parse_arg a st = Inl OutOfBounds"
proof -
  assume a: "short_arg a"
  then consider "arg_char a 2 = Inl OutOfBounds"
    | "arg_char a 2 = Inr (CHR ''c'')" "arg_char a 8 = Inl OutOfBounds"
    by (auto simp: short_arg_def arg_char_def)
  then show ?thesis by cases (simp_all add: cmd_parse_arg_def split: prod.split)
qed

lemma cmd_parse_args_fault:
  "cmd_parse_args as st = Inr st' \<Longrightarrow> cmd_parse_args (as @ bs) st = cmd_parse_args bs st'"
  by (induction as arbitrary: st) (auto simp: res_simps)

text \<open>
  C38. An argument of fewer than two characters, or one of the c options of fewer than eight,
  makes the parser read outside the argument, wherever it stands among the arguments, as long
  as the ones before it are of the documented form.
\<close>
theorem cmd_parse_short_argument:
  assumes "short_arg a"
  shows "cmd_parse (map opt_arg os @ a # rest) conf = Inl OutOfBounds"
  using assms
  by (simp add: cmd_parse_def cmd_parse_args_fault [OF cmd_parse_args_opts] cmd_parse_arg_short)

theorem cmd_parse_short_argument_witness:
  "cmd_parse (map opt_arg [In ''tcp://*:1''] @ ''x'' # []) main_defaults = Inl OutOfBounds \<and>
   cmd_parse (map opt_arg [] @ ''--c=a'' # []) main_defaults = Inl OutOfBounds"
  using cmd_parse_short_argument [of "''x''" "[In ''tcp://*:1'']" "[]" main_defaults]
    cmd_parse_short_argument [of "''--c=a''" "[]" "[]" main_defaults]
  by (simp add: short_arg_def)

end
