(* ===== verification/Lifecycle.thy ===== *)
theory Lifecycle
  imports Wineing_System Cmdline
begin

text \<open>
  Model of \<open>wineing_init\<close>, \<open>wineing_run\<close> and \<open>wineing_shutdown\<close> in
  \<^verbatim>\<open>src/main/c/impl/all/core/wineing.cc\<close> and of \<open>main\<close> in \<^verbatim>\<open>src/main/c/main.win.cc\<close>: the
  static state, initialisation, the run of the three threads until all of them are joined,
  and the release of the resources.

  The version check of the protobuf headers and the release of protobuf's own memory touch
  nothing of the state and are left out.
\<close>

subsection \<open>The state before main\<close>

text \<open>
  Five control records are initialised statically, each with a buffer of its own from
  \<open>new char[1024]\<close>.
\<close>

record buffers =
  b_global :: string
  b_in :: string
  b_out :: string
  b_market :: string
  b_callback :: string

definition buffers_ok :: "buffers \<Rightarrow> bool" where
  "buffers_ok b \<longleftrightarrow> (\<forall>d \<in> {b_global b, b_in b, b_out b, b_market b, b_callback b}.
     length d = WINEING_CTRL_DEFAULT_DATA_SIZE)"

definition shared_static :: "buffers \<Rightarrow> 'w io \<Rightarrow> 'w shared" where
  "shared_static b io = \<lparr>conc = conc_static, g_data = ctrl_init (b_global b),
     g_market_sync_mutex = MFree, g_market_sync_cond = CReady, g_hlib = None, sh_io = io\<rparr>"

subsection \<open>Initialisation, run and shutdown\<close>

definition wineing_init :: "'w env \<Rightarrow> 'w shared \<Rightarrow> (unit outcome \<times> 'w shared) res" where
  "wineing_init e sh =
     res_bind (sh_log e LOG_INFO ''Initializing wineing'' [] sh) (\<lambda>sh.
     let sh = sh\<lparr>conc := lazy_init DEFAULTS_SHARED_VERSION_INIT (conc sh)\<rparr> in
     res_bind (wininf_nxcore_load e (sh_io sh)) (\<lambda>(rc, h, i).
     let sh = sh\<lparr>g_hlib := h, sh_io := i\<rparr> in
     if rc <s 0 then
       res_bind (sh_log e LOG_ERROR ''Failed loading NxCore dll'' [] sh) (\<lambda>sh.
       Inr (Exit [] 1, sh))
     else Inr (Continue (), sh\<lparr>g_market_sync_mutex := MFree, g_market_sync_cond := CReady\<rparr>)))"

text \<open>\<open>wineing_run\<close> creates the threads and returns when all three have ended.\<close>

definition threads_start :: "buffers \<Rightarrow> 'w shared \<Rightarrow> 'w sys" where
  "threads_start b sh = sys_start (in_static (b_in b)) (out_static (b_out b))
     (mk_static (b_market b) (b_callback b)) sh"

definition all_joined :: "'w sys \<Rightarrow> bool" where
  "all_joined s \<longleftrightarrow> mk_at s = M_End \<and> out_at s = O_End \<and> in_at s = In_End"

inductive wineing_run :: "'w env \<Rightarrow> w_conf \<Rightarrow> ('w \<Rightarrow> 'w \<Rightarrow> bool) \<Rightarrow> buffers \<Rightarrow> 'w shared \<Rightarrow> 'w shared \<Rightarrow> bool"
  for e conf R b where
  "sys_run e conf R (threads_start b sh) rs s \<Longrightarrow> all_joined s \<Longrightarrow>
   wineing_run e conf R b sh (sys_sh s)"

definition wineing_shutdown :: "'w env \<Rightarrow> 'w shared \<Rightarrow> 'w shared res" where
  "wineing_shutdown e sh =
     res_bind (sh_log e LOG_INFO ''Shutting down...'' [] sh) (\<lambda>sh.
     res_bind (chan_shutdown e (sh_io sh)) (\<lambda>i.
     let sh = sh\<lparr>sh_io := i\<rparr> in
     res_bind (pthread_cond_destroy (g_market_sync_cond sh)) (\<lambda>c.
     res_bind (pthread_mutex_destroy (g_market_sync_mutex sh)) (\<lambda>m.
     let sh = sh\<lparr>g_market_sync_cond := c, g_market_sync_mutex := m,
                 sh_io := wininf_nxcore_free e (g_hlib sh) (sh_io sh)\<rparr> in
     res_bind (lazy_destroy (conc sh)) (\<lambda>s.
     sh_log e LOG_INFO ''Application shutdown successful.'' [] (sh\<lparr>conc := s\<rparr>))))))"

subsection \<open>main\<close>

definition config_args :: "w_conf \<Rightarrow> fmt_arg list res" where
  "config_args conf =
     res_bind (deref (cchan_in_fqcn conf)) (\<lambda>a.
     res_bind (deref (cchan_out_fqcn conf)) (\<lambda>b.
     res_bind (deref (mchan_fqcn conf)) (\<lambda>c.
     res_bind (deref (tape_basedir conf)) (\<lambda>d. Inr [AStr a, AStr b, AStr c, AStr d]))))"

definition log_config :: "'w env \<Rightarrow> w_conf \<Rightarrow> 'w shared \<Rightarrow> 'w shared res" where
  "log_config e conf sh =
     res_bind (sh_log e LOG_INFO ''Starting Wineing'' [] sh) (\<lambda>sh.
     sh_log_lazy e LOG_INFO
       ''Configuration is [cchan_in: %s, cchan_out: %s, mchan: %s, tape-basedir: %s]''
       (config_args conf) sh)"

text \<open>
  \<open>wineing_main e R args b io code sh\<close>: started with these arguments, the program can end
  with this exit code, leaving the shared state as \<open>sh\<close>.
\<close>

inductive wineing_main ::
    "'w env \<Rightarrow> ('w \<Rightarrow> 'w \<Rightarrow> bool) \<Rightarrow> string list \<Rightarrow> buffers \<Rightarrow> 'w io \<Rightarrow> int \<Rightarrow> 'w shared \<Rightarrow> bool"
  for e R args b io where
  main_usage: "cmd_parse args main_defaults = Inr (Exit out code) \<Longrightarrow>
    wineing_main e R args b io code (shared_static b io)"
| main_no_dll: "cmd_parse args main_defaults = Inr (Continue conf) \<Longrightarrow>
    log_config e conf (shared_static b io) = Inr sh0 \<Longrightarrow>
    wineing_init e sh0 = Inr (Exit out code, sh) \<Longrightarrow>
    wineing_main e R args b io code sh"
| main_normal: "cmd_parse args main_defaults = Inr (Continue conf) \<Longrightarrow>
    log_config e conf (shared_static b io) = Inr sh0 \<Longrightarrow>
    wineing_init e sh0 = Inr (Continue (), sh1) \<Longrightarrow>
    wineing_run e conf R b sh1 sh2 \<Longrightarrow>
    wineing_shutdown e sh2 = Inr sh \<Longrightarrow>
    wineing_main e R args b io 0 sh"

text \<open>The states the running program can be in, for a given configuration.\<close>

inductive program_state ::
    "'w env \<Rightarrow> w_conf \<Rightarrow> ('w \<Rightarrow> 'w \<Rightarrow> bool) \<Rightarrow> buffers \<Rightarrow> 'w io \<Rightarrow> Response list \<Rightarrow> 'w sys \<Rightarrow> bool"
  for e conf R b io where
  "wineing_init e (shared_static b io) = Inr (Continue (), sh) \<Longrightarrow>
   sys_run e conf R (threads_start b sh) rs s \<Longrightarrow>
   program_state e conf R b io rs s"

end
