(* ===== verification/System_Faults.thy ===== *)
theory System_Faults
  imports System_Invariant Lifecycle
begin

text \<open>
  Which steps of the running program can fault or block: none of the market thread's and
  NxCore's callbacks; of the response thread only the receive of a message that is not there
  or is too long; of the request thread only the handling of an unsafe request, the
  overflow of the version number, and the receive that waits.
\<close>

subsection \<open>Initialisation establishes the invariant\<close>

lemma init_Inr:
  assumes "wineing_init e sh = Inr (Continue (), sh')"
  shows "conc sh' = lazy_init DEFAULTS_SHARED_VERSION_INIT (conc sh) \<and> g_data sh' = g_data sh \<and>
    g_market_sync_mutex sh' = MFree \<and> g_market_sync_cond sh' = CReady"
  using assms
  by (auto simp: wineing_init_def res_simps Let_def io_only_def split: if_splits dest!: sh_log_io)

lemma ctrl_init_text: "text_ok (ctrl_init buf)" "w_cmd (ctrl_init buf) = WINEING_CTRL_CMD_INIT"
  by (simp_all add: text_ok_def ctrl_init_def)

lemma reader_ok_init:
  "length buf = WINEING_CTRL_DEFAULT_DATA_SIZE \<Longrightarrow> g_version (conc sh) = 0 \<Longrightarrow>
   reader_ok DEFAULTS_SHARED_VERSION_READ_INIT (ctrl_init buf) sh"
  by (simp add: reader_ok_def copy_ok_def wf_ctrl_init shared_versions ctrl_init_text)

lemma threads_start_inv:
  assumes "buffers_ok b" "wineing_init e (shared_static b io) = Inr (Continue (), sh)"
  shows "sys_inv (threads_start b sh)"
proof -
  have i: "conc sh = lazy_init DEFAULTS_SHARED_VERSION_INIT conc_static" "g_data sh = ctrl_init (b_global b)"
    "g_market_sync_mutex sh = MFree" "g_market_sync_cond sh = CReady"
    using init_Inr [OF assms(2)] by (simp_all add: shared_static_def)
  have v: "g_version (conc sh) = 0" "g_lock (conc sh) = MFree"
    by (simp_all add: i(1) lazy_init_def shared_versions)
  have "owner_ok (in_static (b_in b)) sh"
    using assms(1) i v
    by (simp add: owner_ok_def in_inv_def shared_ready_def cell_ready_def in_static_def
        ctrl_init_text wf_ctrl_init buffers_ok_def shared_versions)
  then show ?thesis
    using assms(1) i v
    by (simp add: sys_inv_def Let_def threads_start_def sys_start_def out_static_def mk_static_def
        nxtape_static_def in_static_def reader_ok_init buffers_ok_def ctrl_init_text)
qed

lemma program_state_inv:
  assumes "program_state e conf R b io rs s" "buffers_ok b" "recv_codes e"
  shows "sys_inv s"
  using assms(1)
proof cases
  case (1 sh)
  show ?thesis
    by (rule sys_run_invariant [where P = sys_inv, OF 1(2) threads_start_inv [OF assms(2) 1(1)]])
      (use sys_inv_step [OF assms(3)] in blast)
qed

text \<open>
  C9. The state the threads share, in every state the program can be in once its threads
  are started: the locks are free between steps; the request thread owns the version, and its
  command is the published one unless it is about to publish; no reader's version is ahead, and a reader whose version is
  current (the market thread, its callback, the response thread) has the published command
  and tape; the published data is empty or holds a terminated string.
\<close>
theorem threads_agree_on_published_state:
  assumes "program_state e conf R b io rs s" "buffers_ok b" "recv_codes e"
    and "(v, t) \<in> {(out_version (out_vars s), out_data (out_vars s)),
                   (mk_version (mk_vars s), mk_data (mk_vars s)),
                   (cb_version (mk_nx (mk_vars s)), cb_data (mk_nx (mk_vars s)))}"
  shows "shared_ready (sys_sh s) \<and> in_version (in_vars s) = g_version (conc (sys_sh s)) \<and>
     (case in_at s of In_Publish _ _ _ _ \<Rightarrow> True
        | _ \<Rightarrow> w_cmd (in_data (in_vars s)) = w_cmd (g_data (sys_sh s))) \<and>
     sint v \<le> sint (g_version (conc (sys_sh s))) \<and>
     (v = g_version (conc (sys_sh s)) \<longrightarrow> ctrl_view t = ctrl_view (g_data (sys_sh s))) \<and>
     (w_size (g_data (sys_sh s)) \<noteq> 0 \<longrightarrow> (\<exists>tape. read_cstr (w_data (g_data (sys_sh s))) = Inr tape))"
proof -
  have inv: "sys_inv s" by (rule program_state_inv [OF assms(1-3)])
  then have "w_size (g_data (sys_sh s)) \<noteq> 0 \<longrightarrow> NUL \<in> set (w_data (g_data (sys_sh s)))"
    by (auto simp: sys_inv_def Let_def owner_ok_def text_ok_def dest: in_set_takeD)
  moreover have "case in_at s of In_Publish _ _ _ _ \<Rightarrow> True
        | _ \<Rightarrow> w_cmd (in_data (in_vars s)) = w_cmd (g_data (sys_sh s))"
    using inv by (cases "in_at s") (simp_all add: sys_inv_def Let_def)
  ultimately show ?thesis using inv assms(4)
    by (auto simp: sys_inv_def Let_def owner_ok_def in_inv_def reader_ok_def copy_ok_def read_cstr_def)
qed

text \<open>
  C17. Equivalence of the optimised read with its reference: in every state of the program, for
  each of the three readers (response thread, market thread, NxCore callback), the lock-free
  test of the version followed by a copy only on a mismatch gives exactly the result of taking
  the lock and copying in any case: the same version, the same control record byte for byte,
  the same shared state.
\<close>
theorem unlocked_reads_equal_locked_reads:
  assumes "program_state e conf R b io rs s" "buffers_ok b" "recv_codes e"
    and "(v, t) \<in> {(out_version (out_vars s), out_data (out_vars s)),
                   (mk_version (mk_vars s), mk_data (mk_vars s)),
                   (cb_version (mk_nx (mk_vars s)), cb_data (mk_nx (mk_vars s)))}"
  shows "lazy_update_local_if_changed copy_shared_to_local v t (conc (sys_sh s), g_data (sys_sh s)) =
     locked_update_local copy_shared_to_local t (conc (sys_sh s), g_data (sys_sh s))"
proof (rule wctrl.unlocked_test_equiv)
  have inv: "sys_inv s" by (rule program_state_inv [OF assms(1-3)])
  then show "wctrl.cell_ok (conc (sys_sh s), g_data (sys_sh s))"
    by (auto simp: sys_inv_def Let_def wctrl_cell_ok dest!: owner_ready simp: cell_ready_def)
  show "wf_ctrl t" "v = g_version (fst (conc (sys_sh s), g_data (sys_sh s))) \<longrightarrow>
      ctrl_view t = ctrl_view (snd (conc (sys_sh s), g_data (sys_sh s)))"
    using inv assms(4) by (auto simp: sys_inv_def Let_def reader_ok_def copy_ok_def)
qed

subsection \<open>The market thread\<close>

lemma chan_bind_total:
  assumes "binds (chan_type c) \<or> connects (chan_type c)" "fqcn c = CStr name"
  shows "\<exists>rc c' io'. chan_bind e c io = Inr (rc, c', io')"
proof -
  obtain s w where s: "zmq_socket e (to_zmq_type (chan_type c)) (world io) = (s, w)" by (metis surj_pair)
  show ?thesis
  proof (cases s)
    case None
    with chan_bind_no_socket [of e c io w] s show ?thesis by auto
  next
    case (Some n)
    obtain rc w2 where "attach e (chan_type c) (Some n) name w = (rc, w2)" by (metis surj_pair)
    from chan_bind_attach [OF assms _ this] s Some show ?thesis by auto
  qed
qed

lemma valid_types [simp]:
  "binds CHAN_TYPE_PUB" "binds CHAN_TYPE_PULL_BIND" "connects CHAN_TYPE_PUSH_CONNECT"
  by (simp_all add: binds_def connects_def)

lemma log_names_total:
  "p = CStr s \<Longrightarrow> log_fine msg (map AStr (s # rest)) \<Longrightarrow>
   \<exists>out. sh_log_lazy e lv msg (str_args p rest) sh = Inr (sh\<lparr>sh_io := (sh_io sh)\<lparr>stdout := out\<rparr>\<rparr>)"
  by (rule sh_log_lazy_total) (simp add: str_args_def)

lemma log_names_error:
  "p = CStr s \<Longrightarrow> log_fine msg (map AStr (s # rest)) \<Longrightarrow>
   \<exists>sh'. sh_log_lazy e lv msg (str_args p rest) sh = Inr sh'"
  using log_names_total [of p s msg rest e lv sh] by auto

lemma market_start_total:
  assumes "mchan_fqcn conf = CStr name"
  shows "\<exists>r. market_start e conf sh = Inr r"
proof -
  obtain sh1 where l1: "sh_log_lazy e LOG_INFO ''Initializing market data thread (%s)''
      (str_args (mchan_fqcn conf) []) sh = Inr sh1"
    using log_names_error [OF assms, of "''Initializing market data thread (%s)''" "[]"]
    by (fastforce simp: log_fine_def)
  obtain rc c i where b: "chan_bind e (chan_init (mchan_fqcn conf) CHAN_TYPE_PUB) (sh_io sh1) = Inr (rc, c, i)"
    using chan_bind_total [of "chan_init (mchan_fqcn conf) CHAN_TYPE_PUB" name e "sh_io sh1"] assms
    by (auto simp: chan_init_def)
  obtain sh2 where "sh_log_lazy e LOG_ERROR ''Failed binding mchan (%s). Error [%s]''
      (str_args (mchan_fqcn conf) [chan_error e i]) (sh1\<lparr>sh_io := i\<rparr>) = Inr sh2"
    using log_names_error [OF assms, of "''Failed binding mchan (%s). Error [%s]''" "[chan_error e i]"]
    by (fastforce simp: log_fine_def)
  with l1 b show ?thesis by (simp add: market_start_def Let_def)
qed

lemma connect_total:
  assumes "push_chan c"
  shows "\<exists>rc c' io'. chan_bind e c io = Inr (rc, c', io')"
  using assms by (intro chan_bind_total) (auto simp: push_chan_def)

lemma read_cstr_total: "NUL \<in> set (take n b) \<Longrightarrow> \<exists>s. read_cstr b = Inr s"
  by (auto simp: read_cstr_def dest: in_set_takeD)

lemma market_act_total:
  assumes "text_ok t" "chan_ok c" "chan_ok o'"
  shows "\<exists>r. market_act e c o' t sh = Inr r"
proof -
  obtain tape where "w_size t \<noteq> 0 \<longrightarrow> read_cstr (w_data t) = Inr tape"
    using assms(1) read_cstr_total [of "w_size t" "w_data t"] by (auto simp: text_ok_def)
  then obtain out where "log_running e t sh = Inr (sh\<lparr>sh_io := (sh_io sh)\<lparr>stdout := out\<rparr>\<rparr>)"
    using log_running_total by blast
  moreover obtain x y where "sock c = Sock x" "sock o' = Sock y"
    using assms(2,3) by (auto simp: chan_ok_def)
  ultimately show ?thesis
    by (simp add: market_act_def sh_log_plain chan_destroy_def chan_sock_def
        wininf_nxcore_run_def log_plain Let_def)
qed

text \<open>A read always succeeds.\<close>

lemma read_total:
  assumes "cell_good sh" "reader_ok v t sh"
  shows "\<exists>t'. read_g_data v t sh = Inr (g_version (conc sh), t', sh)"
  using read_g_data_ok [of sh v t] assms by (auto simp: reader_ok_def cell_good_def)

text \<open>
  What the market thread does next: a step of its own, the return from its callback, or, inside
  NxCore, the beginning of a callback.
\<close>

definition market_next :: "'w env \<Rightarrow> w_conf \<Rightarrow> 'w sys \<Rightarrow> bool" where
  "market_next e conf s \<longleftrightarrow> (case mk_at s of
       M_Nx c o' b \<Rightarrow> \<exists>r. callback_read (mk_vars s) (sys_sh s) = Inr r
     | M_Callback c o' b mt \<Rightarrow> \<exists>r. callback_handle e mt (mk_vars s) (sys_sh s) = Inr r
     | _ \<Rightarrow> \<exists>r. market_step e conf (mk_at s) (mk_vars s) (sys_sh s) = Inr r)"

lemma market_thread_total:
  assumes "sys_inv s"
    and "mchan_fqcn conf = CStr name" "mk_at s \<noteq> M_End"
  shows "market_next e conf s"
proof -
  let ?sh = "sys_sh s" and ?l = "mk_vars s"
  have inv: "cell_good ?sh" "reader_ok (mk_version ?l) (mk_data ?l) ?sh"
      "reader_ok (cb_version (mk_nx ?l)) (cb_data (mk_nx ?l)) ?sh" "mk_pc_inv (mk_at s) (mk_nx ?l)"
    using assms(1) sys_inv_cell [OF assms(1)] by (auto simp: sys_inv_def Let_def)
  show ?thesis
  proof (cases "mk_at s")
    case M_Start
    obtain r where "market_start e conf ?sh = Inr r"
      using market_start_total [OF assms(2)] by blast
    with M_Start show ?thesis by (cases r) (simp add: market_step_def market_next_def)
  next
    case (M_Connect c o')
    with inv(4) obtain rc c' io' where "chan_bind e o' (sh_io ?sh) = Inr (rc, c', io')"
      using connect_total [of o' e "sh_io ?sh"] by auto
    with M_Connect show ?thesis by (simp add: market_step_def market_next_def market_connect_def Let_def)
  next
    case (M_Loop c o')
    with read_total [OF inv(1,2)] show ?thesis by (auto simp: market_step_def market_read_def market_next_def)
  next
    case (M_Test c o')
    with inv(2,4) obtain r where "market_act e c o' (mk_data ?l) ?sh = Inr r"
      using market_act_total [of "mk_data ?l" c o' e ?sh] by (auto simp: reader_ok_def)
    with M_Test show ?thesis by (cases r) (simp add: market_step_def market_next_def)
  next
    case (M_Nx c o' buf)
    with read_total [OF inv(1,3)] show ?thesis by (auto simp: market_next_def callback_read_eq)
  next
    case (M_Callback c o' buf mt)
    with inv(4) nxtape_handle_eq [of "mk_nx ?l" e mt "sh_io ?sh"] show ?thesis
      by (auto simp: market_next_def callback_handle_def)
  next
    case M_End
    with assms(3) show ?thesis by simp
  qed
qed

text \<open>
  C10. The market thread and NxCore's callback never fault and never block on a lock: in every
  state the program can be in, as long as the market thread has not ended, its next step
  returns; while NxCore runs, the callback's read of the published command returns, and so
  does its handling of every message. This includes reading the tape name out of the buffer.
\<close>
theorem market_thread_never_faults:
  assumes "program_state e conf R b io rs s" "buffers_ok b" "recv_codes e"
    and "mchan_fqcn conf = CStr name" "mk_at s \<noteq> M_End"
  shows "case mk_at s of
       M_Nx c o' b \<Rightarrow> \<exists>r. callback_read (mk_vars s) (sys_sh s) = Inr r
     | M_Callback c o' b mt \<Rightarrow> \<exists>r. callback_handle e mt (mk_vars s) (sys_sh s) = Inr r
     | _ \<Rightarrow> \<exists>r. market_step e conf (mk_at s) (mk_vars s) (sys_sh s) = Inr r"
  using market_thread_total [OF program_state_inv [OF assms(1-3)] assms(4-5)]
  unfolding market_next_def .

subsection \<open>The response thread\<close>

lemma log_two_total:
  assumes "log_fine msg [AStr a, AStr b]"
  shows "\<exists>sh'. sh_log e lv msg [AStr a, AStr b] sh = Inr sh'"
  using sh_log_total [of e lv msg "[AStr a, AStr b]" sh] assms by auto

lemma out_start_total:
  assumes "cchan_out_fqcn conf = CStr name"
  shows "\<exists>r. out_start e conf sh = Inr r"
proof -
  obtain sh1 where l1: "sh_log_lazy e LOG_INFO ''Initializing control_out thread (%s)''
      (str_args (cchan_out_fqcn conf) []) sh = Inr sh1"
    using log_names_error [OF assms, of "''Initializing control_out thread (%s)''" "[]"]
    by (fastforce simp: log_fine_def)
  obtain rc c i where b: "chan_bind e (chan_init (cchan_out_fqcn conf) CHAN_TYPE_PUB) (sh_io sh1) = Inr (rc, c, i)"
    using chan_bind_total [of "chan_init (cchan_out_fqcn conf) CHAN_TYPE_PUB" name e "sh_io sh1"] assms
    by (auto simp: chan_init_def)
  obtain rc2 c2 j where b2: "chan_bind e (chan_init (CStr DEFAULTS_ICHAN_NAME) CHAN_TYPE_PULL_BIND) i = Inr (rc2, c2, j)"
    using chan_bind_total [of "chan_init (CStr DEFAULTS_ICHAN_NAME) CHAN_TYPE_PULL_BIND" DEFAULTS_ICHAN_NAME e i]
    by (auto simp: chan_init_def)
  obtain sh2 where l2: "sh_log_lazy e LOG_ERROR ''Failed binding cchan_out (%s). Error [%s]''
      (str_args (cchan_out_fqcn conf) [chan_error e i]) (sh1\<lparr>sh_io := i\<rparr>) = Inr sh2"
    using log_names_error [OF assms, of "''Failed binding cchan_out (%s). Error [%s]''" "[chan_error e i]"]
    by (fastforce simp: log_fine_def)
  obtain sh3 where "sh_log e LOG_ERROR ''Failed binding to cchan_in_mem (%s). Error [%s]''
      [AStr DEFAULTS_ICHAN_NAME, AStr (chan_error e j)] (sh1\<lparr>sh_io := j\<rparr>) = Inr sh3"
    using log_two_total [of "''Failed binding to cchan_in_mem (%s). Error [%s]''"]
    by (fastforce simp: log_fine_def)
  with l1 b b2 l2 show ?thesis by (simp add: out_start_def Let_def)
qed

lemma out_test_total:
  assumes "chan_ok c" "chan_ok m"
  shows "\<exists>r. out_test e c m t sh = Inr r"
proof -
  obtain x y where "sock c = Sock x" "sock m = Sock y"
    using assms by (auto simp: chan_ok_def)
  then show ?thesis
    by (auto simp: out_test_def sh_log_plain chan_destroy_def chan_sock_def Let_def)
qed

lemma out_send_total:
  assumes "chan_ok c" "0 \<le> sint n" "nat (sint n) \<le> length b"
  shows "\<exists>r. out_send e c m b n sh = Inr r"
proof -
  obtain x where x: "sock c = Sock x" using assms(1) by (auto simp: chan_ok_def)
  obtain rc i where s: "chan_send e c b (size_t_of_int n) True (sh_io sh) = Inr (rc, i)"
    using x assms(2,3) by (simp add: chan_send_def chan_sock_def size_t_of_int_nonneg on_world_def)
      (metis surj_pair)
  obtain sh2 where "sh_log e LOG_WARN ''Sending control message failed. Error %s''
      [AStr (chan_error e i)] (sh\<lparr>sh_io := i\<rparr>) = Inr sh2"
    using sh_log_total [of e LOG_WARN "''Sending control message failed. Error %s''"
        "[AStr (chan_error e i)]" "sh\<lparr>sh_io := i\<rparr>"] by (auto simp: log_fine_def)
  with s show ?thesis by (simp add: out_send_def Let_def)
qed

lemma mem_recv_fault:
  assumes "chan_recv e m cchan_in_mem_copy (replicate OUT_BUFFER_SIZE NUL) io = Inl f" "sock m = Sock z"
  shows "zmq_recv e z (world io) = None \<and> f = WouldBlock \<or>
    (\<exists>d w. zmq_recv e z (world io) = Some (0, d, w) \<and> OUT_BUFFER_SIZE < length d \<and> f = OutOfBounds)"
proof (cases "zmq_recv e z (world io)")
  case None
  with assms show ?thesis by (simp add: chan_recv_def chan_sock_def)
next
  case (Some x)
  obtain r d w where x: "x = (r, d, w)" by (metis prod_cases3)
  show ?thesis
  proof (cases "r = 0")
    case False
    with Some x assms show ?thesis by (simp add: chan_recv_def chan_sock_def)
  next
    case True
    note Some = Some [unfolded x True]
    have big: "OUT_BUFFER_SIZE < length d"
    proof (rule ccontr)
      assume "\<not> OUT_BUFFER_SIZE < length d"
      then have "length d \<le> OUT_BUFFER_SIZE" "length d < 2147483648"
        by (simp_all add: OUT_BUFFER_SIZE_def)
      with chan_recv_message [OF assms(2) Some, of cchan_in_mem_copy "replicate OUT_BUFFER_SIZE NUL"] assms(1)
      show False by (simp add: mem_copy_fits)
    qed
    have "f = OutOfBounds"
      using assms Some by (auto simp: chan_recv_def chan_sock_def cchan_in_mem_copy_def memcpy_def
          Let_def split: if_splits)
    with big Some show ?thesis by simp
  qed
qed

lemma out_recv_fault:
  assumes "res_bind (out_recv e c m sh) (\<lambda>(p, sh). Inr (p, l, sh)) = Inl f"
  shows "chan_recv e m cchan_in_mem_copy (replicate OUT_BUFFER_SIZE NUL) (sh_io sh) = Inl f"
proof (cases "chan_recv e m cchan_in_mem_copy (replicate OUT_BUFFER_SIZE NUL) (sh_io sh)")
  case (Inl g)
  with assms show ?thesis by (simp add: out_recv_def)
next
  case (Inr x)
  obtain n b i where x: "x = (n, b, i)" by (metis prod_cases3)
  obtain sh2 where "sh_log e LOG_WARN ''Failed reading message from inproc channel (%s). Error %s''
       [AStr DEFAULTS_ICHAN_NAME, AStr (chan_error e i)] (sh\<lparr>sh_io := i\<rparr>) = Inr sh2"
    using log_two_total [of "''Failed reading message from inproc channel (%s). Error %s''"]
    by (fastforce simp: log_fine_def)
  with Inr x assms show ?thesis by (simp add: out_recv_def Let_def split: if_splits)
qed

lemma response_thread_total:
  assumes "sys_inv s"
    and "cchan_out_fqcn conf = CStr name" "out_at s \<noteq> O_End"
    and "out_step e conf (out_at s) (out_vars s) (sys_sh s) = Inl f"
  shows "\<exists>c m z. out_at s = O_Recv c m \<and> sock m = Sock z \<and>
    (zmq_recv e z (world (sh_io (sys_sh s))) = None \<and> f = WouldBlock \<or>
     (\<exists>d w. zmq_recv e z (world (sh_io (sys_sh s))) = Some (0, d, w) \<and>
        OUT_BUFFER_SIZE < length d \<and> f = OutOfBounds))"
proof -
  let ?sh = "sys_sh s" and ?l = "out_vars s"
  have inv: "cell_good ?sh" "reader_ok (out_version ?l) (out_data ?l) ?sh" "out_pc_inv (out_at s)"
    using assms(1) sys_inv_cell [OF assms(1)] by (auto simp: sys_inv_def Let_def)
  show ?thesis
  proof (cases "out_at s")
    case O_Start
    obtain r where "out_start e conf ?sh = Inr r"
      using out_start_total [OF assms(2)] by blast
    with assms(4) O_Start show ?thesis by (cases r) (simp add: out_step_def)
  next
    case (O_Loop c m)
    with read_total [OF inv(1,2)] assms(4) show ?thesis by (auto simp: out_step_def out_read_def)
  next
    case (O_Test c m)
    then have "chan_ok c" "chan_ok m" using inv(3) by simp_all
    from out_test_total [OF this] obtain r where "out_test e c m (out_data ?l) ?sh = Inr r" by blast
    with assms(4) O_Test show ?thesis by (cases r) (simp add: out_step_def)
  next
    case (O_Recv c m)
    then obtain z where z: "sock m = Sock z" using inv(3) by (auto simp: chan_ok_def)
    have "chan_recv e m cchan_in_mem_copy (replicate OUT_BUFFER_SIZE NUL) (sh_io ?sh) = Inl f"
      by (rule out_recv_fault) (use assms(4) O_Recv in \<open>simp add: out_step_def\<close>)
    from mem_recv_fault [OF this z] O_Recv z show ?thesis by simp
  next
    case (O_Send c m d n)
    with inv(3) obtain r where "out_send e c m d n ?sh = Inr r"
      using out_send_total [of c n d e m ?sh] by auto
    with O_Send assms(4) show ?thesis by (cases r) (simp add: out_step_def)
  next
    case O_End
    with assms(3) show ?thesis by simp
  qed
qed

text \<open>
  C21. The response thread, in every state the program can be in, can fail at one place only:
  the receive from the inproc channel, where it waits if there is no message, and writes past
  its buffer if the message is longer than 1024 bytes. Every other step returns.
\<close>
theorem response_thread_faults:
  assumes "program_state e conf R b io rs s" "buffers_ok b" "recv_codes e"
    and "cchan_out_fqcn conf = CStr name" "out_at s \<noteq> O_End"
    and "out_step e conf (out_at s) (out_vars s) (sys_sh s) = Inl f"
  shows "\<exists>c m z. out_at s = O_Recv c m \<and> sock m = Sock z \<and>
    (zmq_recv e z (world (sh_io (sys_sh s))) = None \<and> f = WouldBlock \<or>
     (\<exists>d w. zmq_recv e z (world (sh_io (sys_sh s))) = Some (0, d, w) \<and>
        OUT_BUFFER_SIZE < length d \<and> f = OutOfBounds))"
  by (rule response_thread_total [OF program_state_inv [OF assms(1-3)] assms(4-6)])

subsection \<open>The request thread\<close>

lemma in_start_total:
  assumes "cchan_in_fqcn conf = CStr name"
  shows "\<exists>r. in_start e conf sh = Inr r"
proof -
  obtain sh1 where l1: "sh_log_lazy e LOG_INFO ''Initializing control_in thread (%s)''
      (str_args (cchan_in_fqcn conf) []) sh = Inr sh1"
    using log_names_error [OF assms, of "''Initializing control_in thread (%s)''" "[]"]
    by (fastforce simp: log_fine_def)
  obtain rc c i where b: "chan_bind e (chan_init (cchan_in_fqcn conf) CHAN_TYPE_PULL_BIND) (sh_io sh1) = Inr (rc, c, i)"
    using chan_bind_total [of "chan_init (cchan_in_fqcn conf) CHAN_TYPE_PULL_BIND" name e "sh_io sh1"] assms
    by (auto simp: chan_init_def)
  obtain sh2 where "sh_log_lazy e LOG_ERROR ''Failed binding to cchan_in (%s). Error [%s]''
      (str_args (cchan_in_fqcn conf) [chan_error e i]) (sh1\<lparr>sh_io := i\<rparr>) = Inr sh2"
    using log_names_error [OF assms, of "''Failed binding to cchan_in (%s). Error [%s]''" "[chan_error e i]"]
    by (fastforce simp: log_fine_def)
  with l1 b show ?thesis by (simp add: in_start_def Let_def)
qed

lemma reply_total:
  assumes "chan_ok o'"
  shows "\<exists>r. cchan_in_reply e o' res sh = Inr r"
proof -
  obtain x where x: "sock o' = Sock x" using assms by (auto simp: chan_ok_def)
  obtain rc i where s: "chan_send e o' (SerializeResponse e res) (length (SerializeResponse e res)) True
      (sh_io sh) = Inr (rc, i)"
    by (simp add: chan_send_all [OF x]) (metis surj_pair)
  obtain sh2 where "sh_log e LOG_WARN ''Failed sending message to inproc channel (%s). Error %s''
      [AStr DEFAULTS_ICHAN_NAME, AStr (chan_error e i)] (sh\<lparr>sh_io := i\<rparr>) = Inr sh2"
    using log_two_total [of "''Failed sending message to inproc channel (%s). Error %s''"]
    by (fastforce simp: log_fine_def)
  with s show ?thesis by (simp add: cchan_in_reply_def Let_def)
qed

text \<open>The parser callback logs, and never faults.\<close>

lemma recv_ctrl_total: "\<exists>rc r io'. recv_ctrl e d n obj io = Inr (rc, r, io')"
  by (auto simp: recv_ctrl_def log_plain split: option.split)

lemma ctrl_recv_fault:
  assumes "chan_recv e c (recv_ctrl e) obj io = Inl f" "sock c = Sock z"
  shows "zmq_recv e z (world io) = None \<and> f = WouldBlock"
proof (cases "zmq_recv e z (world io)")
  case None
  with assms show ?thesis by (simp add: chan_recv_def chan_sock_def)
next
  case (Some x)
  obtain r d w where x: "x = (r, d, w)" by (metis prod_cases3)
  obtain rc q i where "recv_ctrl e d (size_t_of_int (word_of_nat (length d))) obj (io\<lparr>world := w\<rparr>) = Inr (rc, q, i)"
    using recv_ctrl_total by blast
  with Some x assms show ?thesis by (simp add: chan_recv_def chan_sock_def Let_def split: if_splits)
qed

text \<open>The three faults of the request thread, each at its program point.\<close>

definition request_fault :: "'w env \<Rightarrow> string \<Rightarrow> fault \<Rightarrow> 'w sys \<Rightarrow> bool" where
  "request_fault e base f s \<longleftrightarrow> (case in_at s of
       In_Loop c o' \<Rightarrow> f = WouldBlock \<and>
         (\<exists>z. sock c = Sock z \<and> zmq_recv e z (world (sh_io (sys_sh s))) = None)
     | In_Handle c o' req \<Rightarrow> f \<in> {OutOfBounds, BadFormat} \<and> \<not> safe_request e base req (in_vars s) (sys_sh s)
     | In_Publish c o' res sig \<Rightarrow> f = SignedOverflow \<and> g_version (conc (sys_sh s)) = INT_MAX
     | _ \<Rightarrow> False)"

lemma in_turn_fault:
  assumes "in_turn e c o' l sh = Inl f" "sock c = Sock z" "sock o' = Sock y"
  shows "f = WouldBlock \<and> zmq_recv e z (world (sh_io sh)) = None"
proof -
  have lt: "WINEING_CTRL_CMD_SHUTDOWN <s w_cmd (in_data l)"
  proof (rule ccontr)
    assume "\<not> WINEING_CTRL_CMD_SHUTDOWN <s w_cmd (in_data l)"
    with assms show False by (simp add: in_turn_def chan_destroy_def chan_sock_def sh_log_plain)
  qed
  show ?thesis
  proof (cases "chan_recv e c (recv_ctrl e) Request_Clear (sh_io sh)")
    case (Inl g)
    with ctrl_recv_fault [OF Inl assms(2)] assms(1) show ?thesis
      unfolding in_turn_receives [OF lt] by simp
  next
    case (Inr x)
    with assms(1) show ?thesis unfolding in_turn_receives [OF lt] by (cases x) simp
  qed
qed

lemma request_thread_total:
  assumes "sys_inv s"
    and "cchan_in_fqcn conf = CStr name" "tape_basedir conf = CStr base" "in_at s \<noteq> In_End"
    and "in_step e conf (in_at s) (in_vars s) (sys_sh s) = Inl f"
  shows "request_fault e base f s"
proof -
  let ?sh = "sys_sh s" and ?l = "in_vars s"
  have inv: "owner_ok ?l ?sh" "in_inv ?l ?sh"
      "in_pc_inv (in_at s) (w_cmd (in_data ?l)) (w_cmd (g_data ?sh))"
    using assms(1) by (auto simp: sys_inv_def Let_def owner_ok_def)
  show ?thesis
  proof (cases "in_at s")
    case In_Start
    obtain r where "in_start e conf ?sh = Inr r"
      using in_start_total [OF assms(2)] by blast
    with assms(5) In_Start show ?thesis by (cases r) (simp add: in_step_def)
  next
    case (In_Connect c o')
    with inv(3) obtain rc c' io' where "chan_bind e o' (sh_io ?sh) = Inr (rc, c', io')"
      using connect_total [of o' e "sh_io ?sh"] by auto
    with In_Connect assms(5) show ?thesis
      by (simp add: in_step_def in_connect_def Let_def sh_log_plain split: if_splits)
  next
    case (In_Loop c o')
    with inv(3) obtain z y where z: "sock c = Sock z" "sock o' = Sock y" by (auto simp: chan_ok_def)
    have "in_turn e c o' ?l ?sh = Inl f"
      using assms(5) In_Loop by (cases "in_turn e c o' ?l ?sh") (auto simp: in_step_def)
    from in_turn_fault [OF this z] In_Loop z show ?thesis by (simp add: request_fault_def)
  next
    case (In_Handle c o' req)
    have f: "cchan_in_switch e conf req ?l ?sh = Inl f"
      using assms(5) In_Handle
      by (cases "cchan_in_switch e conf req ?l ?sh") (auto simp: in_step_def in_dispatch_def)
    then have "\<not> safe_request e base req ?l ?sh"
      using switch_safe [OF inv(2) assms(3)] by fastforce
    with switch_unsafe [OF inv(2) assms(3) this] f In_Handle show ?thesis
      by (auto simp: request_fault_def)
  next
    case (In_Publish c o' res sig)
    have f: "publish_data ?l ?sh = Inl f"
      using assms(5) In_Publish by (cases "publish_data ?l ?sh") (auto simp: in_step_def)
    then have "g_version (conc ?sh) = INT_MAX"
      using publish_cmd_ok [OF inv(2), of "w_cmd (in_data ?l)"] by (auto simp: publish_data_cmd)
    with f publish_cmd_overflow [OF inv(2) this] In_Publish show ?thesis
      by (auto simp: request_fault_def publish_data_cmd)
  next
    case (In_Signal c o' res)
    with assms(5) signal_market_inv [OF inv(2)] show ?thesis by (simp add: in_step_def)
  next
    case (In_Reply c o' r)
    with inv(3) obtain q where "cchan_in_reply e o' r ?sh = Inr q"
      using reply_total [of o' e r ?sh] by auto
    with In_Reply assms(5) show ?thesis by (simp add: in_step_def)
  next
    case In_End
    with assms(4) show ?thesis by simp
  qed
qed

text \<open>
  C20. The request thread, in every state the program can be in, can fail in three ways only: in
  its receive, where it waits if there is no request; in the handling of a request that is
  unsafe (a tape path that does not fit, or a missing tape whose message is no valid format);
  and in publishing when the version number has its largest value. Every other step returns.
\<close>
theorem request_thread_faults:
  assumes "program_state e conf R b io rs s" "buffers_ok b" "recv_codes e"
    and "cchan_in_fqcn conf = CStr name" "tape_basedir conf = CStr base" "in_at s \<noteq> In_End"
    and "in_step e conf (in_at s) (in_vars s) (sys_sh s) = Inl f"
  shows "case in_at s of
       In_Loop c o' \<Rightarrow> f = WouldBlock \<and>
         (\<exists>z. sock c = Sock z \<and> zmq_recv e z (world (sh_io (sys_sh s))) = None)
     | In_Handle c o' req \<Rightarrow> f \<in> {OutOfBounds, BadFormat} \<and> \<not> safe_request e base req (in_vars s) (sys_sh s)
     | In_Publish c o' res sig \<Rightarrow> f = SignedOverflow \<and> g_version (conc (sys_sh s)) = INT_MAX
     | _ \<Rightarrow> False"
  using request_thread_total [OF program_state_inv [OF assms(1-3)] assms(4-7)]
  unfolding request_fault_def .

end
