(* ===== verification/System_Shutdown.thy ===== *)
theory System_Shutdown
  imports System_Faults
begin

text \<open>
  The end of the program: SHUTDOWN is final, the threads then need at most twelve more steps,
  they can take them unless they wait for a message or for the inproc channel, the resources
  are released without a fault, and the last response may be lost.
\<close>

subsection \<open>SHUTDOWN is final\<close>

lemma final_step:
  assumes "recv_codes e" "sys_inv s" "sys_step e conf R s a s'"
    and "w_cmd (g_data (sys_sh s)) = WINEING_CTRL_CMD_SHUTDOWN"
  shows "sys_inv s' \<and> conc (sys_sh s') = conc (sys_sh s) \<and> g_data (sys_sh s') = g_data (sys_sh s)"
  using sys_inv_step [OF assms(1-3)] assms(4) by (auto simp: final_kept_def dest: io_onlyD)

lemma final_run:
  assumes "sys_run e conf R s rs s'" "recv_codes e" "sys_inv s"
    and "w_cmd (g_data (sys_sh s)) = WINEING_CTRL_CMD_SHUTDOWN"
  shows "sys_inv s' \<and> conc (sys_sh s') = conc (sys_sh s) \<and> g_data (sys_sh s') = g_data (sys_sh s)"
  using assms(1) by (rule sys_run_invariant) (use assms(2-4) final_step in \<open>simp, metis\<close>)

text \<open>
  C22. SHUTDOWN is final: once it is the published command, no thread publishes anything any
  more, whatever requests arrive; version and control record stay as they are.
\<close>
theorem shutdown_is_final:
  assumes "program_state e conf R b io rs s" "buffers_ok b" "recv_codes e"
    and "w_cmd (g_data (sys_sh s)) = WINEING_CTRL_CMD_SHUTDOWN" "sys_run e conf R s rs' s'"
  shows "g_data (sys_sh s') = g_data (sys_sh s) \<and> conc (sys_sh s') = conc (sys_sh s)"
  using final_run [OF assms(5,3) program_state_inv [OF assms(1-3)] assms(4)] by simp

subsection \<open>How many steps are left\<close>

fun in_rank :: "in_pc \<Rightarrow> nat" where
  "in_rank (In_Signal _ _ _) = 3" | "in_rank (In_Reply _ _ _) = 2" | "in_rank (In_Loop _ _) = 1"
| "in_rank _ = 0"

text \<open>
  A thread that read the command before SHUTDOWN was published goes through its loop once more.
\<close>

fun out_rank :: "o_pc \<Rightarrow> c_int \<Rightarrow> nat" where
  "out_rank (O_Test _ _) c = (if c = WINEING_CTRL_CMD_SHUTDOWN then 1 else 5)"
| "out_rank (O_Recv _ _) c = 4" | "out_rank (O_Send _ _ _ _) c = 3" | "out_rank O_Start c = 3"
| "out_rank (O_Loop _ _) c = 2" | "out_rank O_End c = 0"

fun mk_rank :: "m_pc \<Rightarrow> c_int \<Rightarrow> nat" where
  "mk_rank (M_Test _ _) c = (if c = WINEING_CTRL_CMD_SHUTDOWN then 1 else 4)"
| "mk_rank M_Start c = 4" | "mk_rank (M_Connect _ _) c = 3" | "mk_rank (M_Nx _ _ _) c = 3"
| "mk_rank (M_Callback _ _ _ _) c = 3" | "mk_rank (M_Loop _ _) c = 2" | "mk_rank M_End c = 0"

definition sys_rank :: "'w sys \<Rightarrow> nat" where
  "sys_rank s = in_rank (in_at s) + out_rank (out_at s) (w_cmd (out_data (out_vars s))) +
     mk_rank (mk_at s) (w_cmd (mk_data (mk_vars s)))"

lemma rank_bounds: "in_rank p \<le> 3" "out_rank q c \<le> 5" "mk_rank r c \<le> 4"
proof -
  show "in_rank p \<le> 3" by (cases p) simp_all
  show "out_rank q c \<le> 5" by (cases q) simp_all
  show "mk_rank r c \<le> 4" by (cases r) simp_all
qed

lemma sys_rank_bound: "sys_rank s \<le> 12"
  using rank_bounds(1) [of "in_at s"] rank_bounds(2) [of "out_at s" "w_cmd (out_data (out_vars s))"]
    rank_bounds(3) [of "mk_at s" "w_cmd (mk_data (mk_vars s))"]
  unfolding sys_rank_def by linarith

text \<open>
  Steps that do not count: the outside world, callbacks of NxCore, and failed attempts of the
  market thread to connect to the inproc channel.
\<close>

definition connecting :: "m_pc \<Rightarrow> bool" where
  "connecting p \<longleftrightarrow> (case p of M_Connect _ _ \<Rightarrow> True | _ \<Rightarrow> False)"

lemma connecting_rank: "connecting p \<Longrightarrow> mk_rank p c = 3"
  by (cases p) (simp_all add: connecting_def)

definition idle_step :: "'w sys \<Rightarrow> action \<Rightarrow> 'w sys \<Rightarrow> bool" where
  "idle_step s a s' \<longleftrightarrow> a = Act_World \<or> (\<exists>mt. a = Act_Callback mt) \<or> (\<exists>ret. a = Act_Answer ret) \<or>
     (a = Act_Market \<and> connecting (mk_at s) \<and> connecting (mk_at s'))"

inductive counted_run :: "'w env \<Rightarrow> w_conf \<Rightarrow> ('w \<Rightarrow> 'w \<Rightarrow> bool) \<Rightarrow> 'w sys \<Rightarrow> nat \<Rightarrow> 'w sys \<Rightarrow> bool"
  for e conf R where
  counted_refl: "counted_run e conf R s 0 s"
| counted_idle: "counted_run e conf R s n s' \<Longrightarrow> sys_step e conf R s' a s'' \<Longrightarrow> idle_step s' a s'' \<Longrightarrow>
    counted_run e conf R s n s''"
| counted_step: "counted_run e conf R s n s' \<Longrightarrow> sys_step e conf R s' a s'' \<Longrightarrow> \<not> idle_step s' a s'' \<Longrightarrow>
    counted_run e conf R s (Suc n) s''"

lemma in_step_rank:
  assumes "in_step e conf p l sh = Inr (p', l', sh')"
    and "in_pc_inv p (w_cmd (in_data l)) (w_cmd (g_data sh))"
    and "w_cmd (g_data sh) = WINEING_CTRL_CMD_SHUTDOWN"
  shows "in_rank p' < in_rank p"
proof (cases p)
  case (In_Loop c o')
  with assms(1) have "in_turn e c o' l sh = Inr (p', sh')" by (auto simp: in_step_def res_simps)
  from in_turn_Inr [OF this] assms(2,3) In_Loop show ?thesis by simp
next
  case (In_Signal c o' r)
  with assms(1) show ?thesis by (auto simp: in_step_def res_simps)
next
  case (In_Reply c o' r)
  with assms(1) show ?thesis by (auto simp: in_step_def res_simps)
qed (use assms in \<open>auto simp: in_step_def ctrl_cmds\<close>)

lemma out_step_rank:
  assumes "out_step e conf p l sh = Inr (p', l', sh')" "cell_good sh"
    and "reader_ok (out_version l) (out_data l) sh" "w_cmd (g_data sh) = WINEING_CTRL_CMD_SHUTDOWN"
  shows "out_rank p' (w_cmd (out_data l')) < out_rank p (w_cmd (out_data l))"
proof (cases p)
  case O_Start
  with assms(1) show ?thesis
    by (auto simp: out_step_def out_start_def res_simps Let_def split: if_splits)
next
  case (O_Loop c m)
  with assms(1) have "out_read l sh = Inr (l', sh')" "p' = O_Test c m"
    by (auto simp: out_step_def res_simps)
  with out_read_Inr [OF this(1) assms(2,3)] assms(4) O_Loop show ?thesis
    by (auto dest: ctrl_view_eqD)
next
  case (O_Test c m)
  with assms(1) show ?thesis
    by (auto simp: out_step_def out_test_def res_simps split: if_splits)
next
  case (O_Recv c m)
  with assms(1) show ?thesis
    by (auto simp: out_step_def out_recv_def res_simps Let_def split: if_splits)
next
  case (O_Send c m b n)
  with assms(1) show ?thesis
    by (auto simp: out_step_def out_send_def res_simps Let_def split: if_splits)
next
  case O_End
  with assms(1) show ?thesis by (simp add: out_step_def)
qed

lemma market_step_rank:
  assumes "market_step e conf p l sh = Inr (p', l', sh')" "cell_good sh"
    and "reader_ok (mk_version l) (mk_data l) sh" "w_cmd (g_data sh) = WINEING_CTRL_CMD_SHUTDOWN"
  shows "mk_rank p' (w_cmd (mk_data l')) < mk_rank p (w_cmd (mk_data l)) \<or>
    mk_rank p' (w_cmd (mk_data l')) = mk_rank p (w_cmd (mk_data l)) \<and> connecting p \<and> connecting p'"
proof (cases p)
  case M_Start
  with assms(1) show ?thesis
    by (auto simp: market_step_def market_start_def res_simps Let_def split: if_splits)
next
  case (M_Connect c o')
  with assms(1) show ?thesis
    by (auto simp: market_step_def market_connect_def res_simps Let_def connecting_def split: if_splits)
next
  case (M_Loop c o')
  with assms(1) have "market_read l sh = Inr (l', sh')" "p' = M_Test c o'"
    by (auto simp: market_step_def res_simps)
  with market_read_Inr [OF this(1) assms(2,3)] assms(4) M_Loop show ?thesis
    by (auto dest: ctrl_view_eqD)
next
  case (M_Test c o')
  with assms(1) show ?thesis
    by (auto simp: market_step_def market_act_def res_simps Let_def ctrl_cmds split: if_splits)
qed (use assms(1) in \<open>simp_all add: market_step_def\<close>)

lemma rank_step:
  assumes "sys_inv s" "sys_step e conf R s a s'"
    and "w_cmd (g_data (sys_sh s)) = WINEING_CTRL_CMD_SHUTDOWN"
  shows "if idle_step s a s' then sys_rank s' = sys_rank s else sys_rank s' < sys_rank s"
proof -
  let ?sh = "sys_sh s"
  have inv: "cell_good ?sh" "in_pc_inv (in_at s) (w_cmd (in_data (in_vars s))) (w_cmd (g_data ?sh))"
      "reader_ok (out_version (out_vars s)) (out_data (out_vars s)) ?sh"
      "reader_ok (mk_version (mk_vars s)) (mk_data (mk_vars s)) ?sh"
      "reader_ok (cb_version (mk_nx (mk_vars s))) (cb_data (mk_nx (mk_vars s))) ?sh"
    using assms(1) sys_inv_cell [OF assms(1)] by (auto simp: sys_inv_def Let_def)
  show ?thesis
    using assms(2)
  proof cases
    case (step_in p l sh)
    with in_step_rank [OF step_in(3) inv(2) assms(3)] show ?thesis
      by (simp add: sys_rank_def idle_step_def)
  next
    case (step_out p l sh)
    with out_step_rank [OF step_out(3) inv(1,3) assms(3)] show ?thesis
      by (simp add: sys_rank_def idle_step_def)
  next
    case (step_market p l sh)
    note r = market_step_rank [OF step_market(3) inv(1,4) assms(3)]
    show ?thesis
    proof (cases "connecting (mk_at s) \<and> connecting p")
      case True
      with step_market(2) connecting_rank [of "mk_at s"] connecting_rank [of p] step_market(1) show ?thesis
        by (simp add: sys_rank_def idle_step_def)
    next
      case False
      with r step_market(1,2) show ?thesis by (simp add: sys_rank_def idle_step_def)
    qed
  next
    case (step_callback c o' b l sh mt)
    with callback_read_Inr [OF step_callback(4) inv(1,5)] show ?thesis
      by (simp add: sys_rank_def idle_step_def)
  qed (simp_all add: sys_rank_def idle_step_def)
qed

lemma counted_rank:
  assumes "counted_run e conf R s n s'" "recv_codes e" "sys_inv s"
    and "w_cmd (g_data (sys_sh s)) = WINEING_CTRL_CMD_SHUTDOWN"
  shows "sys_inv s' \<and> w_cmd (g_data (sys_sh s')) = WINEING_CTRL_CMD_SHUTDOWN \<and>
    n + sys_rank s' \<le> sys_rank s"
  using assms(1,3,4)
proof (induction rule: counted_run.induct)
  case (counted_refl s)
  then show ?case by simp
next
  case (counted_idle s n s' a s'')
  then have i: "sys_inv s'" "w_cmd (g_data (sys_sh s')) = WINEING_CTRL_CMD_SHUTDOWN"
    "n + sys_rank s' \<le> sys_rank s" by simp_all
  from final_step [OF assms(2) i(1) counted_idle(2) i(2)] rank_step [OF i(1) counted_idle(2) i(2)]
    counted_idle(3) i show ?case by simp
next
  case (counted_step s n s' a s'')
  then have i: "sys_inv s'" "w_cmd (g_data (sys_sh s')) = WINEING_CTRL_CMD_SHUTDOWN"
    "n + sys_rank s' \<le> sys_rank s" by simp_all
  from final_step [OF assms(2) i(1) counted_step(2) i(2)] rank_step [OF i(1) counted_step(2) i(2)]
    counted_step(3) i show ?case by simp
qed

text \<open>
  C18. Bounded shutdown: after SHUTDOWN is published the three threads together take at most
  twelve more steps, whatever the schedule and whatever messages arrive, not counting failed
  attempts of the market thread to connect and callbacks NxCore makes before it returns; and
  when the count of steps left is down to 0 all threads have ended.
\<close>
theorem shutdown_takes_twelve_steps:
  assumes "program_state e conf R b io rs s" "buffers_ok b" "recv_codes e"
    and "w_cmd (g_data (sys_sh s)) = WINEING_CTRL_CMD_SHUTDOWN" "counted_run e conf R s n s'"
  shows "n + sys_rank s' \<le> 12 \<and> (sys_rank s' = 0 \<longrightarrow> all_joined s')"
proof -
  have c: "sys_inv s'" "w_cmd (g_data (sys_sh s')) = WINEING_CTRL_CMD_SHUTDOWN" "n + sys_rank s' \<le> sys_rank s"
    using counted_rank [OF assms(5,3) program_state_inv [OF assms(1-3)] assms(4)] by simp_all
  have "all_joined s'" if "sys_rank s' = 0"
  proof -
    have "in_pc_inv (in_at s') (w_cmd (in_data (in_vars s'))) WINEING_CTRL_CMD_SHUTDOWN"
      using c(1,2) by (auto simp: sys_inv_def Let_def)
    with that show ?thesis
      by (cases "in_at s'"; cases "out_at s'"; cases "mk_at s'")
        (simp_all add: sys_rank_def all_joined_def ctrl_cmds split: if_splits)
  qed
  with c(3) sys_rank_bound [of s] show ?thesis by (meson order_trans)
qed

lemma some_step:
  assumes "market_step e conf p (mk_vars s) (sys_sh s) = Inr r" "mk_at s = p"
  shows "\<exists>s'. sys_step e conf R s Act_Market s'"
proof -
  obtain p' l sh where "r = (p', l, sh)" by (metis prod_cases3)
  with assms show ?thesis by (blast intro: step_market)
qed

text \<open>
  C23. No thread is left behind: after SHUTDOWN, in every state the program can be in, the
  request thread and the market thread can take their next step (or the answer of the callback
  and then NxCore's return bring the market thread back) until they have ended; the response thread can, except that it
  waits in its receive if no message is there and faults on one of more than 1024 bytes.
\<close>
theorem shutdown_makes_progress:
  assumes "program_state e conf R b io rs s" "buffers_ok b" "recv_codes e"
    and "cchan_in_fqcn conf = CStr n1" "cchan_out_fqcn conf = CStr n2" "mchan_fqcn conf = CStr n3"
    and "tape_basedir conf = CStr n4"
    and "w_cmd (g_data (sys_sh s)) = WINEING_CTRL_CMD_SHUTDOWN"
  shows "(in_at s \<noteq> In_End \<longrightarrow> (\<exists>s'. sys_step e conf R s Act_In s')) \<and>
    (mk_at s \<noteq> M_End \<longrightarrow> (case mk_at s of M_Nx _ _ _ \<Rightarrow> \<exists>s'. sys_step e conf R s Act_Return s'
        | M_Callback _ _ _ _ \<Rightarrow> \<exists>ret s'. sys_step e conf R s (Act_Answer ret) s'
        | _ \<Rightarrow> \<exists>s'. sys_step e conf R s Act_Market s')) \<and>
    (out_at s \<noteq> O_End \<longrightarrow> (\<exists>s'. sys_step e conf R s Act_Out s') \<or>
      (\<exists>c m z. out_at s = O_Recv c m \<and> sock m = Sock z \<and>
        (case zmq_recv e z (world (sh_io (sys_sh s))) of None \<Rightarrow> True
         | Some (r, d, w) \<Rightarrow> OUT_BUFFER_SIZE < length d)))"
proof (intro conjI impI)
  have inv: "sys_inv s" by (rule program_state_inv [OF assms(1-3)])
  assume run: "in_at s \<noteq> In_End"
  show "\<exists>s'. sys_step e conf R s Act_In s'"
  proof (cases "in_step e conf (in_at s) (in_vars s) (sys_sh s)")
    case (Inr x)
    then show ?thesis by (cases x) (blast intro: step_in)
  next
    case (Inl f)
    from request_thread_total [OF inv assms(4,7) run Inl] inv assms(8) have False
    proof (cases "in_at s")
      case (In_Loop c o')
      have c: "w_cmd (in_data (in_vars s)) = WINEING_CTRL_CMD_SHUTDOWN" "chan_ok c" "chan_ok o'"
        using inv assms(8) In_Loop by (auto simp: sys_inv_def Let_def)
      with Inl In_Loop show ?thesis
        by (auto simp: in_step_def in_turn_def chan_ok_def chan_destroy_def chan_sock_def sh_log_plain)
    qed (auto simp: request_fault_def sys_inv_def Let_def)
    then show ?thesis ..
  qed
next
  have inv: "sys_inv s" by (rule program_state_inv [OF assms(1-3)])
  assume run: "mk_at s \<noteq> M_End"
  from market_thread_total [OF inv assms(6) run, of e]
  show "case mk_at s of M_Nx _ _ _ \<Rightarrow> \<exists>s'. sys_step e conf R s Act_Return s'
      | M_Callback _ _ _ _ \<Rightarrow> \<exists>ret s'. sys_step e conf R s (Act_Answer ret) s'
      | _ \<Rightarrow> \<exists>s'. sys_step e conf R s Act_Market s'"
    by (cases "mk_at s") (auto simp: market_next_def dest!: some_step intro: step_return step_answer)
next
  have inv: "sys_inv s" by (rule program_state_inv [OF assms(1-3)])
  assume run: "out_at s \<noteq> O_End"
  show "(\<exists>s'. sys_step e conf R s Act_Out s') \<or>
      (\<exists>c m z. out_at s = O_Recv c m \<and> sock m = Sock z \<and>
        (case zmq_recv e z (world (sh_io (sys_sh s))) of None \<Rightarrow> True
         | Some (r, d, w) \<Rightarrow> OUT_BUFFER_SIZE < length d))"
  proof (cases "out_step e conf (out_at s) (out_vars s) (sys_sh s)")
    case (Inr x)
    then show ?thesis by (cases x) (blast intro: step_out)
  next
    case (Inl f)
    from response_thread_total [OF inv assms(5) run Inl] show ?thesis by fastforce
  qed
qed

subsection \<open>The end of main\<close>

lemma shutdown_releases:
  assumes "shared_ready sh"
  shows "case zmq_term e (world (sh_io sh)) of None \<Rightarrow> wineing_shutdown e sh = Inl WouldBlock
    | Some w \<Rightarrow> \<exists>sh'. wineing_shutdown e sh = Inr sh' \<and> g_lock (conc sh') = MDestroyed \<and>
        g_market_sync_mutex sh' = MDestroyed \<and> g_market_sync_cond sh' = CDestroyed \<and>
        world (sh_io sh') = FreeLibrary e (g_hlib sh) w"
  using assms
  by (simp add: wineing_shutdown_def sh_log_plain shared_ready_def cell_ready_def Let_def
      pthread_cond_destroy_def pthread_mutex_destroy_def lazy_destroy_def chan_shutdown_def
      wininf_nxcore_free_def split: option.split)

lemma log_config_world:
  "log_config e conf sh = Inr sh' \<Longrightarrow> world (sh_io sh') = world (sh_io sh)"
  by (auto simp: log_config_def sh_log_lazy_def res_simps split: if_splits dest!: log_world)

definition dll_found :: "'w env \<Rightarrow> 'w \<Rightarrow> bool" where
  "dll_found e w \<longleftrightarrow> fst (LoadLibrary e ''lib/NxCoreAPI64.dll'' w) \<noteq> None"

lemma load_Inr:
  "wininf_nxcore_load e io = Inr (rc, h, io') \<Longrightarrow> rc <s 0 \<longleftrightarrow> \<not> dll_found e (world io)"
  by (auto simp: wininf_nxcore_load_def res_simps Let_def on_world_def dll_found_def log_Inr_world
      split: prod.splits if_splits)

lemma init_outcome:
  assumes "wineing_init e sh = Inr (oc, sh')"
  shows "oc = (if dll_found e (world (sh_io sh)) then Continue () else Exit [] 1)"
  using assms
  by (auto simp: wineing_init_def res_simps Let_def load_Inr log_world split: if_splits)

text \<open>
  C30. The exit code, for options of the documented form: 1 if one of the three channels is not
  given or the NxCore library is not found, otherwise (if the program ends) 0, whatever
  happens in between.
\<close>
theorem main_exit_code:
  assumes "wineing_main e R (map opt_arg os) b io code sh"
  shows "code = (if (\<exists>v. In v \<in> set os) \<and> (\<exists>v. Out v \<in> set os) \<and> (\<exists>v. MChan v \<in> set os) \<and>
                    dll_found e (world io) then 0 else 1)"
  using assms
proof cases
  case (main_usage out)
  then show ?thesis by (auto simp: cmd_parse_opts split: if_splits)
next
  case (main_no_dll conf sh0 out)
  from init_outcome [OF main_no_dll(3)] log_config_world [OF main_no_dll(2)] show ?thesis
    by (auto simp: shared_static_def split: if_splits)
next
  case (main_normal conf sh0 sh1 sh2)
  from init_outcome [OF main_normal(4)] log_config_world [OF main_normal(3)] main_normal(1,2) show ?thesis
    by (auto simp: shared_static_def cmd_parse_opts split: if_splits)
qed

end
