(* ===== verification/World_Frame.thy ===== *)
theory World_Frame
  imports Wineing_System Lifecycle
begin

text \<open>
  Which parts of a step leave the outside world alone: logging, the accesses to the shared
  record, the switch over a request, running NxCore. Shared by the developments about messages
  (\<open>Response_Order\<close>), sockets (\<open>Socket_Use\<close>) and buffers (\<open>Buffer_Memory\<close>).
\<close>

lemma log_lazy_world:
  "sh_log_lazy e lv msg bs sh = Inr sh' \<Longrightarrow> world (sh_io sh') = world (sh_io sh)"
  by (auto simp: sh_log_lazy_def res_simps split: if_splits dest: log_world)

lemma update_io: "update_g_data v t sh = Inr (v', sh') \<Longrightarrow> sh_io sh' = sh_io sh"
  by (auto simp: update_g_data_def res_simps)

lemma read_io: "read_g_data v t sh = Inr (v', t', sh') \<Longrightarrow> sh_io sh' = sh_io sh"
  by (auto simp: read_g_data_def res_simps)

lemma signal_io: "signal_market sh = Inr sh' \<Longrightarrow> sh_io sh' = sh_io sh"
  by (auto simp: signal_market_def res_simps)

lemma publish_io: "publish_data l sh = Inr (l', sh') \<Longrightarrow> sh_io sh' = sh_io sh"
  by (auto simp: publish_data_def res_simps dest: update_io)

text \<open>The switch over a request sends and receives nothing.\<close>

lemma start_world:
  "handle_market_start e conf req res l sh = Inr (res', f, l', sh') \<Longrightarrow> world (sh_io sh') = world (sh_io sh)"
  by (auto simp: handle_market_start_def Let_def res_simps split: if_splits option.splits
      dest!: log_world)

lemma switch_world:
  "cchan_in_switch e conf req l sh = Inr (res, f, l', sh') \<Longrightarrow> world (sh_io sh') = world (sh_io sh)"
  by (auto simp: cchan_in_switch_def handle_market_stop_def handle_shutdown_def Let_def
      split: Request_Type.splits dest!: start_world)

lemma recv_ctrl_world: "recv_ctrl e d k o1 i1 = Inr (r, o2, i2) \<Longrightarrow> world i2 = world i1"
  by (auto simp: recv_ctrl_def res_simps split: option.splits dest: log_Inr_world)

lemma chan_destroy_Inr:
  "chan_destroy e c io = Inr io' \<Longrightarrow> \<exists>z. sock c = Sock z \<and> world io' = zmq_close e z (world io)"
  by (auto simp: chan_destroy_def chan_sock_def res_simps split: sock_field.splits)

lemma log_running_world: "log_running e t sh = Inr sh' \<Longrightarrow> world (sh_io sh') = world (sh_io sh)"
  unfolding log_running_def by (rule log_lazy_world)

lemma nxcore_run_world: "wininf_nxcore_run e h io = Inr (called, io') \<Longrightarrow> world io' = world io"
  by (auto simp: wininf_nxcore_run_def res_simps split: if_splits dest: log_Inr_world)

lemma callback_read_link:
  "callback_read l sh = Inr (l', sh') \<Longrightarrow> sh_io sh' = sh_io sh \<and> g_mchan (mk_nx l') = g_mchan (mk_nx l)"
  by (auto simp: callback_read_eq res_simps dest: read_io)

lemma load_world:
  assumes "wininf_nxcore_load e io = Inr (rc, h, io')"
  shows "world io' = snd (LoadLibrary e ''lib/NxCoreAPI64.dll'' (world io))"
proof -
  obtain k w where l: "LoadLibrary e ''lib/NxCoreAPI64.dll'' (world io) = (k, w)" by (metis surj_pair)
  show ?thesis
    using assms l by (cases k) (auto simp: wininf_nxcore_load_def log_plain on_world_def res_simps
        dest: log_Inr_world)
qed

lemma init_world:
  "wineing_init e sh = Inr (Continue (), sh') \<Longrightarrow>
   world (sh_io sh') = snd (LoadLibrary e ''lib/NxCoreAPI64.dll'' (world (sh_io sh)))"
  by (auto simp: wineing_init_def Let_def res_simps split: if_splits dest!: log_world load_world)

text \<open>The callback sends on the market channel of the thread.\<close>

definition mk_link :: "m_pc \<Rightarrow> nxtape \<Rightarrow> bool" where
  "mk_link p n \<longleftrightarrow> (case p of M_Loop c _ \<Rightarrow> g_mchan n = Some c | M_Test c _ \<Rightarrow> g_mchan n = Some c
     | M_Callback c _ _ _ \<Rightarrow> g_mchan n = Some c | M_Nx c _ _ \<Rightarrow> g_mchan n = Some c | _ \<Rightarrow> True)"

end
