(* ===== verification/Response_Order.thy ===== *)
theory Response_Order
  imports System_Faults World_Frame
begin

text \<open>
  The way of a response through the program: from the request thread through the inproc
  channel and the response thread to the clients' channel. What ZeroMQ documents about
  sockets and the queues between them is a hypothesis on the environment, over a view of the
  world: the endpoint each socket is attached to, and for each endpoint the messages that
  were sent to it and not received by the program.
\<close>

subsection \<open>What ZeroMQ documents\<close>

record 'w wire =
  wr_at :: "'w \<Rightarrow> void_ptr \<Rightarrow> string option"
  wr_queue :: "'w \<Rightarrow> string \<Rightarrow> string list"

text \<open>
  A new socket is attached to nothing; bind and connect attach it; a message is appended to
  the queue of the sender's endpoint and taken from the head of the receiver's; closing a
  socket changes no other socket; sending never fails. The outside world moves no socket, and
  leaves alone the queue of the inproc endpoint and what was sent to the clients on \<open>out\<close>.
\<close>

definition attach_documented :: "'w wire \<Rightarrow> void_ptr \<Rightarrow> string \<Rightarrow> 'w \<Rightarrow> c_int \<times> 'w \<Rightarrow> bool" where
  "attach_documented W s name w r \<longleftrightarrow> wr_queue W (snd r) = wr_queue W w \<and>
     wr_at W (snd r) = (if fst r <s 0 then wr_at W w else (wr_at W w)(s := Some name))"

definition send_documented :: "'w wire \<Rightarrow> void_ptr \<Rightarrow> string \<Rightarrow> 'w \<Rightarrow> c_int \<times> 'w \<Rightarrow> bool" where
  "send_documented W s d w r \<longleftrightarrow> \<not> fst r <s 0 \<and> wr_at W (snd r) = wr_at W w \<and>
     wr_queue W (snd r) = (case wr_at W w s of None \<Rightarrow> wr_queue W w
       | Some n \<Rightarrow> (wr_queue W w)(n := wr_queue W w n @ [d]))"

definition recv_documented :: "'w wire \<Rightarrow> void_ptr \<Rightarrow> 'w \<Rightarrow> (c_int \<times> string \<times> 'w) option \<Rightarrow> bool" where
  "recv_documented W s w r \<longleftrightarrow> (case r of None \<Rightarrow> True | Some (rc, d, w') \<Rightarrow>
     wr_at W w' = wr_at W w \<and>
     (if rc = 0 then \<exists>n ds. wr_at W w s = Some n \<and> wr_queue W w n = d # ds \<and>
                            wr_queue W w' = (wr_queue W w)(n := ds)
      else rc <s 0 \<and> wr_queue W w' = wr_queue W w))"

definition zmq_documented :: "'w env \<Rightarrow> ('w \<Rightarrow> 'w \<Rightarrow> bool) \<Rightarrow> 'w wire \<Rightarrow> string \<Rightarrow> bool" where
  "zmq_documented e R W out \<longleftrightarrow>
     (\<forall>t w. case zmq_socket e t w of (s, w') \<Rightarrow> wr_at W w' = wr_at W w \<and>
        wr_queue W w' = wr_queue W w \<and> (s \<noteq> None \<longrightarrow> wr_at W w s = None)) \<and>
     (\<forall>s n w. attach_documented W s n w (zmq_bind e s n w)) \<and>
     (\<forall>s n w. attach_documented W s n w (zmq_connect e s n w)) \<and>
     (\<forall>s d f w. send_documented W s d w (zmq_send e s d f w)) \<and>
     (\<forall>s w. recv_documented W s w (zmq_recv e s w)) \<and>
     (\<forall>s w s'. wr_queue W (zmq_close e s w) = wr_queue W w \<and>
        (s' \<noteq> s \<longrightarrow> wr_at W (zmq_close e s w) s' = wr_at W w s')) \<and>
     (\<forall>w w'. R w w' \<longrightarrow> wr_at W w' = wr_at W w \<and>
        (\<forall>n \<in> {DEFAULTS_ICHAN_NAME, out}. wr_queue W w' n = wr_queue W w n))"

lemma documented_recv:
  assumes "zmq_documented e R W out" "zmq_recv e s w = Some (rc, d, w')"
  shows "wr_at W w' = wr_at W w"
    "rc = 0 \<Longrightarrow> \<exists>n ds. wr_at W w s = Some n \<and> wr_queue W w n = d # ds \<and>
                       wr_queue W w' = (wr_queue W w)(n := ds)"
    "rc \<noteq> 0 \<Longrightarrow> rc <s 0 \<and> wr_queue W w' = wr_queue W w"
proof -
  have "recv_documented W s w (zmq_recv e s w)" using assms(1) unfolding zmq_documented_def by simp
  then have d: "wr_at W w' = wr_at W w \<and> (if rc = 0 then \<exists>n ds. wr_at W w s = Some n \<and>
       wr_queue W w n = d # ds \<and> wr_queue W w' = (wr_queue W w)(n := ds)
     else rc <s 0 \<and> wr_queue W w' = wr_queue W w)"
    unfolding recv_documented_def assms(2) option.case prod.case .
  then show "wr_at W w' = wr_at W w" by (rule conjunct1)
  show "rc = 0 \<Longrightarrow> \<exists>n ds. wr_at W w s = Some n \<and> wr_queue W w n = d # ds \<and>
                       wr_queue W w' = (wr_queue W w)(n := ds)"
    "rc \<noteq> 0 \<Longrightarrow> rc <s 0 \<and> wr_queue W w' = wr_queue W w"
    using conjunct2 [OF d] by (simp_all only: if_True if_False simp_thms)
qed

lemma documented_codes:
  assumes "zmq_documented e R W out"
  shows "recv_codes e"
  unfolding recv_codes_def
proof (intro allI)
  fix s w
  show "case zmq_recv e s w of None \<Rightarrow> True | Some (r, d, w') \<Rightarrow> r = 0 \<or> r <s 0"
  proof (cases "zmq_recv e s w")
    case (Some x)
    obtain r d w' where "x = (r, d, w')" by (metis prod_cases3)
    with documented_recv(3) [OF assms, of s w r d w'] Some show ?thesis by auto
  qed simp
qed

lemma documented_socket:
  assumes "zmq_documented e R W out" "zmq_socket e t w = (s, w')"
  shows "wr_at W w' = wr_at W w \<and> wr_queue W w' = wr_queue W w \<and> (s \<noteq> None \<longrightarrow> wr_at W w s = None)"
proof -
  have "case zmq_socket e t w of (s, w') \<Rightarrow> wr_at W w' = wr_at W w \<and>
        wr_queue W w' = wr_queue W w \<and> (s \<noteq> None \<longrightarrow> wr_at W w s = None)"
    using assms(1) unfolding zmq_documented_def by simp
  with assms(2) show ?thesis by simp
qed

lemma documented_attach:
  assumes "zmq_documented e R W out" "attach e t s n w = (rc, w')"
  shows "wr_queue W w' = wr_queue W w \<and>
   wr_at W w' = (if rc <s 0 then wr_at W w else (wr_at W w)(s := Some n))"
proof -
  have "attach_documented W s n w (attach e t s n w)"
    using assms(1) unfolding zmq_documented_def attach_def by simp
  with assms(2) show ?thesis by (simp add: attach_documented_def)
qed

lemma documented_send:
  assumes "zmq_documented e R W out" "zmq_send e s d f w = (rc, w')"
  shows "\<not> rc <s 0 \<and> wr_at W w' = wr_at W w \<and>
   wr_queue W w' = (case wr_at W w s of None \<Rightarrow> wr_queue W w
       | Some n \<Rightarrow> (wr_queue W w)(n := wr_queue W w n @ [d]))"
proof -
  have "send_documented W s d w (zmq_send e s d f w)" using assms(1) unfolding zmq_documented_def by simp
  with assms(2) show ?thesis by (simp add: send_documented_def)
qed

lemma documented_close:
  assumes "zmq_documented e R W out"
  shows "wr_queue W (zmq_close e s w) = wr_queue W w"
    "s' \<noteq> s \<Longrightarrow> wr_at W (zmq_close e s w) s' = wr_at W w s'"
  using assms unfolding zmq_documented_def by simp_all

lemma documented_world:
  "zmq_documented e R W out \<Longrightarrow> R w w' \<Longrightarrow> wr_at W w' = wr_at W w \<and>
     wr_queue W w' DEFAULTS_ICHAN_NAME = wr_queue W w DEFAULTS_ICHAN_NAME \<and>
     wr_queue W w' out = wr_queue W w out"
  unfolding zmq_documented_def by simp

subsection \<open>Which channels are attached where\<close>

text \<open>
  The channels in use, with the endpoint each is attached to; \<open>wired\<close> says that they are,
  by different sockets.
\<close>

definition wired :: "'w wire \<Rightarrow> 'w \<Rightarrow> (chan \<times> string) list \<Rightarrow> bool" where
  "wired W w cs \<longleftrightarrow> (\<forall>(c, n) \<in> set cs. \<exists>z. sock c = Sock z \<and> wr_at W w z = Some n) \<and>
     distinct (map (\<lambda>(c, n). sock c) cs)"

definition keeps :: "'w wire \<Rightarrow> 'w \<Rightarrow> 'w \<Rightarrow> bool" where
  "keeps W w w' \<longleftrightarrow> wr_queue W w' = wr_queue W w \<and> (\<forall>s. wr_at W w s \<noteq> None \<longrightarrow> wr_at W w' s = wr_at W w s)"

lemma keeps_refl [simp]: "keeps W w w"
  by (simp add: keeps_def)

lemma keeps_trans: "keeps W a b \<Longrightarrow> keeps W b c \<Longrightarrow> keeps W a c"
  by (simp add: keeps_def)

lemma wired_at:
  assumes "wired W w cs" "wr_at W w' = wr_at W w"
  shows "wired W w' cs"
  using assms by (simp add: wired_def)

lemma wiredD:
  "wired W w cs \<Longrightarrow> (c, n) \<in> set cs \<Longrightarrow> \<exists>z. sock c = Sock z \<and> wr_at W w z = Some n"
  unfolding wired_def by (drule conjunct1, drule (1) bspec) simp

lemma wiredI:
  assumes "\<And>c n. (c, n) \<in> set cs \<Longrightarrow> \<exists>z. sock c = Sock z \<and> wr_at W w z = Some n"
    and "distinct (map (\<lambda>(c, n). sock c) cs)"
  shows "wired W w cs"
  using assms unfolding wired_def by auto

lemma wired_distinct: "wired W w cs \<Longrightarrow> distinct (map (\<lambda>(c, n). sock c) cs)"
  unfolding wired_def by (rule conjunct2)

lemma wired_keeps:
  assumes "wired W w cs" "keeps W w w'"
  shows "wired W w' cs"
proof (rule wiredI [OF _ wired_distinct [OF assms(1)]])
  fix c n assume "(c, n) \<in> set cs"
  then obtain z where "sock c = Sock z" "wr_at W w z = Some n" using wiredD [OF assms(1)] by blast
  with assms(2) show "\<exists>z. sock c = Sock z \<and> wr_at W w' z = Some n" by (simp add: keeps_def)
qed

text \<open>A channel that a successful \<open>chan_bind\<close> attached joins them.\<close>

lemma wired_insert:
  assumes "wired W w (xs @ ys)" "keeps W w w'" "sock c = Sock z" "wr_at W w z = None" "wr_at W w' z = Some n"
  shows "wired W w' (xs @ (c, n) # ys)"
proof (rule wiredI)
  have "sock d \<noteq> Sock z" if "(d, m) \<in> set (xs @ ys)" for d m
    using wiredD [OF assms(1) that] assms(4) by auto
  then have "Sock z \<notin> set (map (\<lambda>(c, n). sock c) (xs @ ys))" by fastforce
  with wired_distinct [OF assms(1)] assms(3)
  show "distinct (map (\<lambda>(c, n). sock c) (xs @ (c, n) # ys))" by auto
next
  fix d m assume "(d, m) \<in> set (xs @ (c, n) # ys)"
  then have "(d, m) \<in> set (xs @ ys) \<or> d = c \<and> m = n" by auto
  with wiredD [OF wired_keeps [OF assms(1,2)], of d m] assms(3,5)
  show "\<exists>z. sock d = Sock z \<and> wr_at W w' z = Some m" by blast
qed

text \<open>A channel that is closed leaves them.\<close>

lemma wired_remove:
  assumes "wired W w (xs @ (c, n) # ys)" "zmq_documented e R W out" "sock c = Sock z"
  shows "wired W (zmq_close e z w) (xs @ ys)"
proof (rule wiredI)
  show "distinct (map (\<lambda>(c, n). sock c) (xs @ ys))" using wired_distinct [OF assms(1)] by simp
next
  fix d m assume dm: "(d, m) \<in> set (xs @ ys)"
  then obtain s where s: "sock d = Sock s" "wr_at W w s = Some m" using wiredD [OF assms(1), of d m] by auto
  have "sock d \<in> set (map (\<lambda>(c, n). sock c) (xs @ ys))" using dm by force
  moreover have "sock c \<notin> set (map (\<lambda>(c, n). sock c) (xs @ ys))"
    using wired_distinct [OF assms(1)] by (simp only: map_append list.map prod.case
        distinct_append distinct.simps set_append set_simps) blast
  ultimately have "sock d \<noteq> sock c" by metis
  with s assms(3) have "s \<noteq> z" by auto
  with documented_close(2) [OF assms(2)] s
  show "\<exists>s. sock d = Sock s \<and> wr_at W (zmq_close e z w) s = Some m" by simp
qed

lemma chan_bind_wired:
  assumes "chan_bind e c io = Inr (rc, c', io')" "zmq_documented e R W out"
    and "binds (chan_type c) \<or> connects (chan_type c)" "chan_type c \<noteq> CHAN_TYPE_SUB" "fqcn c = CStr n"
  shows "keeps W (world io) (world io') \<and> (rc <s 0 \<or>
    (\<exists>z. sock c' = Sock z \<and> wr_at W (world io) z = None \<and> wr_at W (world io') z = Some n))"
proof -
  obtain s w1 where s: "zmq_socket e (to_zmq_type (chan_type c)) (world io) = (s, w1)" by (metis surj_pair)
  note so = documented_socket [OF assms(2) s]
  show ?thesis
  proof (cases s)
    case None
    with chan_bind_no_socket [of e c io w1] s assms(1) so show ?thesis
      by (auto simp: keeps_def word_sless_alt)
  next
    case (Some k)
    obtain r w2 where at: "attach e (chan_type c) (Some k) n w1 = (r, w2)" by (metis surj_pair)
    from chan_bind_attach [OF assms(3,5) _ at] s Some assms(1,4)
    have "rc = r" "sock c' = Sock (Some k)" "world io' = w2" by auto
    with documented_attach [OF assms(2) at] so Some show ?thesis
      by (auto simp: keeps_def)
  qed
qed

subsection \<open>The channels of the threads\<close>

fun in_chans :: "string \<Rightarrow> in_pc \<Rightarrow> (chan \<times> string) list" where
  "in_chans n (In_Connect c _) = [(c, n)]"
| "in_chans n (In_Loop c o') = [(c, n), (o', DEFAULTS_ICHAN_NAME)]"
| "in_chans n (In_Handle c o' _) = [(c, n), (o', DEFAULTS_ICHAN_NAME)]"
| "in_chans n (In_Publish c o' _ _) = [(c, n), (o', DEFAULTS_ICHAN_NAME)]"
| "in_chans n (In_Signal c o' _) = [(c, n), (o', DEFAULTS_ICHAN_NAME)]"
| "in_chans n (In_Reply c o' _) = [(c, n), (o', DEFAULTS_ICHAN_NAME)]"
| "in_chans n _ = []"

fun out_chans :: "string \<Rightarrow> o_pc \<Rightarrow> (chan \<times> string) list" where
  "out_chans n (O_Loop c m) = [(c, n), (m, DEFAULTS_ICHAN_NAME)]"
| "out_chans n (O_Test c m) = [(c, n), (m, DEFAULTS_ICHAN_NAME)]"
| "out_chans n (O_Recv c m) = [(c, n), (m, DEFAULTS_ICHAN_NAME)]"
| "out_chans n (O_Send c m _ _) = [(c, n), (m, DEFAULTS_ICHAN_NAME)]"
| "out_chans n _ = []"

fun mk_chans :: "string \<Rightarrow> m_pc \<Rightarrow> (chan \<times> string) list" where
  "mk_chans n (M_Connect c _) = [(c, n)]"
| "mk_chans n (M_Loop c o') = [(c, n), (o', DEFAULTS_ICHAN_NAME)]"
| "mk_chans n (M_Test c o') = [(c, n), (o', DEFAULTS_ICHAN_NAME)]"
| "mk_chans n (M_Callback c o' _ _) = [(c, n), (o', DEFAULTS_ICHAN_NAME)]"
| "mk_chans n (M_Nx c o' _) = [(c, n), (o', DEFAULTS_ICHAN_NAME)]"
| "mk_chans n _ = []"

subsection \<open>The request thread\<close>

lemma chan_recv_wired:
  assumes "chan_recv e c fn obj io = Inr (rc, obj', io')" "zmq_documented e R W out"
    and "sock c = Sock z" "wr_at W (world io) z = Some n"
    and "\<And>d k o1 i1 r o2 i2. fn d k o1 i1 = Inr (r, o2, i2) \<Longrightarrow> world i2 = world i1"
  shows "wr_at W (world io') = wr_at W (world io) \<and>
    (\<forall>m. m \<noteq> n \<longrightarrow> wr_queue W (world io') m = wr_queue W (world io) m)"
proof -
  from assms(1,3) obtain r d w where d: "zmq_recv e z (world io) = Some (r, d, w)"
    by (cases "zmq_recv e z (world io)") (auto simp: chan_recv_def chan_sock_def)
  have w: "world io' = w"
    using assms(1,3) d by (auto simp: chan_recv_def chan_sock_def Let_def res_simps
        split: if_splits dest!: assms(5))
  show ?thesis
  proof (cases "r = 0")
    case True
    from documented_recv(1,2) [OF assms(2) d] True assms(4) w show ?thesis by auto
  next
    case False
    from documented_recv(1,3) [OF assms(2) d] False w show ?thesis by simp
  qed
qed

lemma wired_destroy:
  assumes "chan_destroy e c io = Inr io'" "zmq_documented e R W out" "wired W (world io) (xs @ (c, n) # ys)"
  shows "wired W (world io') (xs @ ys) \<and> wr_queue W (world io') = wr_queue W (world io)"
  using chan_destroy_Inr [OF assms(1)] wired_remove [OF assms(3,2)] documented_close(1) [OF assms(2)]
  by auto

text \<open>What a bind or connect at start-up does to the channels of the program.\<close>

lemma bind_wired:
  assumes "chan_bind e c io = Inr (rc, c', io')" "zmq_documented e R W out"
    and "fqcn c = CStr n" "chan_type c \<in> {CHAN_TYPE_PUB, CHAN_TYPE_PULL_BIND, CHAN_TYPE_PUSH_CONNECT}"
    and "wired W (world io) (xs @ ys)"
  shows "wr_queue W (world io') = wr_queue W (world io) \<and> wired W (world io') (xs @ ys) \<and>
    (\<not> rc <s 0 \<longrightarrow> wired W (world io') (xs @ (c', n) # ys))"
proof -
  have t: "binds (chan_type c) \<or> connects (chan_type c)" "chan_type c \<noteq> CHAN_TYPE_SUB"
    using assms(4) by (auto simp: chan_types binds_def connects_def)
  note b = chan_bind_wired [OF assms(1,2) t assms(3)]
  then have k: "keeps W (world io) (world io')" by (rule conjunct1)
  have "wired W (world io') (xs @ (c', n) # ys)" if "\<not> rc <s 0"
    using b that wired_insert [OF assms(5) k] by auto
  with k wired_keeps [OF assms(5) k] show ?thesis by (simp add: keeps_def)
qed

definition reply_bytes :: "'w env \<Rightarrow> in_pc \<Rightarrow> string list" where
  "reply_bytes e p = (case p of In_Reply _ _ r \<Rightarrow> [SerializeResponse e r] | _ \<Rightarrow> [])"

lemma in_start_wired:
  assumes "in_start e conf sh = Inr (p, sh')" "zmq_documented e R W out" "cchan_in_fqcn conf = CStr i"
    and "wired W (world (sh_io sh)) ys"
  shows "wired W (world (sh_io sh')) (in_chans i p @ ys) \<and>
    wr_queue W (world (sh_io sh')) = wr_queue W (world (sh_io sh))"
proof -
  from assms(1) obtain sh1 x where x:
    "sh_log_lazy e LOG_INFO ''Initializing control_in thread (%s)'' (str_args (cchan_in_fqcn conf) []) sh = Inr sh1"
    "chan_bind e (chan_init (cchan_in_fqcn conf) CHAN_TYPE_PULL_BIND) (sh_io sh1) = Inr x"
    by (auto simp: in_start_def res_simps)
  obtain rc c io where rc: "x = (rc, c, io)" by (metis prod_cases3)
  have s: "chan_bind e (chan_init (cchan_in_fqcn conf) CHAN_TYPE_PULL_BIND) (sh_io sh1) = Inr (rc, c, io)"
    "world (sh_io sh1) = world (sh_io sh)" using x rc by (auto dest: log_lazy_world)
  have "world (sh_io sh') = world io \<and> p = (if rc <s 0 then In_End
       else In_Connect c (chan_init (CStr DEFAULTS_ICHAN_NAME) CHAN_TYPE_PUSH_CONNECT))"
    using assms(1) x(1) s(1) by (auto simp: in_start_def res_simps Let_def split: if_splits dest!: log_lazy_world)
  with bind_wired [OF s(1) assms(2), of i "[]" ys] s(2) assms(3,4) show ?thesis
    by (auto simp: chan_init_def)
qed

lemma in_connect_wired:
  assumes "in_connect e c o' sh = Inr (p, sh')" "zmq_documented e R W out" "push_chan o'"
    and "wired W (world (sh_io sh)) ((c, i) # ys)"
  shows "wired W (world (sh_io sh')) (in_chans i p @ ys) \<and>
    wr_queue W (world (sh_io sh')) = wr_queue W (world (sh_io sh))"
proof -
  from assms(1) obtain rc o2 io where s:
    "chan_bind e o' (sh_io sh) = Inr (rc, o2, io)" "world (sh_io sh') = world io"
    "p = (if rc <s 0 then In_Connect c o2 else In_Loop c o2)"
    by (auto simp: in_connect_def res_simps Let_def split: if_splits dest!: log_world)
  from bind_wired [OF s(1) assms(2), of DEFAULTS_ICHAN_NAME "[(c, i)]" ys] s assms(3,4) show ?thesis
    by (auto simp: push_chan_def)
qed

lemma in_turn_wired:
  assumes "in_turn e c o' l sh = Inr (p, sh')" "zmq_documented e R W out"
    and "wired W (world (sh_io sh)) ((c, i) # (o', DEFAULTS_ICHAN_NAME) # ys)"
  shows "wired W (world (sh_io sh')) (in_chans i p @ ys) \<and>
    (\<forall>n. n \<noteq> i \<longrightarrow> wr_queue W (world (sh_io sh')) n = wr_queue W (world (sh_io sh)) n)"
proof (cases "WINEING_CTRL_CMD_SHUTDOWN <s w_cmd (in_data l)")
  case True
  from assms(1) have "res_bind (chan_recv e c (recv_ctrl e) Request_Clear (sh_io sh)) (\<lambda>(rc, req, i).
       Inr (if 0 <s rc then In_Handle c o' req else In_Loop c o', sh\<lparr>sh_io := i\<rparr>)) = Inr (p, sh')"
    unfolding in_turn_receives [OF True] .
  then obtain rc req io where r: "chan_recv e c (recv_ctrl e) Request_Clear (sh_io sh) = Inr (rc, req, io)"
    "world (sh_io sh') = world io" "in_chans i p = [(c, i), (o', DEFAULTS_ICHAN_NAME)]"
    by (auto simp: res_simps split: if_splits)
  obtain z where z: "sock c = Sock z" "wr_at W (world (sh_io sh)) z = Some i"
    using wiredD [OF assms(3), of c i] by auto
  from chan_recv_wired [OF r(1) assms(2) z recv_ctrl_world] r(2,3) assms(3) show ?thesis
    using wired_at by fastforce
next
  case False
  from assms(1) obtain i1 i2 where d: "chan_destroy e c (sh_io sh) = Inr i1"
    "chan_destroy e o' i1 = Inr i2" "world (sh_io sh') = world i2" "p = In_End"
    unfolding in_turn_def if_not_P [OF False] by (auto simp: res_simps dest!: log_world)
  from wired_destroy [OF d(1) assms(2), of "[]"] assms(3)
  have d1: "wired W (world i1) ((o', DEFAULTS_ICHAN_NAME) # ys)"
    "wr_queue W (world i1) = wr_queue W (world (sh_io sh))" by auto
  from wired_destroy [OF d(2) assms(2), of "[]"] d1 d(3,4) show ?thesis by auto
qed

lemma chan_send_wired:
  assumes "chan_send e c b n f io = Inr (rc, io')" "zmq_documented e R W out"
    and "sock c = Sock z" "wr_at W (world io) z = Some name"
  shows "\<not> rc <s 0 \<and> wr_at W (world io') = wr_at W (world io) \<and>
    wr_queue W (world io') = (wr_queue W (world io))(name := wr_queue W (world io) name @ [take n b])"
proof -
  obtain r w where s: "zmq_send e z (take n b) f (world io) = (r, w)" by (metis surj_pair)
  with assms(1,3) have "rc = r" "world io' = w"
    by (auto simp: chan_send_def chan_sock_def on_world_def split: if_splits)
  with documented_send [OF assms(2) s] assms(4) show ?thesis by simp
qed

lemma in_reply_wired:
  assumes "cchan_in_reply e o' r sh = Inr sh'" "zmq_documented e R W out"
    and "wired W (world (sh_io sh)) cs" "(o', DEFAULTS_ICHAN_NAME) \<in> set cs"
  shows "wired W (world (sh_io sh')) cs \<and>
    wr_queue W (world (sh_io sh')) = (wr_queue W (world (sh_io sh)))(DEFAULTS_ICHAN_NAME :=
      wr_queue W (world (sh_io sh)) DEFAULTS_ICHAN_NAME @ [SerializeResponse e r])"
proof -
  obtain z where z: "sock o' = Sock z" "wr_at W (world (sh_io sh)) z = Some DEFAULTS_ICHAN_NAME"
    using wiredD [OF assms(3,4)] by blast
  from assms(1) obtain rc i where s: "chan_send e o' (SerializeResponse e r)
      (length (SerializeResponse e r)) True (sh_io sh) = Inr (rc, i)" "world (sh_io sh') = world i"
    by (auto simp: cchan_in_reply_def Let_def res_simps split: if_splits dest!: log_world)
  from chan_send_wired [OF s(1) assms(2) z] s(2) assms(3) show ?thesis
    by (auto intro: wired_at)
qed

lemma in_step_wired:
  assumes "in_step e conf p l sh = Inr (p', l', sh')" "zmq_documented e R W out"
    and "wired W (world (sh_io sh)) (in_chans i p @ ys)" "cchan_in_fqcn conf = CStr i" "in_pc_inv p k g"
  shows "wired W (world (sh_io sh')) (in_chans i p' @ ys) \<and>
    (\<forall>n. n \<noteq> i \<longrightarrow> wr_queue W (world (sh_io sh')) n =
      wr_queue W (world (sh_io sh)) n @ (if n = DEFAULTS_ICHAN_NAME then reply_bytes e p else []))"
proof (cases p)
  case In_Start
  with assms(1) have "in_start e conf sh = Inr (p', sh')" by (auto simp: in_step_def res_simps)
  from in_start_wired [OF this assms(2,4)] In_Start assms(3) show ?thesis
    by (simp add: reply_bytes_def)
next
  case (In_Connect c o')
  with assms(1) have "in_connect e c o' sh = Inr (p', sh')" by (auto simp: in_step_def res_simps)
  from in_connect_wired [OF this assms(2), of i ys] In_Connect assms(3,5) show ?thesis
    by (simp add: reply_bytes_def)
next
  case (In_Loop c o')
  with assms(1) have "in_turn e c o' l sh = Inr (p', sh')" by (auto simp: in_step_def res_simps)
  from in_turn_wired [OF this assms(2), of i ys] In_Loop assms(3) show ?thesis
    by (simp add: reply_bytes_def)
next
  case (In_Handle c o' req)
  with assms(1) obtain res f where "cchan_in_switch e conf req l sh = Inr (res, f, l', sh')"
    "p' = (case f of Reply_Now \<Rightarrow> In_Reply c o' res | Publish_Then_Reply \<Rightarrow> In_Publish c o' res False
       | Publish_Then_Signal \<Rightarrow> In_Publish c o' res True)"
    by (auto simp: in_step_def in_dispatch_def res_simps)
  then have "world (sh_io sh') = world (sh_io sh)" "in_chans i p' = in_chans i p"
    using In_Handle switch_world by (auto split: followup.split)
  with In_Handle assms(3) show ?thesis by (simp add: reply_bytes_def)
next
  case (In_Publish c o' r sg)
  with assms(1) have "sh_io sh' = sh_io sh" "in_chans i p' = in_chans i p"
    by (auto simp: in_step_def res_simps dest!: publish_io)
  with In_Publish assms(3) show ?thesis by (simp add: reply_bytes_def)
next
  case (In_Signal c o' r)
  with assms(1) have "sh_io sh' = sh_io sh" "in_chans i p' = in_chans i p"
    by (auto simp: in_step_def res_simps dest!: signal_io)
  with In_Signal assms(3) show ?thesis by (simp add: reply_bytes_def)
next
  case (In_Reply c o' r)
  with assms(1) have "cchan_in_reply e o' r sh = Inr sh'" "p' = In_Loop c o'"
    by (auto simp: in_step_def res_simps)
  with in_reply_wired [OF this(1) assms(2,3)] In_Reply show ?thesis
    by (simp add: reply_bytes_def)
next
  case In_End
  with assms(1) show ?thesis by (simp add: in_step_def)
qed

subsection \<open>The response thread\<close>

text \<open>The message the response thread holds between its receive and its send.\<close>

definition held :: "o_pc \<Rightarrow> string list" where
  "held p = (case p of O_Send c m b n \<Rightarrow> [take (size_t_of_int n) b] | _ \<Rightarrow> [])"

text \<open>What was sent to the clients, is held, and is still in the inproc queue.\<close>

definition in_flight :: "'w wire \<Rightarrow> string \<Rightarrow> o_pc \<Rightarrow> 'w \<Rightarrow> string list" where
  "in_flight W out p w = wr_queue W w out @ held p @ wr_queue W w DEFAULTS_ICHAN_NAME"

definition small_queue :: "'w wire \<Rightarrow> 'w \<Rightarrow> bool" where
  "small_queue W w \<longleftrightarrow> (\<forall>d \<in> set (wr_queue W w DEFAULTS_ICHAN_NAME). length d < 2147483648)"

lemma out_start_wired:
  assumes "out_start e conf sh = Inr (p, sh')" "zmq_documented e R W out" "cchan_out_fqcn conf = CStr out"
    and "wired W (world (sh_io sh)) (xs @ ys)"
  shows "wired W (world (sh_io sh')) (xs @ out_chans out p @ ys) \<and>
    wr_queue W (world (sh_io sh')) = wr_queue W (world (sh_io sh)) \<and> held p = []"
proof -
  let ?pub = "chan_init (cchan_out_fqcn conf) CHAN_TYPE_PUB"
  let ?pull = "chan_init (CStr DEFAULTS_ICHAN_NAME) CHAN_TYPE_PULL_BIND"
  from assms(1) obtain sh1 x where x:
    "sh_log_lazy e LOG_INFO ''Initializing control_out thread (%s)'' (str_args (cchan_out_fqcn conf) []) sh = Inr sh1"
    "chan_bind e ?pub (sh_io sh1) = Inr x"
    by (auto simp: out_start_def res_simps)
  obtain rc c io where rc: "x = (rc, c, io)" by (metis prod_cases3)
  have w1: "world (sh_io sh1) = world (sh_io sh)" using x(1) by (rule log_lazy_world)
  note b1 = bind_wired [OF x(2) [unfolded rc] assms(2), of out xs ys]
  have b1: "wr_queue W (world io) = wr_queue W (world (sh_io sh))" "wired W (world io) (xs @ ys)"
    "\<not> rc <s 0 \<Longrightarrow> wired W (world io) (xs @ (c, out) # ys)"
    using b1 assms(3,4) w1 by (simp_all add: chan_init_def)
  show ?thesis
  proof (cases "rc <s 0")
    case True
    with assms(1) x rc have "p = O_End" "world (sh_io sh') = world io"
      by (auto simp: out_start_def res_simps Let_def dest!: log_lazy_world)
    with b1 show ?thesis by (simp add: held_def)
  next
    case False
    with assms(1) x rc obtain y where y: "chan_bind e ?pull io = Inr y"
      by (auto simp: out_start_def res_simps Let_def)
    obtain rc2 m io2 where rc2: "y = (rc2, m, io2)" by (metis prod_cases3)
    note b2 = bind_wired [OF y [unfolded rc2] assms(2), of DEFAULTS_ICHAN_NAME]
    from assms(1) x rc y rc2 False have "p = (if rc2 <s 0 then O_End else O_Loop c m)" "world (sh_io sh') = world io2"
      by (auto simp: out_start_def res_simps Let_def split: if_splits dest!: log_world)
    with b1 False b2 [of xs ys] b2 [of "xs @ [(c, out)]" ys] show ?thesis
      by (auto simp: held_def chan_init_def)
  qed
qed

lemma out_test_wired:
  assumes "out_test e c m t sh = Inr (p, sh')" "zmq_documented e R W out"
    and "wired W (world (sh_io sh)) (xs @ (c, out) # (m, DEFAULTS_ICHAN_NAME) # ys)"
  shows "wired W (world (sh_io sh')) (xs @ out_chans out p @ ys) \<and>
    wr_queue W (world (sh_io sh')) = wr_queue W (world (sh_io sh)) \<and> held p = []"
proof (cases "WINEING_CTRL_CMD_SHUTDOWN = w_cmd t")
  case True
  with assms(1) obtain i1 i2 where d: "chan_destroy e m (sh_io sh) = Inr i1"
    "chan_destroy e c i1 = Inr i2" "world (sh_io sh') = world i2" "p = O_End"
    by (auto simp: out_test_def res_simps dest!: log_world)
  from wired_destroy [OF d(1) assms(2), of "xs @ [(c, out)]"] assms(3)
  have d1: "wired W (world i1) (xs @ (c, out) # ys)"
    "wr_queue W (world i1) = wr_queue W (world (sh_io sh))" by auto
  from wired_destroy [OF d(2) assms(2) d1(1)] d1(2) d(3,4) show ?thesis by (simp add: held_def)
next
  case False
  with assms(1,3) show ?thesis by (auto simp: out_test_def held_def)
qed

lemma mem_recv_message:
  assumes "chan_recv e m cchan_in_mem_copy (replicate OUT_BUFFER_SIZE NUL) io = Inr (n, b, io')"
    and "sock m = Sock z" "zmq_recv e z (world io) = Some (0, d, w)" "length d < 2147483648"
  shows "n = word_of_nat (length d) \<and> take (length d) b = d \<and> world io' = w"
  using assms(1) unfolding chan_recv_message [OF assms(2-4)]
  by (auto simp: cchan_in_mem_copy_def res_simps)

lemma out_recv_wired:
  assumes "out_recv e c m sh = Inr (p, sh')" "zmq_documented e R W out"
    and "wired W (world (sh_io sh)) (xs @ (c, out) # (m, DEFAULTS_ICHAN_NAME) # ys)"
    and "out \<noteq> DEFAULTS_ICHAN_NAME"
  shows "wired W (world (sh_io sh')) (xs @ out_chans out p @ ys) \<and>
    (\<forall>n. n \<noteq> DEFAULTS_ICHAN_NAME \<longrightarrow> wr_queue W (world (sh_io sh')) n = wr_queue W (world (sh_io sh)) n) \<and>
    (small_queue W (world (sh_io sh)) \<longrightarrow>
      in_flight W out p (world (sh_io sh')) = in_flight W out (O_Recv c m) (world (sh_io sh)))"
proof -
  let ?w = "world (sh_io sh)"
  obtain z where z: "sock m = Sock z" "wr_at W ?w z = Some DEFAULTS_ICHAN_NAME"
    using wiredD [OF assms(3), of m] by auto
  from assms(1) obtain x where "chan_recv e m cchan_in_mem_copy (replicate OUT_BUFFER_SIZE NUL) (sh_io sh) = Inr x"
    by (auto simp: out_recv_def res_simps)
  moreover obtain n b i where "x = (n, b, i)" by (metis prod_cases3)
  ultimately have c: "chan_recv e m cchan_in_mem_copy (replicate OUT_BUFFER_SIZE NUL) (sh_io sh) = Inr (n, b, i)"
    by simp
  from assms(1) c have p: "p = (if n <s 0 then O_Loop c m else O_Send c m b n)" "world (sh_io sh') = world i"
    by (auto simp: out_recv_def res_simps Let_def split: if_splits dest!: log_world)
  from c z(1) obtain r d w where d: "zmq_recv e z ?w = Some (r, d, w)"
    by (cases "zmq_recv e z ?w") (auto simp: chan_recv_def chan_sock_def)
  note doc = documented_recv [OF assms(2) d]
  have chans: "out_chans out p = [(c, out), (m, DEFAULTS_ICHAN_NAME)]" using p(1) by simp
  show ?thesis
  proof (cases "r = 0")
    case True
    with doc(2) z(2) obtain ds where q: "wr_queue W ?w DEFAULTS_ICHAN_NAME = d # ds"
      "wr_queue W w = (wr_queue W ?w)(DEFAULTS_ICHAN_NAME := ds)" by auto
    have w: "world i = w"
      using c z(1) d True by (auto simp: chan_recv_def chan_sock_def cchan_in_mem_copy_def Let_def res_simps)
    have "in_flight W out p (world (sh_io sh')) = in_flight W out (O_Recv c m) ?w" if "small_queue W ?w"
    proof -
      have l: "length d < 2147483648" using that q(1) by (simp add: small_queue_def)
      from mem_recv_message [OF c z(1) d [unfolded True] l]
      have m: "n = word_of_nat (length d)" "take (length d) b = d" by simp_all
      have "\<not> n <s 0" using m(1) l by (simp add: word_sless_alt sint_word_of_nat_small)
      with p w m q l assms(4) show ?thesis by (simp add: in_flight_def held_def)
    qed
    with p w q(2) doc(1) assms(3) chans show ?thesis by (auto intro: wired_at)
  next
    case False
    from chan_recv_error [OF z(1) d False, of cchan_in_mem_copy] c have "n = r" "world i = w" by auto
    with doc(1) doc(3) [OF False] p assms(3) chans show ?thesis
      by (auto simp: in_flight_def held_def intro: wired_at)
  qed
qed

lemma out_send_wired:
  assumes "out_send e c m b n sh = Inr (p, sh')" "zmq_documented e R W out"
    and "wired W (world (sh_io sh)) (xs @ (c, out) # (m, DEFAULTS_ICHAN_NAME) # ys)"
    and "out \<noteq> DEFAULTS_ICHAN_NAME"
  shows "wired W (world (sh_io sh')) (xs @ out_chans out p @ ys) \<and>
    (\<forall>k. k \<noteq> out \<longrightarrow> wr_queue W (world (sh_io sh')) k = wr_queue W (world (sh_io sh)) k) \<and>
    in_flight W out p (world (sh_io sh')) = in_flight W out (O_Send c m b n) (world (sh_io sh))"
proof -
  obtain z where z: "sock c = Sock z" "wr_at W (world (sh_io sh)) z = Some out"
    using wiredD [OF assms(3), of c] by auto
  from assms(1) obtain rc i where s: "chan_send e c b (size_t_of_int n) True (sh_io sh) = Inr (rc, i)"
    "world (sh_io sh') = world i" "p = O_Loop c m"
    by (auto simp: out_send_def Let_def res_simps split: if_splits dest!: log_world)
  from chan_send_wired [OF s(1) assms(2) z] s(2,3) assms(3,4) show ?thesis
    by (auto simp: in_flight_def held_def intro: wired_at)
qed

lemma out_step_wired:
  assumes "out_step e conf p l sh = Inr (p', l', sh')" "zmq_documented e R W out" "cchan_out_fqcn conf = CStr out"
    and "wired W (world (sh_io sh)) (xs @ out_chans out p @ ys)" "out \<noteq> DEFAULTS_ICHAN_NAME"
  shows "wired W (world (sh_io sh')) (xs @ out_chans out p' @ ys) \<and>
    (\<forall>n. n \<notin> {out, DEFAULTS_ICHAN_NAME} \<longrightarrow> wr_queue W (world (sh_io sh')) n = wr_queue W (world (sh_io sh)) n) \<and>
    (small_queue W (world (sh_io sh)) \<longrightarrow>
      in_flight W out p' (world (sh_io sh')) = in_flight W out p (world (sh_io sh)))"
proof (cases p)
  case O_Start
  with assms(1) have "out_start e conf sh = Inr (p', sh')" by (auto simp: out_step_def res_simps)
  from out_start_wired [OF this assms(2,3), of xs ys] O_Start assms(4) show ?thesis
    by (simp add: in_flight_def held_def)
next
  case (O_Loop c m)
  with assms(1) have "sh_io sh' = sh_io sh" "p' = O_Test c m"
    by (auto simp: out_step_def out_read_def res_simps dest!: read_io)
  with O_Loop assms(4) show ?thesis by (simp add: in_flight_def held_def)
next
  case (O_Test c m)
  with assms(1) have "out_test e c m (out_data l) sh = Inr (p', sh')" by (auto simp: out_step_def res_simps)
  from out_test_wired [OF this assms(2), of xs ys] O_Test assms(4) show ?thesis
    by (simp add: in_flight_def held_def)
next
  case (O_Recv c m)
  with assms(1) have "out_recv e c m sh = Inr (p', sh')" by (auto simp: out_step_def res_simps)
  from out_recv_wired [OF this assms(2) _ assms(5), of xs ys] O_Recv assms(4) show ?thesis by simp
next
  case (O_Send c m b n)
  with assms(1) have "out_send e c m b n sh = Inr (p', sh')" by (auto simp: out_step_def res_simps)
  from out_send_wired [OF this assms(2) _ assms(5), of xs ys] O_Send assms(4) show ?thesis by simp
next
  case O_End
  with assms(1) show ?thesis by (simp add: out_step_def)
qed

subsection \<open>The market thread and the callback\<close>

lemma market_start_wired:
  assumes "market_start e conf sh = Inr (p, sh')" "zmq_documented e R W out" "mchan_fqcn conf = CStr md"
    and "wired W (world (sh_io sh)) xs"
  shows "wired W (world (sh_io sh')) (xs @ mk_chans md p) \<and>
    wr_queue W (world (sh_io sh')) = wr_queue W (world (sh_io sh)) \<and> mk_link p n"
proof -
  from assms(1) obtain sh1 x where x:
    "sh_log_lazy e LOG_INFO ''Initializing market data thread (%s)'' (str_args (mchan_fqcn conf) []) sh = Inr sh1"
    "chan_bind e (chan_init (mchan_fqcn conf) CHAN_TYPE_PUB) (sh_io sh1) = Inr x"
    by (auto simp: market_start_def res_simps)
  obtain rc c io where rc: "x = (rc, c, io)" by (metis prod_cases3)
  have w1: "world (sh_io sh1) = world (sh_io sh)" using x(1) by (rule log_lazy_world)
  have "world (sh_io sh') = world io \<and> p = (if rc <s 0 then M_End
       else M_Connect c (chan_init (CStr DEFAULTS_ICHAN_NAME) CHAN_TYPE_PUSH_CONNECT))"
    using assms(1) x rc by (auto simp: market_start_def res_simps Let_def split: if_splits dest!: log_lazy_world)
  with bind_wired [OF x(2) [unfolded rc] assms(2), of md xs "[]"] w1 assms(3,4) show ?thesis
    by (auto simp: chan_init_def mk_link_def)
qed

lemma market_connect_wired:
  assumes "market_connect e c o' l sh = Inr (p, l', sh')" "zmq_documented e R W out" "push_chan o'"
    and "wired W (world (sh_io sh)) (xs @ [(c, md)])"
  shows "wired W (world (sh_io sh')) (xs @ mk_chans md p) \<and>
    wr_queue W (world (sh_io sh')) = wr_queue W (world (sh_io sh)) \<and> mk_link p (mk_nx l')"
proof -
  from assms(1) obtain rc o2 io where s:
    "chan_bind e o' (sh_io sh) = Inr (rc, o2, io)" "world (sh_io sh') = world io"
    "p = (if rc <s 0 then M_Connect c o2 else M_Loop c o2)"
    "\<not> rc <s 0 \<longrightarrow> mk_nx l' = nxtape_init o2 c (mk_nx l)"
    by (auto simp: market_connect_def res_simps Let_def split: if_splits)
  from bind_wired [OF s(1) assms(2), of DEFAULTS_ICHAN_NAME "xs @ [(c, md)]" "[]"] s assms(3,4) show ?thesis
    by (auto simp: push_chan_def mk_link_def nxtape_init_def)
qed

lemma market_act_wired:
  assumes "market_act e c o' t sh = Inr (p, sh')" "zmq_documented e R W out"
    and "wired W (world (sh_io sh)) (xs @ [(c, md), (o', DEFAULTS_ICHAN_NAME)])" "g_mchan n = Some c"
  shows "wired W (world (sh_io sh')) (xs @ mk_chans md p) \<and>
    wr_queue W (world (sh_io sh')) = wr_queue W (world (sh_io sh)) \<and> mk_link p n"
proof (cases "w_cmd t = WINEING_CTRL_CMD_SHUTDOWN")
  case True
  with assms(1) obtain i1 i2 i3 where d: "chan_destroy e c i1 = Inr i2"
    "chan_destroy e o' i2 = Inr i3" "world (sh_io sh') = world i3" "world i1 = world (sh_io sh)" "p = M_End"
    by (auto simp: market_act_def res_simps ctrl_cmds dest!: log_world)
  from wired_destroy [OF d(1) assms(2), of xs md "[(o', DEFAULTS_ICHAN_NAME)]"] assms(3) d(4)
  have d1: "wired W (world i2) (xs @ [(o', DEFAULTS_ICHAN_NAME)])"
    "wr_queue W (world i2) = wr_queue W (world (sh_io sh))" by auto
  from wired_destroy [OF d(2) assms(2) d1(1)] d1(2) d(3,5) show ?thesis by (simp add: mk_link_def)
next
  case False
  with assms(1) have "world (sh_io sh') = world (sh_io sh) \<and> (p = M_Loop c o' \<or> p = M_Nx c o' (w_data t))"
    by (auto simp: market_act_def res_simps split: if_splits
        dest!: log_world log_running_world nxcore_run_world)
  with assms(3,4) show ?thesis by (auto simp: mk_link_def)
qed

lemma market_step_wired:
  assumes "market_step e conf p l sh = Inr (p', l', sh')" "zmq_documented e R W out" "mchan_fqcn conf = CStr md"
    and "wired W (world (sh_io sh)) (xs @ mk_chans md p)" "mk_link p (mk_nx l)" "mk_pc_inv p (mk_nx l)"
  shows "wired W (world (sh_io sh')) (xs @ mk_chans md p') \<and>
    wr_queue W (world (sh_io sh')) = wr_queue W (world (sh_io sh)) \<and> mk_link p' (mk_nx l')"
proof (cases p)
  case M_Start
  with assms(1) have "market_start e conf sh = Inr (p', sh')" by (auto simp: market_step_def res_simps)
  from market_start_wired [OF this assms(2,3)] M_Start assms(4) show ?thesis by simp
next
  case (M_Connect c o')
  with assms(1) have "market_connect e c o' l sh = Inr (p', l', sh')" by (simp add: market_step_def)
  from market_connect_wired [OF this assms(2)] M_Connect assms(4,6) show ?thesis by simp
next
  case (M_Loop c o')
  with assms(1) have "sh_io sh' = sh_io sh" "mk_nx l' = mk_nx l" "p' = M_Test c o'"
    by (auto simp: market_step_def market_read_def res_simps dest!: read_io)
  with M_Loop assms(4,5) show ?thesis by (simp add: mk_link_def)
next
  case (M_Test c o')
  with assms(1) have "market_act e c o' (mk_data l) sh = Inr (p', sh')" "l' = l"
    by (auto simp: market_step_def res_simps)
  with market_act_wired [OF this(1) assms(2)] M_Test assms(4,5) show ?thesis by (simp add: mk_link_def)
qed (use assms(1) in \<open>simp_all add: market_step_def\<close>)

definition market_bytes :: "'w env \<Rightarrow> NxMessageType \<Rightarrow> string list" where
  "market_bytes e mt = (case mt of NxMSG_STATUS \<Rightarrow> [SerializeMarketData e \<lparr>md_type = Some STATUS\<rparr>] | _ \<Rightarrow> [])"

lemma callback_wired:
  assumes "callback_handle e mt l sh = Inr (ret, sh')" "zmq_documented e R W out"
    and "wired W (world (sh_io sh)) cs" "(c, md) \<in> set cs" "g_mchan (mk_nx l) = Some c"
  shows "wired W (world (sh_io sh')) cs \<and>
    wr_queue W (world (sh_io sh')) =
      (wr_queue W (world (sh_io sh)))(md := wr_queue W (world (sh_io sh)) md @ market_bytes e mt)"
proof -
  obtain z where z: "sock c = Sock z" "wr_at W (world (sh_io sh)) z = Some md"
    using wiredD [OF assms(3,4)] by blast
  show ?thesis
  proof (cases mt)
    case NxMSG_STATUS
    let ?b = "SerializeMarketData e \<lparr>md_type = Some STATUS\<rparr>"
    from NxMSG_STATUS assms(1,5) obtain rc i where "chan_send e c ?b (length ?b) False (sh_io sh) = Inr (rc, i)"
        "sh_io sh' = i"
      by (auto simp: callback_handle_def nxtape_handle_def nxtape_send_status_def MarketData_Clear_def Let_def res_simps)
    with chan_send_wired [OF this(1) assms(2) z] assms(3) NxMSG_STATUS show ?thesis
      by (auto simp: market_bytes_def intro: wired_at)
  next
    case (NxMSG_OTHER k)
    with assms(1,3) show ?thesis by (auto simp: callback_handle_def nxtape_handle_def market_bytes_def)
  qed
qed

subsection \<open>The whole program\<close>

definition sys_chans :: "string \<Rightarrow> string \<Rightarrow> string \<Rightarrow> 'w sys \<Rightarrow> (chan \<times> string) list" where
  "sys_chans i out md s = in_chans i (in_at s) @ out_chans out (out_at s) @ mk_chans md (mk_at s)"

definition names_ok :: "w_conf \<Rightarrow> string \<Rightarrow> string \<Rightarrow> string \<Rightarrow> bool" where
  "names_ok conf i out md \<longleftrightarrow> cchan_in_fqcn conf = CStr i \<and> cchan_out_fqcn conf = CStr out \<and>
     mchan_fqcn conf = CStr md \<and> distinct [i, out, DEFAULTS_ICHAN_NAME] \<and>
     md \<notin> {out, DEFAULTS_ICHAN_NAME}"

definition small_responses :: "'w env \<Rightarrow> Response list \<Rightarrow> bool" where
  "small_responses e rs \<longleftrightarrow> (\<forall>r \<in> set rs. length (SerializeResponse e r) < 2147483648)"

lemma in_flight_queue:
  assumes "map (SerializeResponse e) rs = in_flight W out p w" "small_responses e rs"
  shows "small_queue W w"
  unfolding small_queue_def
proof
  fix d assume "d \<in> set (wr_queue W w DEFAULTS_ICHAN_NAME)"
  then have "d \<in> set (map (SerializeResponse e) rs)" unfolding assms(1) in_flight_def by simp
  with assms(2) show "length d < 2147483648" by (auto simp: small_responses_def)
qed

definition connected :: "'w wire \<Rightarrow> string \<Rightarrow> string \<Rightarrow> string \<Rightarrow> 'w sys \<Rightarrow> bool" where
  "connected W i out md s \<longleftrightarrow> sys_inv s \<and> wired W (world (sh_io (sys_sh s))) (sys_chans i out md s) \<and>
     mk_link (mk_at s) (mk_nx (mk_vars s))"

abbreviation queue_of :: "'w wire \<Rightarrow> 'w sys \<Rightarrow> string \<Rightarrow> string list" where
  "queue_of W s \<equiv> wr_queue W (world (sh_io (sys_sh s)))"

text \<open>The messages of NxCore that the callback has handled, in the course of a step.\<close>

definition answered :: "action \<Rightarrow> 'w sys \<Rightarrow> NxMessageType list" where
  "answered a s = (case (a, mk_at s) of (Act_Answer _, M_Callback _ _ _ mt) \<Rightarrow> [mt] | _ \<Rightarrow> [])"

definition world_leaves :: "('w \<Rightarrow> 'w \<Rightarrow> bool) \<Rightarrow> 'w wire \<Rightarrow> string \<Rightarrow> bool" where
  "world_leaves R W n \<longleftrightarrow> (\<forall>w w'. R w w' \<longrightarrow> wr_queue W w' n = wr_queue W w n)"

text \<open>
  What a step does to the queues: the responses in flight grow by what the request thread
  replied, the market queue by what the callback sent, and no other one changes.
\<close>

lemma connected_step:
  assumes "sys_step e conf R s a s'" "connected W i out md s" "zmq_documented e R W out" "names_ok conf i out md"
  shows "connected W i out md s' \<and>
    (small_queue W (world (sh_io (sys_sh s))) \<longrightarrow> in_flight W out (out_at s') (world (sh_io (sys_sh s'))) =
       in_flight W out (out_at s) (world (sh_io (sys_sh s))) @ map (SerializeResponse e) (replied a s)) \<and>
    (\<forall>n. n \<notin> {i, out, DEFAULTS_ICHAN_NAME} \<and> world_leaves R W n \<longrightarrow>
       queue_of W s' n = queue_of W s n @ (if n = md then concat (map (market_bytes e) (answered a s)) else []))"
proof -
  have n: "cchan_in_fqcn conf = CStr i" "cchan_out_fqcn conf = CStr out" "mchan_fqcn conf = CStr md"
      "i \<noteq> DEFAULTS_ICHAN_NAME" "i \<noteq> out" "out \<noteq> DEFAULTS_ICHAN_NAME" "md \<noteq> out" "md \<noteq> DEFAULTS_ICHAN_NAME"
    using assms(4) by (auto simp: names_ok_def)
  have d: "sys_inv s" "wired W (world (sh_io (sys_sh s))) (sys_chans i out md s)"
      "mk_link (mk_at s) (mk_nx (mk_vars s))"
    using assms(2) by (simp_all add: connected_def)
  have inv': "sys_inv s'"
    using sys_inv_step [OF documented_codes [OF assms(3)] d(1) assms(1)] by (rule conjunct1)
  have pcs: "in_pc_inv (in_at s) (w_cmd (in_data (in_vars s))) (w_cmd (g_data (sys_sh s)))" "mk_pc_inv (mk_at s) (mk_nx (mk_vars s))"
    using d(1) by (simp_all add: sys_inv_def Let_def)
  show ?thesis
    using assms(1)
  proof cases
    case (step_in p l sh)
    have "answered a s = []" using step_in(1) by (simp add: answered_def)
    moreover have "replied a s = (case in_at s of In_Reply _ _ r \<Rightarrow> [r] | _ \<Rightarrow> [])"
      using step_in(1) by (simp add: replied_def)
    then have "map (SerializeResponse e) (replied a s) = reply_bytes e (in_at s)"
      by (simp add: reply_bytes_def split: in_pc.split)
    ultimately show ?thesis
      using n in_step_wired [OF step_in(3) assms(3) _ n(1) pcs(1),
        of "out_chans out (out_at s) @ mk_chans md (mk_at s)"] inv' step_in(2) d
      by (simp add: connected_def Let_def sys_chans_def in_flight_def)
  next
    case (step_out p l sh)
    have "answered a s = []" "replied a s = []" using step_out(1) by (simp_all add: answered_def replied_def)
    with out_step_wired [OF step_out(3) assms(3) n(2) _ n(6),
        of "in_chans i (in_at s)" "mk_chans md (mk_at s)"] inv' step_out(2) d
    show ?thesis by (simp add: connected_def Let_def sys_chans_def)
  next
    case (step_market p l sh)
    have "answered a s = []" "replied a s = []" using step_market(1) by (simp_all add: answered_def replied_def)
    with market_step_wired [OF step_market(3) assms(3) n(3) _ d(3) pcs(2),
        of "in_chans i (in_at s) @ out_chans out (out_at s)"] inv' step_market(2) d
    show ?thesis by (simp add: connected_def Let_def sys_chans_def in_flight_def)
  next
    case (step_callback c o' b l sh mt)
    have "answered a s = []" "replied a s = []" using step_callback(1) by (simp_all add: answered_def replied_def)
    with callback_read_link [OF step_callback(4)] inv' step_callback(2,3) d show ?thesis
      by (simp add: connected_def Let_def sys_chans_def in_flight_def mk_link_def)
  next
    case (step_answer c o' b mt ret sh)
    have "answered a s = [mt]" "replied a s = []" using step_answer(1,3) by (simp_all add: answered_def replied_def)
    moreover have c: "(c, md) \<in> set (sys_chans i out md s)" "g_mchan (mk_nx (mk_vars s)) = Some c"
      using step_answer(3) d(3) by (simp_all add: sys_chans_def mk_link_def)
    note callback_wired [OF step_answer(4) assms(3) d(2) c]
    ultimately show ?thesis
      using inv' step_answer(2,3) d n(7,8)
      by (simp add: connected_def Let_def sys_chans_def in_flight_def mk_link_def)
  next
    case (step_return c o' b)
    have "answered a s = []" "replied a s = []" using step_return(1) by (simp_all add: answered_def replied_def)
    with inv' step_return(2,3) d show ?thesis
      by (simp add: connected_def Let_def sys_chans_def mk_link_def)
  next
    case (step_world w)
    have "answered a s = []" "replied a s = []" using step_world(1) by (simp_all add: answered_def replied_def)
    with documented_world [OF assms(3) step_world(3)] inv' step_world(2,3) d show ?thesis
      by (auto simp: connected_def Let_def sys_chans_def in_flight_def world_leaves_def intro: wired_at)
  qed
qed

lemma connected_start:
  assumes "wineing_init e (shared_static b io) = Inr (Continue (), sh)" "buffers_ok b"
  shows "connected W i out md (threads_start b sh)"
    "world (sh_io (sys_sh (threads_start b sh))) = snd (LoadLibrary e ''lib/NxCoreAPI64.dll'' (world io))"
proof -
  show "connected W i out md (threads_start b sh)"
    using threads_start_inv [OF assms(2,1)]
    by (simp add: connected_def sys_chans_def threads_start_def sys_start_def wired_def mk_link_def)
  show "world (sh_io (sys_sh (threads_start b sh))) = snd (LoadLibrary e ''lib/NxCoreAPI64.dll'' (world io))"
    using init_world [OF assms(1)] by (simp add: shared_static_def threads_start_def sys_start_def)
qed

definition delivery :: "'w env \<Rightarrow> 'w wire \<Rightarrow> string \<Rightarrow> string \<Rightarrow> string \<Rightarrow> Response list \<Rightarrow> 'w sys \<Rightarrow> bool" where
  "delivery e W i out md rs s \<longleftrightarrow> connected W i out md s \<and>
     map (SerializeResponse e) rs = in_flight W out (out_at s) (world (sh_io (sys_sh s)))"

lemma delivery_step:
  assumes "sys_step e conf R s a s'" "delivery e W i out md rs s" "zmq_documented e R W out"
    and "names_ok conf i out md" "small_responses e rs"
  shows "delivery e W i out md (rs @ replied a s) s'"
proof -
  have d: "connected W i out md s"
      "map (SerializeResponse e) rs = in_flight W out (out_at s) (world (sh_io (sys_sh s)))"
    using assms(2) by (simp_all add: delivery_def)
  from connected_step [OF assms(1) d(1) assms(3,4)] in_flight_queue [OF d(2) assms(5)] d(2)
  show ?thesis by (simp add: delivery_def)
qed

lemma delivery_run:
  assumes "sys_run e conf R s rs s'" "delivery e W i out md [] s" "zmq_documented e R W out"
    and "names_ok conf i out md" "small_responses e rs"
  shows "delivery e W i out md rs s'"
  using assms(1,2,5)
proof (induction rule: sys_run.induct)
  case (run_step s rs s' a s'')
  then show ?case
    using delivery_step [OF run_step(2) _ assms(3,4)] by (simp add: small_responses_def)
qed simp

lemma program_delivery:
  assumes "program_state e conf R b io rs s" "buffers_ok b" "zmq_documented e R W out"
    and "names_ok conf i out md" "small_responses e rs"
    and "\<forall>n \<in> {out, DEFAULTS_ICHAN_NAME}.
           wr_queue W (snd (LoadLibrary e ''lib/NxCoreAPI64.dll'' (world io))) n = []"
  shows "delivery e W i out md rs s"
  using assms(1)
proof cases
  case (1 sh)
  note st = connected_start [OF 1(1) assms(2)]
  have "out_at (threads_start b sh) = O_Start" by (simp add: threads_start_def sys_start_def)
  with st(1) assms(6) have "delivery e W i out md [] (threads_start b sh)"
    by (simp add: delivery_def st(2) in_flight_def held_def)
  from delivery_run [OF 1(2) this assms(3-5)] show ?thesis .
qed

text \<open>
  C2. Conservation and order of responses, end to end: if ZeroMQ behaves as documented and the
  configured endpoints are different, then in every state the program can be in, under every
  schedule and with any messages from outside, the responses of the request thread are
  exactly, in order and byte for byte, what was sent on the clients' channel, followed by the
  message the response thread holds, followed by the inproc queue. Nothing is lost,
  duplicated, reordered or made up on the way.
\<close>
theorem responses_conserved:
  assumes "program_state e conf R b io rs s" "buffers_ok b" "zmq_documented e R W out"
    and "names_ok conf i out md" "small_responses e rs"
    and "\<forall>n \<in> {out, DEFAULTS_ICHAN_NAME}.
           wr_queue W (snd (LoadLibrary e ''lib/NxCoreAPI64.dll'' (world io))) n = []"
  shows "map (SerializeResponse e) rs = wr_queue W (world (sh_io (sys_sh s))) out @
     held (out_at s) @ wr_queue W (world (sh_io (sys_sh s))) DEFAULTS_ICHAN_NAME"
  using program_delivery [OF assms] by (simp add: delivery_def in_flight_def)

end
