(* ===== verification/Startup.thy ===== *)
theory Startup
  imports System_Faults
begin

text \<open>
  What happens while the threads connect to the inproc channel: a failed attempt leaves its
  socket open, and without the endpoint the program neither serves a request nor ends.
\<close>

subsection \<open>Failed attempts\<close>

lemma failed_connect_bind:
  assumes "push_chan o'" "zmq_socket e ZMQ_PUSH (world io) = (Some s, w1)"
    and "zmq_connect e (Some s) DEFAULTS_ICHAN_NAME w1 = (rc, w2)" "rc <s 0"
  shows "chan_bind e o' io = Inr (rc, o'\<lparr>sock := Sock (Some s)\<rparr>, io\<lparr>world := w2\<rparr>)"
proof -
  have t: "chan_type o' = CHAN_TYPE_PUSH_CONNECT" "fqcn o' = CStr DEFAULTS_ICHAN_NAME"
    using assms(1) by (simp_all add: push_chan_def)
  have z: "to_zmq_type (chan_type o') = ZMQ_PUSH" "\<not> binds (chan_type o')"
    by (simp_all add: t to_zmq_type_def binds_def chan_types)
  have a: "attach e (chan_type o') (Some s) DEFAULTS_ICHAN_NAME w1 = (rc, w2)"
    using assms(3) z(2) by (simp add: attach_def)
  have "rc \<noteq> 0" using assms(4) by auto
  with chan_bind_attach [OF _ t(2) _ a] assms(2) z(1) t(1) show ?thesis by simp
qed

text \<open>
  A failed attempt of the request thread or the market thread to connect to the inproc
  channel leaks its socket: it is created, the connect fails, and the thread goes on to the
  next attempt, which will replace the only reference to it, without closing it.
\<close>
lemma failed_connect_leaks_socket:
  assumes "push_chan o'" "zmq_socket e ZMQ_PUSH (world (sh_io sh)) = (Some s, w1)"
    and "zmq_connect e (Some s) DEFAULTS_ICHAN_NAME w1 = (rc, w2)" "rc <s 0"
  shows "in_step e conf (In_Connect c o') l sh = Inr (In_Connect c (o'\<lparr>sock := Sock (Some s)\<rparr>), l,
       sh\<lparr>sh_io := (sh_io sh)\<lparr>world := w2\<rparr>\<rparr>) \<and>
    market_step e conf (M_Connect c o') lm sh = Inr (M_Connect c (o'\<lparr>sock := Sock (Some s)\<rparr>), lm,
       sh\<lparr>sh_io := (sh_io sh)\<lparr>world := w2\<rparr>\<rparr>)"
  using failed_connect_bind [OF assms] assms(4)
  by (simp add: in_step_def in_connect_def market_step_def market_connect_def)

subsection \<open>Without the inproc endpoint\<close>

text \<open>
  ZeroMQ documents that connecting to an inproc endpoint fails until it is bound; when the
  response thread could not bind it, every attempt fails.
\<close>

definition inproc_refused :: "'w env \<Rightarrow> bool" where
  "inproc_refused e \<longleftrightarrow> (\<forall>s w. fst (zmq_connect e s DEFAULTS_ICHAN_NAME w) <s 0)"

lemma refused_bind:
  assumes "inproc_refused e" "push_chan o'" "chan_bind e o' io = Inr (rc, c', io')"
  shows "rc <s 0"
proof -
  obtain s w1 where s: "zmq_socket e ZMQ_PUSH (world io) = (s, w1)" by (metis surj_pair)
  have z: "to_zmq_type (chan_type o') = ZMQ_PUSH"
    using assms(2) by (simp add: push_chan_def to_zmq_type_def chan_types)
  show ?thesis
  proof (cases s)
    case None
    with chan_bind_no_socket [of e o' io w1] s z assms(3) show ?thesis by (simp add: word_sless_alt)
  next
    case (Some n)
    obtain r w2 where c: "zmq_connect e (Some n) DEFAULTS_ICHAN_NAME w1 = (r, w2)" by (metis surj_pair)
    moreover from this have "r <s 0" using assms(1) unfolding inproc_refused_def by (metis fst_conv)
    ultimately show ?thesis
      using failed_connect_bind [OF assms(2) s [unfolded Some] c] assms(3) by simp
  qed
qed

definition starting :: "'w sys \<Rightarrow> bool" where
  "starting s \<longleftrightarrow> sys_inv s \<and>
     (case in_at s of In_Start \<Rightarrow> True | In_Connect _ _ \<Rightarrow> True | In_End \<Rightarrow> True | _ \<Rightarrow> False) \<and>
     (case mk_at s of M_Start \<Rightarrow> True | M_Connect _ _ \<Rightarrow> True | M_End \<Rightarrow> True | _ \<Rightarrow> False)"

lemma starting_step:
  assumes "inproc_refused e" "recv_codes e" "starting s" "sys_step e conf R s a s'"
  shows "starting s' \<and> replied a s = []"
proof -
  have inv': "sys_inv s'"
    using sys_inv_step [OF assms(2) _ assms(4)] assms(3) by (simp add: starting_def)
  have pcs: "in_pc_inv (in_at s) (w_cmd (in_data (in_vars s))) (w_cmd (g_data (sys_sh s)))" "mk_pc_inv (mk_at s) (mk_nx (mk_vars s))"
    using assms(3) by (simp_all add: starting_def sys_inv_def Let_def)
  have rep: "replied a s = []"
    using assms(3) by (auto simp: replied_def starting_def split: action.splits in_pc.splits)
  have "starting s'"
    using assms(4)
  proof cases
    case (step_in p l sh)
    show ?thesis
    proof (cases "in_at s")
      case In_Start
      with step_in(3) have "case p of In_Start \<Rightarrow> True | In_Connect _ _ \<Rightarrow> True | In_End \<Rightarrow> True | _ \<Rightarrow> False"
        by (auto simp: in_step_def in_start_def res_simps Let_def split: if_splits)
      with inv' step_in(2) assms(3) show ?thesis by (simp add: starting_def)
    next
      case (In_Connect c o')
      with step_in(3) pcs(1) have "\<exists>o2. p = In_Connect c o2"
        by (auto simp: in_step_def in_connect_def res_simps Let_def split: if_splits
            dest: refused_bind [OF assms(1)])
      with inv' step_in(2) assms(3) show ?thesis by (auto simp: starting_def)
    qed (use assms(3) step_in(3) in \<open>simp_all add: starting_def in_step_def\<close>)
  next
    case (step_market p l sh)
    show ?thesis
    proof (cases "mk_at s")
      case M_Start
      with step_market(3) have "case p of M_Start \<Rightarrow> True | M_Connect _ _ \<Rightarrow> True | M_End \<Rightarrow> True | _ \<Rightarrow> False"
        by (auto simp: market_step_def market_start_def res_simps Let_def split: if_splits)
      with inv' step_market(2) assms(3) show ?thesis by (simp add: starting_def)
    next
      case (M_Connect c o')
      with step_market(3) pcs(2) have "\<exists>o2. p = M_Connect c o2"
        by (auto simp: market_step_def market_connect_def res_simps Let_def split: if_splits
            dest: refused_bind [OF assms(1)])
      with inv' step_market(2) assms(3) show ?thesis by (auto simp: starting_def)
    qed (use assms(3) step_market(3) in \<open>simp_all add: starting_def market_step_def\<close>)
  qed (use inv' assms(3) in \<open>auto simp: starting_def in_nx_def split: m_pc.splits\<close>)
  with rep show ?thesis by simp
qed

lemma stay_step:
  assumes "inproc_refused e" "starting s" "sys_step e conf R s a s'"
  shows "(in_at s = In_Connect c o' \<longrightarrow> (\<exists>o2. in_at s' = In_Connect c o2)) \<and>
    (mk_at s = M_Connect cm om \<longrightarrow> (\<exists>o2. mk_at s' = M_Connect cm o2))"
proof -
  have pcs: "in_pc_inv (in_at s) (w_cmd (in_data (in_vars s))) (w_cmd (g_data (sys_sh s)))" "mk_pc_inv (mk_at s) (mk_nx (mk_vars s))"
    using assms(2) by (simp_all add: starting_def sys_inv_def Let_def)
  show ?thesis
    using assms(3)
  proof cases
    case (step_in p l sh)
    with pcs(1) show ?thesis
      by (auto simp: in_step_def in_connect_def res_simps Let_def split: if_splits
          dest: refused_bind [OF assms(1)])
  next
    case (step_market p l sh)
    with pcs(2) show ?thesis
      by (auto simp: market_step_def market_connect_def res_simps Let_def split: if_splits
          dest: refused_bind [OF assms(1)])
  qed (auto simp: in_nx_def)
qed

lemma starting_run:
  assumes "sys_run e conf R s rs s'" "inproc_refused e" "recv_codes e" "starting s"
  shows "starting s' \<and> rs = []"
  using assms(1,4)
proof (induction rule: sys_run.induct)
  case (run_step s rs s' a s'')
  with starting_step [OF assms(2,3) _ run_step(2)] show ?case by simp
qed simp

text \<open>
  C29. If connecting to the inproc channel is refused (the response thread has ended because it
  could not bind its channels), no request is ever handled, NxCore is never run, no response
  is ever made, and the request thread and the market thread, once they have bound their own
  channels, retry for ever: they do not end, so the program does not either.
\<close>
theorem no_inproc_no_service:
  assumes "program_state e conf R b io rs s" "buffers_ok b" "recv_codes e" "inproc_refused e"
    and "sys_run e conf R s rs' s'"
  shows "rs = [] \<and> rs' = [] \<and> (\<forall>c o'. in_at s' \<noteq> In_Loop c o') \<and> \<not> in_nx (mk_at s') \<and>
    (\<forall>c o'. in_at s = In_Connect c o' \<longrightarrow> (\<exists>o2. in_at s' = In_Connect c o2)) \<and>
    (\<forall>c o'. mk_at s = M_Connect c o' \<longrightarrow> (\<exists>o2. mk_at s' = M_Connect c o2))"
proof -
  have st: "starting s \<and> rs = []"
    using assms(1)
  proof cases
    case (1 sh)
    have "starting (threads_start b sh)"
      using threads_start_inv [OF assms(2) 1(1)]
      by (simp add: starting_def threads_start_def sys_start_def)
    from starting_run [OF 1(2) assms(4,3) this] show ?thesis .
  qed
  then have s': "starting s' \<and> rs' = []" using starting_run [OF assms(5,4,3)] by simp
  have in_stay: "\<exists>o2. in_at s' = In_Connect c o2" if "in_at s = In_Connect c o'" for c o'
    using sys_run_invariant [OF assms(5), of "\<lambda>s. starting s \<and> (\<exists>o2. in_at s = In_Connect c o2)"] that st
      starting_step [OF assms(4,3)] stay_step [OF assms(4)] by metis
  have mk_stay: "\<exists>o2. mk_at s' = M_Connect c o2" if "mk_at s = M_Connect c o'" for c o'
    using sys_run_invariant [OF assms(5), of "\<lambda>s. starting s \<and> (\<exists>o2. mk_at s = M_Connect c o2)"] that st
      starting_step [OF assms(4,3)] stay_step [OF assms(4)] by metis
  have at: "(\<forall>c o'. in_at s' \<noteq> In_Loop c o') \<and> \<not> in_nx (mk_at s')"
    using s' by (auto simp: starting_def in_nx_def split: m_pc.splits)
  show ?thesis using st s' at in_stay mk_stay by blast
qed

end
