(* ===== verification/System_Runs.thy ===== *)
theory System_Runs
  imports System_Shutdown Response_Order Startup Demo_World
begin

text \<open>
  Runs of the whole program in the concrete environment of \<open>Demo_World\<close>, computed step by step
  along a schedule, and the witnesses of the properties of the running program.
\<close>

subsection \<open>Executing a schedule\<close>

text \<open>
  A schedule is a list of actions of the threads (and of NxCore); a step that faults or is not
  possible gives \<open>None\<close>. The return value of a callback is the one the program gives.
\<close>

datatype sched = Go_In | Go_Out | Go_Market | Go_Callback NxMessageType | Go_Answer | Go_Return

fun sched_step :: "'w env \<Rightarrow> w_conf \<Rightarrow> sched \<Rightarrow> 'w sys \<Rightarrow> (action \<times> 'w sys) option" where
  "sched_step e conf Go_In s = (case in_step e conf (in_at s) (in_vars s) (sys_sh s) of
     Inl _ \<Rightarrow> None | Inr (p, l, sh) \<Rightarrow> Some (Act_In, s\<lparr>in_at := p, in_vars := l, sys_sh := sh\<rparr>))"
| "sched_step e conf Go_Out s = (case out_step e conf (out_at s) (out_vars s) (sys_sh s) of
     Inl _ \<Rightarrow> None | Inr (p, l, sh) \<Rightarrow> Some (Act_Out, s\<lparr>out_at := p, out_vars := l, sys_sh := sh\<rparr>))"
| "sched_step e conf Go_Market s = (case market_step e conf (mk_at s) (mk_vars s) (sys_sh s) of
     Inl _ \<Rightarrow> None | Inr (p, l, sh) \<Rightarrow> Some (Act_Market, s\<lparr>mk_at := p, mk_vars := l, sys_sh := sh\<rparr>))"
| "sched_step e conf (Go_Callback mt) s = (case mk_at s of M_Nx c o' b \<Rightarrow>
     (case callback_read (mk_vars s) (sys_sh s) of
        Inl _ \<Rightarrow> None
      | Inr (l, sh) \<Rightarrow> Some (Act_Callback mt, s\<lparr>mk_at := M_Callback c o' b mt, mk_vars := l, sys_sh := sh\<rparr>))
     | _ \<Rightarrow> None)"
| "sched_step e conf Go_Answer s = (case mk_at s of M_Callback c o' b mt \<Rightarrow>
     (case callback_handle e mt (mk_vars s) (sys_sh s) of
        Inl _ \<Rightarrow> None
      | Inr (ret, sh) \<Rightarrow> Some (Act_Answer ret, s\<lparr>mk_at := M_Nx c o' b, sys_sh := sh\<rparr>))
     | _ \<Rightarrow> None)"
| "sched_step e conf Go_Return s = (case mk_at s of
     M_Nx c o' b \<Rightarrow> Some (Act_Return, s\<lparr>mk_at := M_Loop c o'\<rparr>) | _ \<Rightarrow> None)"

fun sched_run :: "'w env \<Rightarrow> w_conf \<Rightarrow> sched list \<Rightarrow> 'w sys \<Rightarrow> (Response list \<times> 'w sys) option" where
  "sched_run e conf [] s = Some ([], s)"
| "sched_run e conf (x # xs) s = (case sched_step e conf x s of None \<Rightarrow> None
     | Some (a, s') \<Rightarrow> (case sched_run e conf xs s' of None \<Rightarrow> None
         | Some (rs, s'') \<Rightarrow> Some (replied a s @ rs, s'')))"

lemma sched_step_sound: "sched_step e conf x s = Some (a, s') \<Longrightarrow> sys_step e conf R s a s'"
  by (cases x) (auto split: sum.splits m_pc.splits intro: sys_step.intros)

lemma sched_run_sound: "sched_run e conf xs s = Some (rs, s') \<Longrightarrow> sys_run e conf R s rs s'"
proof (induction xs arbitrary: s rs)
  case Nil
  then show ?case by (auto intro: run_refl)
next
  case (Cons x xs)
  then obtain a s1 rs1 where st: "sched_step e conf x s = Some (a, s1)"
      "sched_run e conf xs s1 = Some (rs1, s')" "rs = replied a s @ rs1"
    by (auto split: option.splits)
  have "sys_run e conf R s (replied a s) s1"
    using run_step [OF run_refl sched_step_sound [OF st(1)]] by simp
  from sys_run_trans [OF Cons.IH [OF st(2)] this] st(3) show ?case by simp
qed

subsection \<open>The program in the concrete environment\<close>

text \<open>The concrete environment, built without log messages.\<close>

definition demo_quiet :: "demo_world env" where
  "demo_quiet = demo_env\<lparr>LOG_LEVEL := LOG_NONE\<rparr>"

lemma demo_quiet_simps [simp]:
  "LOG_LEVEL demo_quiet = LOG_NONE" "zmq_socket demo_quiet = demo_socket"
  "zmq_bind demo_quiet = demo_bind" "zmq_connect demo_quiet = demo_connect"
  "zmq_send demo_quiet = demo_send" "zmq_recv demo_quiet = demo_recv"
  "zmq_close demo_quiet = demo_close" "zmq_term demo_quiet = demo_term" "ParseRequest demo_quiet = demo_parse"
  "SerializeResponse demo_quiet = demo_serialize" "LoadLibrary demo_quiet = (\<lambda>_ w. (Some 1, w))"
  by (simp_all add: demo_quiet_def demo_env_def)

lemma log_none [simp]:
  "log_enabled LOG_NONE LOG_DEBUG = False" "log_enabled LOG_NONE LOG_WARN = False"
  "log_enabled LOG_NONE LOG_INFO = False" "log_enabled LOG_NONE LOG_ERROR = False"
  by (simp_all add: log_enabled_iff log_levels)

lemma log_disabled [simp]:
  "\<not> log_enabled (LOG_LEVEL e) lv \<Longrightarrow> log e lv m as io = Inr io"
  "\<not> log_enabled (LOG_LEVEL e) lv \<Longrightarrow> sh_log e lv m as sh = Inr sh"
  "\<not> log_enabled (LOG_LEVEL e) lv \<Longrightarrow> sh_log_lazy e lv m bs sh = Inr sh"
  by (simp_all add: log_def log_emit_def sh_log_def sh_log_lazy_def)

definition demo_buffers :: buffers where
  "demo_buffers = \<lparr>b_global = nul_buffer, b_in = nul_buffer, b_out = nul_buffer,
     b_market = nul_buffer, b_callback = nul_buffer\<rparr>"

lemma demo_buffers_ok: "buffers_ok demo_buffers"
  by (simp add: buffers_ok_def demo_buffers_def)

lemma demo_recv_codes: "recv_codes demo_quiet"
  by (auto simp: recv_codes_def demo_recv_def word_sless_alt split: option.splits list.splits)

text \<open>The clients' requests are queued before the program starts.\<close>

definition demo_io :: "string list \<Rightarrow> demo_world io" where
  "demo_io reqs = \<lparr>world = demo_put ''in'' reqs demo_world0, stdout = []\<rparr>"

definition demo_boot :: "string list \<Rightarrow> demo_world shared" where
  "demo_boot reqs = demo_shared 0 (ctrl_init nul_buffer) (demo_put ''in'' reqs demo_world0)"

lemma demo_init: "wineing_init demo_quiet (shared_static demo_buffers (demo_io reqs)) = Inr (Continue (), demo_boot reqs)"
  by (simp add: wineing_init_def wininf_nxcore_load_def on_world_def shared_static_def demo_io_def
      demo_boot_def demo_shared_def demo_buffers_def lazy_init_def conc_static_def shared_versions)

abbreviation demo_run :: "string list \<Rightarrow> sched list \<Rightarrow> (Response list \<times> demo_world sys) option" where
  "demo_run reqs xs \<equiv> sched_run demo_quiet demo_conf xs (threads_start demo_buffers (demo_boot reqs))"

lemma demo_program:
  "demo_run reqs xs = Some (rs, s) \<Longrightarrow>
   program_state demo_quiet demo_conf R demo_buffers (demo_io reqs) rs s"
  by (rule program_state.intros [OF demo_init sched_run_sound])

text \<open>The definitions a run is computed with.\<close>

lemmas start_defs = threads_start_def sys_start_def demo_boot_def demo_shared_def demo_buffers_def
  ctrl_init_def in_static_def out_static_def mk_static_def nxtape_static_def shared_versions
  demo_world0_def demo_conf_def

lemmas chan_defs = chan_bind_def chan_init_def chan_recv_def chan_send_def chan_sock_def chan_destroy_def
  to_zmq_type_def binds_def connects_def chan_types on_world_def demo_socket_def demo_bind_def
  demo_connect_def demo_attach_def demo_at_def demo_put_def demo_recv_def demo_send_def demo_close_def demo_serialize_def

lemmas in_defs = in_step_def in_start_def in_connect_def in_turn_def recv_ctrl_def Request_Clear_def
  in_dispatch_def cchan_in_switch_def handle_shutdown_def handle_market_stop_def handle_market_start_def
  Response_Clear_def publish_data_def set_cmd_def signal_market_def cchan_in_reply_def replied_def

lemmas out_defs = out_step_def out_start_def out_read_def out_test_def out_recv_def out_send_def
  cchan_in_mem_copy_def memcpy_def OUT_BUFFER_SIZE_def size_t_of_int_nonneg

lemmas market_defs = market_step_def market_start_def market_connect_def market_read_def market_act_def nxtape_init_def

lemmas run_defs = start_defs chan_defs in_defs out_defs market_defs update_g_data_def read_g_data_def
  conc_op_defs copy_defs ctrl_cmds c_inc_def INT_MAX_def word_sless_alt DEFAULTS_ICHAN_NAME_def

subsection \<open>The response to SHUTDOWN\<close>

definition lossy_schedule :: "sched list" where
  "lossy_schedule = [Go_Out, Go_In, Go_In, Go_In, Go_In, Go_In, Go_Out, Go_Out, Go_In, Go_In, Go_In,
     Go_Market, Go_Market, Go_Market, Go_Market]"

definition good_schedule :: "sched list" where
  "good_schedule = [Go_Out, Go_In, Go_In, Go_Out, Go_Out, Go_In, Go_In, Go_In, Go_In, Go_In, Go_In,
     Go_Out, Go_Out, Go_Out, Go_Out, Go_Market, Go_Market, Go_Market, Go_Market]"

text \<open>The inproc queue and the messages sent to the clients.\<close>

abbreviation pending :: "demo_world sys \<Rightarrow> string list" where
  "pending s \<equiv> dw_queue (world (sh_io (sys_sh s))) DEFAULTS_ICHAN_NAME"

abbreviation sent :: "demo_world sys \<Rightarrow> string list" where
  "sent s \<equiv> dw_queue (world (sh_io (sys_sh s))) ''out''"

lemma lossy_run:
  "\<exists>rs s. demo_run [''x''] lossy_schedule = Some (rs, s) \<and> all_joined s \<and>
     map res_type rs = [Some SHUTDOWN_OK] \<and> pending s = [''!''] \<and> sent s = []"
  by (simp add: lossy_schedule_def run_defs all_joined_def)

lemma good_run:
  "\<exists>rs s. demo_run [''x''] good_schedule = Some (rs, s) \<and> all_joined s \<and>
     map res_type rs = [Some SHUTDOWN_OK] \<and> pending s = [] \<and> sent s = [''!'']"
  by (simp add: good_schedule_def run_defs all_joined_def)

lemma good_run_bytes:
  "\<exists>rs s. demo_run [''x''] good_schedule = Some (rs, s) \<and>
     map (SerializeResponse demo_quiet) rs = [''!''] \<and> sent s = [''!'']"
  by (simp add: good_schedule_def run_defs)

text \<open>
  C24. The response to SHUTDOWN can be lost: the request thread publishes the command before it
  sends the response, and the response thread tests the command before it receives. So one
  and the same request has two complete runs of the program: one in which the client gets the
  response, and one in which the program ends with the response still in the inproc queue.
\<close>
theorem shutdown_response_race:
  "(\<exists>rs s. program_state demo_quiet demo_conf R demo_buffers (demo_io [''x'']) rs s \<and> all_joined s \<and>
      map res_type rs = [Some SHUTDOWN_OK] \<and> pending s = [''!''] \<and> sent s = []) \<and>
   (\<exists>rs s. program_state demo_quiet demo_conf R demo_buffers (demo_io [''x'']) rs s \<and> all_joined s \<and>
      map res_type rs = [Some SHUTDOWN_OK] \<and> pending s = [] \<and> sent s = [''!''])"
  using lossy_run good_run by (meson demo_program)

subsection \<open>Witnesses for the properties of the running program\<close>

lemma demo_names:
  "cchan_in_fqcn demo_conf = CStr ''in''" "cchan_out_fqcn demo_conf = CStr ''out''"
  "mchan_fqcn demo_conf = CStr ''md''" "tape_basedir demo_conf = CStr ''C:''"
  by (simp_all add: demo_conf_def)

text \<open>A run up to the publication of SHUTDOWN, and one in which both threads wait.\<close>

definition published_schedule :: "sched list" where
  "published_schedule = [Go_Out, Go_In, Go_In, Go_In, Go_In, Go_In]"

lemma shutdown_published:
  "\<exists>rs s. demo_run [''x''] published_schedule = Some (rs, s) \<and>
     w_cmd (g_data (sys_sh s)) = WINEING_CTRL_CMD_SHUTDOWN \<and>
     g_version (conc (sys_sh s)) = 1 \<and> (\<exists>c o' r. in_at s = In_Signal c o' r) \<and> out_at s \<noteq> O_End \<and>
     (\<exists>rs' s'. sched_run demo_quiet demo_conf [Go_Out, Go_Out, Go_In, Go_In, Go_In] s = Some (rs', s') \<and>
       in_at s' = In_End \<and> out_at s' = O_End)"
  by (simp add: published_schedule_def run_defs)

lemma shutdown_out_step:
  "\<exists>rs s s'. demo_run [''x''] published_schedule = Some (rs, s) \<and>
     w_cmd (g_data (sys_sh s)) = WINEING_CTRL_CMD_SHUTDOWN \<and>
     sched_step demo_quiet demo_conf Go_Out s = Some (Act_Out, s')"
  by (simp add: published_schedule_def run_defs)

lemma threads_waiting:
  "\<exists>rs s c m c' o'. demo_run [] [Go_Out, Go_Out, Go_Out, Go_In, Go_In, Go_Market] = Some (rs, s) \<and>
     in_at s = In_Loop c o' \<and> out_at s = O_Recv c' m \<and> mk_at s \<noteq> M_End \<and> \<not> in_nx (mk_at s) \<and>
     in_step demo_quiet demo_conf (in_at s) (in_vars s) (sys_sh s) = Inl WouldBlock \<and>
     out_step demo_quiet demo_conf (out_at s) (out_vars s) (sys_sh s) = Inl WouldBlock"
  by (simp add: run_defs in_nx_def)

theorem threads_agree_on_published_state_witness:
  "\<exists>rs s. program_state demo_quiet demo_conf (\<lambda>_ _. False) demo_buffers (demo_io [''x'']) rs s \<and>
     w_cmd (in_data (in_vars s)) = WINEING_CTRL_CMD_SHUTDOWN \<and> sint (out_version (out_vars s)) \<le> 1"
proof -
  obtain rs s where r: "demo_run [''x''] published_schedule = Some (rs, s)"
     "w_cmd (g_data (sys_sh s)) = WINEING_CTRL_CMD_SHUTDOWN" "g_version (conc (sys_sh s)) = 1"
     "\<exists>c o' r. in_at s = In_Signal c o' r"
    using shutdown_published by blast
  from threads_agree_on_published_state [OF demo_program [OF r(1)] demo_buffers_ok demo_recv_codes,
      of "out_version (out_vars s)" "out_data (out_vars s)"] r(2-4) have "w_cmd (in_data (in_vars s)) = WINEING_CTRL_CMD_SHUTDOWN"
      "sint (out_version (out_vars s)) \<le> 1"
    by auto
  with demo_program [OF r(1)] show ?thesis by blast
qed

theorem market_thread_never_faults_witness:
  "\<exists>rs s. program_state demo_quiet demo_conf (\<lambda>_ _. False) demo_buffers (demo_io []) rs s \<and>
     (\<exists>r. market_step demo_quiet demo_conf (mk_at s) (mk_vars s) (sys_sh s) = Inr r)"
proof -
  obtain rs s where r: "demo_run [] [Go_Out, Go_Out, Go_Out, Go_In, Go_In, Go_Market] = Some (rs, s)"
     "mk_at s \<noteq> M_End" "\<not> in_nx (mk_at s)"
    using threads_waiting by blast
  have "\<exists>r. market_step demo_quiet demo_conf (mk_at s) (mk_vars s) (sys_sh s) = Inr r"
    using market_thread_never_faults [OF demo_program [OF r(1)] demo_buffers_ok demo_recv_codes
        demo_names(3) r(2)] r(3) by (cases "mk_at s") (auto simp: in_nx_def)
  with demo_program [OF r(1)] show ?thesis by blast
qed

theorem response_thread_faults_witness:
  "\<exists>rs s c m z. program_state demo_quiet demo_conf (\<lambda>_ _. False) demo_buffers (demo_io []) rs s \<and>
     out_at s = O_Recv c m \<and> sock m = Sock z \<and> demo_recv z (world (sh_io (sys_sh s))) = None"
proof -
  obtain rs s c m where r: "demo_run [] [Go_Out, Go_Out, Go_Out, Go_In, Go_In, Go_Market] = Some (rs, s)"
     "out_at s = O_Recv c m"
     "out_step demo_quiet demo_conf (out_at s) (out_vars s) (sys_sh s) = Inl WouldBlock"
    using threads_waiting by blast
  have "out_at s \<noteq> O_End" using r(2) by simp
  from response_thread_faults [OF demo_program [OF r(1)] demo_buffers_ok demo_recv_codes
      demo_names(2) this r(3)] have "\<exists>c m z. out_at s = O_Recv c m \<and> sock m = Sock z \<and>
      demo_recv z (world (sh_io (sys_sh s))) = None" by simp
  with demo_program [OF r(1)] show ?thesis by blast
qed

theorem request_thread_faults_witness:
  "\<exists>rs s c o' z. program_state demo_quiet demo_conf (\<lambda>_ _. False) demo_buffers (demo_io []) rs s \<and>
     in_at s = In_Loop c o' \<and> sock c = Sock z"
proof -
  obtain rs s c o' where r: "demo_run [] [Go_Out, Go_Out, Go_Out, Go_In, Go_In, Go_Market] = Some (rs, s)"
     "in_at s = In_Loop c o'"
     "in_step demo_quiet demo_conf (in_at s) (in_vars s) (sys_sh s) = Inl WouldBlock"
    using threads_waiting by blast
  have "in_at s \<noteq> In_End" using r(2) by simp
  from request_thread_faults [OF demo_program [OF r(1)] demo_buffers_ok demo_recv_codes
      demo_names(1,4) this r(3)] r(2) have "\<exists>z. sock c = Sock z" by auto
  with demo_program [OF r(1)] r(2) show ?thesis by blast
qed

theorem shutdown_is_final_witness:
  "\<exists>rs s rs' s'. program_state demo_quiet demo_conf (\<lambda>_ _. False) demo_buffers (demo_io [''x'']) rs s \<and>
     sys_run demo_quiet demo_conf (\<lambda>_ _. False) s rs' s' \<and> out_at s' = O_End \<and> conc (sys_sh s') = conc (sys_sh s)"
proof -
  obtain rs s rs' s' where r: "demo_run [''x''] published_schedule = Some (rs, s)"
     "w_cmd (g_data (sys_sh s)) = WINEING_CTRL_CMD_SHUTDOWN"
     "sched_run demo_quiet demo_conf [Go_Out, Go_Out, Go_In, Go_In, Go_In] s = Some (rs', s')" "out_at s' = O_End"
    using shutdown_published by blast
  note run = sched_run_sound [OF r(3)]
  from shutdown_is_final [OF demo_program [OF r(1)] demo_buffers_ok demo_recv_codes r(2) run]
    demo_program [OF r(1)] run r(4) show ?thesis by blast
qed

theorem shutdown_takes_twelve_steps_witness:
  "\<exists>s s'. w_cmd (g_data (sys_sh s)) = WINEING_CTRL_CMD_SHUTDOWN \<and>
     counted_run demo_quiet demo_conf (\<lambda>_ _. False) s 1 s' \<and> 1 + sys_rank s' \<le> 12"
proof -
  obtain rs s s' where r: "demo_run [''x''] published_schedule = Some (rs, s)"
     "w_cmd (g_data (sys_sh s)) = WINEING_CTRL_CMD_SHUTDOWN"
     "sched_step demo_quiet demo_conf Go_Out s = Some (Act_Out, s')"
    using shutdown_out_step by blast
  have "\<not> idle_step s Act_Out s'" by (simp add: idle_step_def)
  from counted_step [OF counted_refl sched_step_sound [OF r(3)] this]
  have c: "counted_run demo_quiet demo_conf (\<lambda>_ _. False) s 1 s'" by simp
  from shutdown_takes_twelve_steps [OF demo_program [OF r(1)] demo_buffers_ok demo_recv_codes r(2) c] r(2) c
  show ?thesis by blast
qed

theorem shutdown_makes_progress_witness:
  "\<exists>rs s s'. program_state demo_quiet demo_conf (\<lambda>_ _. False) demo_buffers (demo_io [''x'']) rs s \<and>
     sys_step demo_quiet demo_conf (\<lambda>_ _. False) s Act_In s'"
proof -
  obtain rs s where r: "demo_run [''x''] published_schedule = Some (rs, s)"
     "w_cmd (g_data (sys_sh s)) = WINEING_CTRL_CMD_SHUTDOWN" "in_at s \<noteq> In_End"
    using shutdown_published by fastforce
  from shutdown_makes_progress [OF demo_program [OF r(1)] demo_buffers_ok demo_recv_codes demo_names r(2)]
    demo_program [OF r(1)] r(3) show ?thesis by blast
qed

lemma good_run_closes:
  "\<exists>rs s. demo_run [''x''] good_schedule = Some (rs, s) \<and> all_joined s \<and> dw_open (world (sh_io (sys_sh s))) = []"
  by (simp add: good_schedule_def run_defs all_joined_def)

lemma demo_main:
  "\<exists>sh. wineing_main demo_quiet (\<lambda>_ _. False)
     (map opt_arg [Tape ''C:'', In ''in'', Out ''out'', MChan ''md'']) demo_buffers (demo_io [''x'']) 0 sh"
proof -
  obtain rs s where r: "demo_run [''x''] good_schedule = Some (rs, s)" "all_joined s"
      "dw_open (world (sh_io (sys_sh s))) = []"
    using good_run_closes by (elim exE conjE) (rule that)
  have "shared_ready (sys_sh s)"
    using program_state_inv [OF demo_program [OF r(1)] demo_buffers_ok demo_recv_codes]
    by (simp add: sys_inv_def Let_def owner_ok_def in_inv_def)
  from shutdown_releases [OF this, of demo_quiet] r(3)
  obtain sh where sh: "wineing_shutdown demo_quiet (sys_sh s) = Inr sh"
    by (auto simp: demo_term_def)
  have p: "cmd_parse (map opt_arg [Tape ''C:'', In ''in'', Out ''out'', MChan ''md'']) main_defaults
      = Inr (Continue demo_conf)"
    by (simp only: cmd_parse_opts) (simp add: demo_conf_def main_defaults_def)
  have l: "log_config demo_quiet demo_conf (shared_static demo_buffers (demo_io [''x''])) =
      Inr (shared_static demo_buffers (demo_io [''x'']))"
    by (simp add: log_config_def)
  show ?thesis
    using main_normal [OF p l demo_init wineing_run.intros [OF sched_run_sound [OF r(1)] r(2)] sh] by blast
qed

theorem main_exit_code_witness:
  "(\<exists>sh. wineing_main demo_quiet (\<lambda>_ _. False)
     (map opt_arg [Tape ''C:'', In ''in'', Out ''out'', MChan ''md'']) demo_buffers (demo_io [''x'']) 0 sh) \<and>
   dll_found demo_quiet (world (demo_io [''x'']))"
  using demo_main main_exit_code [of demo_quiet "\<lambda>_ _. False"
      "[Tape ''C:'', In ''in'', Out ''out'', MChan ''md'']" demo_buffers "demo_io [''x'']" 0]
  by (fastforce split: if_splits)

subsection \<open>The way of the responses\<close>

definition demo_wire :: "demo_world wire" where
  "demo_wire = \<lparr>wr_at = demo_at, wr_queue = dw_queue\<rparr>"

lemma demo_at_socket: "demo_at (w\<lparr>dw_next := Suc (dw_next w), dw_endpoint := (dw_endpoint w)(dw_next w := None)\<rparr>) = demo_at w"
  by (auto simp: demo_at_def fun_eq_iff split: option.splits)

lemma demo_at_fields [simp]:
  "demo_at (w\<lparr>dw_queue := q\<rparr>) = demo_at w" "demo_at (w\<lparr>dw_bound := bs\<rparr>) = demo_at w"
  "demo_at (w\<lparr>dw_open := ns\<rparr>) = demo_at w"
  by (rule ext, simp add: demo_at_def split: option.split)+

lemma demo_attach_doc: "attach_documented demo_wire s n w (demo_attach s n w)"
  by (auto simp: attach_documented_def demo_wire_def demo_attach_def demo_at_def fun_eq_iff word_sless_alt
      split: option.splits)

lemma demo_documented: "zmq_documented demo_quiet (\<lambda>_ _. False) demo_wire out"
  unfolding zmq_documented_def
proof (intro conjI allI impI ballI)
  show "case zmq_socket demo_quiet t w of (s, w') \<Rightarrow> wr_at demo_wire w' = wr_at demo_wire w \<and>
     wr_queue demo_wire w' = wr_queue demo_wire w \<and> (s \<noteq> None \<longrightarrow> wr_at demo_wire w s = None)" for t w
    by (simp add: demo_socket_def demo_wire_def demo_at_socket) (simp add: demo_at_def)
next
  fix s n w
  have "attach_documented demo_wire s n (w\<lparr>dw_bound := n # dw_bound w\<rparr>) (demo_bind s n w)"
    unfolding demo_bind_def by (rule demo_attach_doc)
  then show "attach_documented demo_wire s n w (zmq_bind demo_quiet s n w)"
    by (simp add: attach_documented_def demo_wire_def)
next
  show "attach_documented demo_wire s n w (zmq_connect demo_quiet s n w)" for s n w
    using demo_attach_doc [of s n w]
    by (simp add: demo_connect_def) (simp add: attach_documented_def word_sless_alt)
next
  show "send_documented demo_wire s d w (zmq_send demo_quiet s d f w)" for s d f w
    by (auto simp: demo_send_def send_documented_def demo_wire_def demo_put_def word_sless_alt split: option.splits)
next
  show "recv_documented demo_wire s w (zmq_recv demo_quiet s w)" for s w
    by (auto simp: demo_recv_def recv_documented_def demo_wire_def demo_put_def word_sless_alt
        split: option.splits list.splits)
qed (simp_all add: demo_close_def demo_wire_def split: option.split)

theorem responses_conserved_witness:
  "\<exists>rs s. program_state demo_quiet demo_conf (\<lambda>_ _. False) demo_buffers (demo_io [''x'']) rs s \<and>
     map demo_serialize rs = sent s @ held (out_at s) @ pending s \<and> sent s = [''!'']"
proof -
  obtain rs s where r: "demo_run [''x''] good_schedule = Some (rs, s)"
     "map (SerializeResponse demo_quiet) rs = [''!'']" "sent s = [''!'']"
    using good_run_bytes by auto
  have n: "names_ok demo_conf ''in'' ''out'' ''md''"
    by (simp add: names_ok_def demo_conf_def DEFAULTS_ICHAN_NAME_def)
  have "small_responses demo_quiet rs"
    using r(2) by (auto simp: small_responses_def)
  moreover have "\<forall>n \<in> {''out'', DEFAULTS_ICHAN_NAME}.
       wr_queue demo_wire (snd (LoadLibrary demo_quiet ''lib/NxCoreAPI64.dll'' (world (demo_io [''x''])))) n = []"
    by (simp add: demo_wire_def demo_io_def demo_put_def demo_world0_def DEFAULTS_ICHAN_NAME_def)
  ultimately have "map demo_serialize rs = sent s @ held (out_at s) @ pending s"
    using responses_conserved [OF demo_program [OF r(1)] demo_buffers_ok demo_documented n]
    by (simp add: demo_wire_def)
  with demo_program [OF r(1)] r(3) show ?thesis by blast
qed

subsection \<open>Start-up\<close>

lemma failed_connect_leaks_socket_example:
  "\<exists>sh. in_step demo_quiet demo_conf (In_Connect (chan_init (CStr ''in'') CHAN_TYPE_PULL_BIND)
       (chan_init (CStr DEFAULTS_ICHAN_NAME) CHAN_TYPE_PUSH_CONNECT)) (in_static nul_buffer) (demo_boot []) =
     Inr (In_Connect (chan_init (CStr ''in'') CHAN_TYPE_PULL_BIND)
       ((chan_init (CStr DEFAULTS_ICHAN_NAME) CHAN_TYPE_PUSH_CONNECT)\<lparr>sock := Sock (Some 1)\<rparr>), in_static nul_buffer, sh) \<and>
     dw_open (world (sh_io sh)) = [1]"
proof -
  let ?w = "(world (sh_io (demo_boot [])))\<lparr>dw_next := 2, dw_open := [1]\<rparr>"
  have "push_chan (chan_init (CStr DEFAULTS_ICHAN_NAME) CHAN_TYPE_PUSH_CONNECT)"
    by (simp add: push_chan_def chan_init_def)
  moreover have "zmq_socket demo_quiet ZMQ_PUSH (world (sh_io (demo_boot []))) = (Some 1, ?w)"
    by (simp add: demo_socket_def demo_boot_def demo_world0_def demo_put_def)
  moreover have "zmq_connect demo_quiet (Some 1) DEFAULTS_ICHAN_NAME ?w = (- 1, ?w)"
    by (simp add: demo_connect_def demo_boot_def demo_world0_def demo_put_def)
  ultimately show ?thesis
    using failed_connect_leaks_socket [of "chan_init (CStr DEFAULTS_ICHAN_NAME) CHAN_TYPE_PUSH_CONNECT"
        demo_quiet "demo_boot []" 1 ?w "- 1" ?w demo_conf "chan_init (CStr ''in'') CHAN_TYPE_PULL_BIND"
        "in_static nul_buffer"]
    by (simp add: word_sless_alt)
qed

text \<open>An environment in which the inproc endpoint is never there.\<close>

definition demo_refused :: "demo_world env" where
  "demo_refused = demo_quiet\<lparr>zmq_connect := (\<lambda>_ _ w. (- 1, w))\<rparr>"

lemma demo_refused_simps [simp]:
  "LOG_LEVEL demo_refused = LOG_NONE" "zmq_socket demo_refused = demo_socket"
  "zmq_bind demo_refused = demo_bind" "zmq_connect demo_refused = (\<lambda>_ _ w. (- 1, w))"
  "zmq_recv demo_refused = demo_recv" "LoadLibrary demo_refused = (\<lambda>_ w. (Some 1, w))"
  by (simp_all add: demo_refused_def)

lemma demo_refused_init:
  "wineing_init demo_refused (shared_static demo_buffers (demo_io reqs)) = Inr (Continue (), demo_boot reqs)"
  by (simp add: wineing_init_def wininf_nxcore_load_def on_world_def shared_static_def demo_io_def
      demo_boot_def demo_shared_def demo_buffers_def lazy_init_def conc_static_def shared_versions)

lemma demo_refused_run:
  "\<exists>s rs' s' c o'. sched_run demo_refused demo_conf [Go_In] (threads_start demo_buffers (demo_boot [''x''])) = Some ([], s) \<and>
     in_at s = In_Connect c o' \<and> sched_run demo_refused demo_conf [Go_In, Go_In] s = Some (rs', s')"
  by (simp add: run_defs)

theorem no_inproc_no_service_witness:
  "\<exists>s rs' s' c o2. sys_run demo_refused demo_conf (\<lambda>_ _. False) s rs' s' \<and> rs' = [] \<and> in_at s' = In_Connect c o2"
proof -
  obtain s rs' s' c o' where r:
    "sched_run demo_refused demo_conf [Go_In] (threads_start demo_buffers (demo_boot [''x''])) = Some ([], s)"
    "in_at s = In_Connect c o'" "sched_run demo_refused demo_conf [Go_In, Go_In] s = Some (rs', s')"
    using demo_refused_run by blast
  have codes: "recv_codes demo_refused" "inproc_refused demo_refused"
    using demo_recv_codes by (simp_all add: recv_codes_def inproc_refused_def word_sless_alt)
  note run = sched_run_sound [OF r(3)]
  from no_inproc_no_service [OF program_state.intros [OF demo_refused_init sched_run_sound [OF r(1)]]
      demo_buffers_ok codes run] r(2) run show ?thesis by blast
qed

end
