(* ===== verification/Request_Session.thy ===== *)
theory Request_Session
  imports System_Faults
begin

text \<open>
  What the request thread does over a whole run of the program, under every schedule: the
  requests it receives, in order, drive the state machine \<open>ctrl_machine\<close>, and its responses,
  its own record and the published record are what the machine says. The requests are
  collected along the run from the states in which they are taken up.
\<close>

subsection \<open>The specification: a session\<close>

text \<open>
  The state of a session is the command and tape as the request thread has them, and as they
  were last published. A request that is taken up is an
  event, with the answer of the file test.
\<close>

type_synonym session = "(c_int \<times> string) \<times> (c_int \<times> string)"
type_synonym received_request = "Request \<times> bool"

definition requested_tape :: "string \<Rightarrow> Request \<Rightarrow> string" where
  "requested_tape base req = base @ (case tape_file req of None \<Rightarrow> [] | Some f \<Rightarrow> f)"

definition response_of :: "string \<Rightarrow> Request \<Rightarrow> Response_Type \<Rightarrow> Response" where
  "response_of base req ty = \<lparr>res_requestId = Some (requestId req), res_type = Some ty,
     err_text = (case ty of
         MARKET_START_ERR_RUNNING \<Rightarrow> Some ''Already in RUNNING state.''
       | ERR \<Rightarrow> Some (not_found_text (requested_tape base req))
       | _ \<Rightarrow> None)\<rparr>"

definition session_turn :: "string \<Rightarrow> received_request \<Rightarrow> session \<Rightarrow> Response \<times> session" where
  "session_turn base ev \<sigma> =
     (let (ty, publishes, st) =
        ctrl_machine (\<lambda>_. snd ev) base (req_type (fst ev)) (tape_file (fst ev)) (fst \<sigma>)
      in (response_of base (fst ev) ty, st, if publishes then st else snd \<sigma>))"

fun session :: "string \<Rightarrow> received_request list \<Rightarrow> session \<Rightarrow> Response list \<times> session" where
  "session base [] \<sigma> = ([], \<sigma>)"
| "session base (ev # evs) \<sigma> =
     (let (r, \<sigma>1) = session_turn base ev \<sigma>; (rs, \<sigma>2) = session base evs \<sigma>1 in (r # rs, \<sigma>2))"

text \<open>Before the first request: INIT, no tape, in both records.\<close>

definition session_start :: session where
  "session_start = ((WINEING_CTRL_CMD_INIT, []), (WINEING_CTRL_CMD_INIT, []))"

lemma session_append:
  "session base (evs @ evs') \<sigma> =
     (let (rs, \<sigma>1) = session base evs \<sigma>; (rs', \<sigma>2) = session base evs' \<sigma>1 in (rs @ rs', \<sigma>2))"
  by (induction evs arbitrary: \<sigma>) (auto simp: Let_def split: prod.splits)

lemma session_snoc:
  "session base evs \<sigma> = (rs, \<sigma>1) \<Longrightarrow> session_turn base ev \<sigma>1 = (r, \<sigma>2) \<Longrightarrow>
   session base (evs @ [ev]) \<sigma> = (rs @ [r], \<sigma>2)"
  by (simp add: session_append)

lemma session_length: "length (fst (session base evs \<sigma>)) = length evs"
  by (induction evs arbitrary: \<sigma>) (simp_all add: Let_def split_beta)

subsection \<open>The handler is one turn of the session\<close>

definition file_found :: "'w env \<Rightarrow> string \<Rightarrow> Request \<Rightarrow> 'w shared \<Rightarrow> bool" where
  "file_found e base req sh \<longleftrightarrow> tape_found e sh (requested_tape base req)"

lemma ctrl_machine_found:
  "ctrl_machine (tape_found e sh) base ty (tape_file req) st =
   ctrl_machine (\<lambda>_. file_found e base req sh) base ty (tape_file req) st"
  by (cases ty; cases st) (auto simp: file_found_def requested_tape_def split: option.split)

text \<open>A handler that returns computed the response of the machine's answer, and its state.\<close>

lemma start_is_session_turn:
  assumes "req_type req = MARKET_START" "tape_basedir conf = CStr base"
    and "handle_market_start e conf req (Response_Clear\<lparr>res_requestId := Some (requestId req)\<rparr>) l sh =
      Inr (res, f, l', sh')"
  shows "session_turn base (req, file_found e base req sh) (ctrl_view (in_data l), g) =
     (res, ctrl_view (in_data l'), if f = Reply_Now then g else ctrl_view (in_data l'))"
proof (cases "w_cmd (in_data l) = WINEING_CTRL_CMD_MARKET_RUN")
  case True
  with assms show ?thesis
    by (auto simp: handle_market_start_def session_turn_def ctrl_view_def response_of_def Response_Clear_def)
next
  case idle: False
  show ?thesis
  proof (cases "tape_file req")
    case None
    with assms idle show ?thesis
      by (auto simp: handle_market_start_def set_cmd_def session_turn_def ctrl_view_def response_of_def
          Response_Clear_def)
  next
    case (Some t)
    show ?thesis
    proof (cases "tape_found e sh (base @ t)")
      case True
      with assms(2,3) idle Some obtain d where
        d: "memcpy (w_data (in_data l)) (c_str (base @ t)) (length (base @ t) + 1) = Inr d"
        by (auto simp: handle_market_start_def Let_def res_simps tape_found_def)
      then have "take (Suc (length base + length t)) d = c_str (base @ t)"
        by (auto simp: memcpy_def split: if_splits)
      with assms True idle Some d show ?thesis
        by (auto simp: handle_market_start_def tape_found_def Let_def set_cmd_def session_turn_def
            ctrl_view_def file_found_def requested_tape_def response_of_def Response_Clear_def)
    next
      case False
      with assms idle Some show ?thesis
        by (auto simp: handle_market_start_def tape_found_def Let_def res_simps session_turn_def
            ctrl_view_def file_found_def requested_tape_def response_of_def Response_Clear_def)
    qed
  qed
qed

lemma switch_is_session_turn:
  assumes "tape_basedir conf = CStr base" "cchan_in_switch e conf req l sh = Inr (res, f, l', sh')"
  shows "session_turn base (req, file_found e base req sh) (ctrl_view (in_data l), g) =
     (res, ctrl_view (in_data l'), if f = Reply_Now then g else ctrl_view (in_data l'))"
proof (cases "req_type req")
  case MARKET_START
  with assms(2) show ?thesis
    by (intro start_is_session_turn [OF MARKET_START assms(1)]) (simp add: cchan_in_switch_def)
next
  case MARKET_STOP
  with assms(2) show ?thesis
    by (auto simp: cchan_in_switch_def handle_market_stop_def set_cmd_def session_turn_def ctrl_view_def
        response_of_def Response_Clear_def)
next
  case SHUTDOWN
  with assms(2) show ?thesis
    by (auto simp: cchan_in_switch_def handle_shutdown_def set_cmd_def session_turn_def ctrl_view_def
        response_of_def Response_Clear_def)
qed

subsection \<open>Runs with the requests handled in their course\<close>

definition received :: "'w env \<Rightarrow> string \<Rightarrow> action \<Rightarrow> 'w sys \<Rightarrow> received_request list" where
  "received e base a s = (case (a, in_at s) of
     (Act_In, In_Handle _ _ req) \<Rightarrow> [(req, file_found e base req (sys_sh s))] | _ \<Rightarrow> [])"

inductive session_run :: "'w env \<Rightarrow> w_conf \<Rightarrow> ('w \<Rightarrow> 'w \<Rightarrow> bool) \<Rightarrow> string \<Rightarrow> 'w sys \<Rightarrow>
    received_request list \<Rightarrow> Response list \<Rightarrow> 'w sys \<Rightarrow> bool"
  for e conf R base where
  session_refl: "session_run e conf R base s [] [] s"
| session_step: "session_run e conf R base s evs rs s' \<Longrightarrow> sys_step e conf R s' a s'' \<Longrightarrow>
    session_run e conf R base s (evs @ received e base a s') (rs @ replied a s') s''"

lemma session_run_sys: "session_run e conf R base s evs rs s' \<Longrightarrow> sys_run e conf R s rs s'"
  by (induction rule: session_run.induct) (auto intro: sys_run.intros)

lemma sys_run_session: "sys_run e conf R s rs s' \<Longrightarrow> \<exists>evs. session_run e conf R base s evs rs s'"
  by (induction rule: sys_run.induct) (blast intro: session_run.intros)+

text \<open>
  The response that has been computed and not yet handed to the inproc channel, and the record
  that is published, or is about to be.
\<close>

definition unsent :: "'w sys \<Rightarrow> Response list" where
  "unsent s = (case in_at s of In_Publish _ _ r _ \<Rightarrow> [r] | In_Signal _ _ r \<Rightarrow> [r]
     | In_Reply _ _ r \<Rightarrow> [r] | _ \<Rightarrow> [])"

definition to_be_published :: "'w sys \<Rightarrow> c_int \<times> string" where
  "to_be_published s = (case in_at s of In_Publish _ _ _ _ \<Rightarrow> ctrl_view (in_data (in_vars s))
     | _ \<Rightarrow> ctrl_view (g_data (sys_sh s)))"

definition in_session :: "string \<Rightarrow> received_request list \<Rightarrow> Response list \<Rightarrow> 'w sys \<Rightarrow> bool" where
  "in_session base evs rs s \<longleftrightarrow> session base evs session_start =
     (rs @ unsent s, ctrl_view (in_data (in_vars s)), to_be_published s)"

lemmas session_state_defs = in_session_def unsent_def to_be_published_def

lemma in_session_same:
  assumes "in_session base evs rs s" "in_at s' = in_at s" "in_vars s' = in_vars s"
    and "io_only (sys_sh s) (sys_sh s')"
  shows "in_session base evs rs s'"
  using assms io_onlyD [OF assms(4)] by (simp add: session_state_defs split: in_pc.split)

text \<open>A step of the request thread that computes no response and publishes nothing.\<close>

lemma quiet_in_session:
  assumes "in_session base evs rs s" "ctrl_view (g_data sh) = ctrl_view (g_data (sys_sh s))"
    and "unsent s = []" "to_be_published s = ctrl_view (g_data (sys_sh s))"
    and "\<forall>c o' r b. p \<noteq> In_Publish c o' r b \<and> p \<noteq> In_Signal c o' r \<and> p \<noteq> In_Reply c o' r"
  shows "in_session base evs rs (s\<lparr>in_at := p, sys_sh := sh\<rparr>)"
  using assms by (simp add: session_state_defs split: in_pc.splits)

lemma handle_in_session:
  assumes "in_dispatch e conf c o' req (in_vars s) (sys_sh s) = Inr (p, l, sh)" "owner_ok (in_vars s) (sys_sh s)"
    and "tape_basedir conf = CStr base" "in_at s = In_Handle c o' req" "in_session base evs rs s"
  shows "in_session base (evs @ [(req, file_found e base req (sys_sh s))]) rs
    (s\<lparr>in_at := p, in_vars := l, sys_sh := sh\<rparr>)"
proof -
  from assms(1) obtain res f where
    sw: "cchan_in_switch e conf req (in_vars s) (sys_sh s) = Inr (res, f, l, sh)"
    and p: "p = (case f of Reply_Now \<Rightarrow> In_Reply c o' res | Publish_Then_Reply \<Rightarrow> In_Publish c o' res False
          | Publish_Then_Signal \<Rightarrow> In_Publish c o' res True)"
    by (auto simp: in_dispatch_def res_simps)
  have io: "io_only (sys_sh s) sh" using switch_switched [OF assms(2) sw] by (simp add: switched_def)
  have "session base evs session_start =
      (rs, ctrl_view (in_data (in_vars s)), ctrl_view (g_data (sys_sh s)))"
    using assms(4,5) by (simp add: session_state_defs)
  from session_snoc [OF this switch_is_session_turn [OF assms(3) sw]] p io_onlyD [OF io] show ?thesis
    by (cases f) (simp_all add: session_state_defs)
qed

text \<open>The other steps of the request thread, and those of everybody else.\<close>

lemma quiet_in_step:
  assumes "in_step e conf (in_at s) (in_vars s) (sys_sh s) = Inr (p, l, sh)"
    and "in_at s = In_Start \<or> (\<exists>c o'. in_at s = In_Connect c o' \<or> in_at s = In_Loop c o')"
  shows "l = in_vars s" "io_only (sys_sh s) sh"
    "\<forall>c o' r b. p \<noteq> In_Publish c o' r b \<and> p \<noteq> In_Signal c o' r \<and> p \<noteq> In_Reply c o' r"
proof -
  have "l = in_vars s \<and> io_only (sys_sh s) sh \<and>
      (\<forall>c o' r b. p \<noteq> In_Publish c o' r b \<and> p \<noteq> In_Signal c o' r \<and> p \<noteq> In_Reply c o' r)"
    using assms(2)
  proof (elim disjE exE)
    assume "in_at s = In_Start"
    with assms(1) show ?thesis
      by (auto simp: in_step_def in_start_def res_simps Let_def split: if_splits
          dest!: sh_log_lazy_io intro: io_only_trans)
  next
    fix c o' assume "in_at s = In_Connect c o'"
    with assms(1) show ?thesis
      by (auto simp: in_step_def in_connect_def res_simps Let_def split: if_splits dest!: sh_log_io)
  next
    fix c o' assume "in_at s = In_Loop c o'"
    with assms(1) show ?thesis
      by (auto simp: in_step_def in_turn_def res_simps split: if_splits dest!: sh_log_io)
  qed
  then show "l = in_vars s" "io_only (sys_sh s) sh"
    "\<forall>c o' r b. p \<noteq> In_Publish c o' r b \<and> p \<noteq> In_Signal c o' r \<and> p \<noteq> In_Reply c o' r" by blast+
qed

lemma quiet_step_session:
  assumes "in_step e conf (in_at s) (in_vars s) (sys_sh s) = Inr (p, l, sh)" "in_session base evs rs s"
    and "in_at s = In_Start \<or> (\<exists>c o'. in_at s = In_Connect c o' \<or> in_at s = In_Loop c o')"
  shows "in_session base (evs @ received e base Act_In s) (rs @ replied Act_In s)
     (s\<lparr>in_at := p, in_vars := l, sys_sh := sh\<rparr>)"
  using assms(2,3) io_onlyD [of "sys_sh s" sh] quiet_in_session [of base evs rs s sh p] quiet_in_step [OF assms(1,3)]
  by (auto simp: received_def replied_def unsent_def to_be_published_def)

lemma in_step_session:
  assumes "in_step e conf (in_at s) (in_vars s) (sys_sh s) = Inr (p, l, sh)" "sys_inv s"
    and "tape_basedir conf = CStr base" "in_session base evs rs s"
  shows "in_session base (evs @ received e base Act_In s) (rs @ replied Act_In s)
     (s\<lparr>in_at := p, in_vars := l, sys_sh := sh\<rparr>)"
proof (cases "in_at s")
  case In_Start
  then show ?thesis by (intro quiet_step_session [OF assms(1,4)]) simp
next
  case (In_Connect c o')
  then show ?thesis by (intro quiet_step_session [OF assms(1,4)]) simp
next
  case (In_Loop c o')
  then show ?thesis by (intro quiet_step_session [OF assms(1,4)]) simp
next
  case (In_Handle c o' req)
  with assms(1,2) have "in_dispatch e conf c o' req (in_vars s) (sys_sh s) = Inr (p, l, sh)"
      "owner_ok (in_vars s) (sys_sh s)"
    by (simp_all add: in_step_def sys_inv_def Let_def)
  from handle_in_session [OF this assms(3) In_Handle assms(4)] In_Handle show ?thesis
    by (simp add: received_def replied_def)
next
  case (In_Publish c o' r b)
  with assms(1,2) have "publish_data (in_vars s) (sys_sh s) = Inr (l, sh)"
      "owner_ok (in_vars s) (sys_sh s)" "p = (if b then In_Signal c o' r else In_Reply c o' r)"
    by (auto simp: in_step_def res_simps sys_inv_def Let_def)
  with publish_Inr [OF this(2,1)] In_Publish assms(4) show ?thesis
    by (simp add: session_state_defs received_def replied_def)
next
  case (In_Signal c o' r)
  with assms(1,2) have "sh = sys_sh s" "l = in_vars s" "p = In_Reply c o' r"
    by (auto simp: in_step_def res_simps sys_inv_def Let_def owner_ok_def dest: signal_Inr)
  with In_Signal assms(4) show ?thesis by (simp add: session_state_defs received_def replied_def)
next
  case (In_Reply c o' r)
  with assms(1) have "l = in_vars s" "io_only (sys_sh s) sh" "p = In_Loop c o'"
    by (auto simp: in_step_def res_simps dest!: reply_Inr)
  with In_Reply assms(4) show ?thesis
    using io_onlyD [of "sys_sh s" sh]
    by (simp add: session_state_defs received_def replied_def)
next
  case In_End
  with assms(1) show ?thesis by (simp add: in_step_def)
qed

lemma sys_step_session:
  assumes "sys_step e conf R s a s'" "sys_inv s" "recv_codes e" "tape_basedir conf = CStr base"
    and "in_session base evs rs s"
  shows "in_session base (evs @ received e base a s) (rs @ replied a s) s'"
proof (cases "a = Act_In")
  case True
  from assms(1)[unfolded True] show ?thesis
  proof cases
    case (step_in p l sh)
    with in_step_session [OF step_in(2) assms(2,4,5)] True show ?thesis by simp
  qed
next
  case False
  then have "received e base a s = []" "replied a s = []"
    by (cases a; simp add: received_def replied_def)+
  with others_leave_cell [OF assms(3,2,1) False] assms(5) show ?thesis
    by (auto intro: in_session_same)
qed

text \<open>After a step, what is published is what the session says, or as it was before.\<close>

lemma about_to_publish:
  assumes "in_step e conf p l sh = Inr (In_Publish c o' r b, l', sh')" "owner_ok l sh"
  shows "g_data sh' = g_data sh"
proof (cases p)
  case (In_Handle c2 o2 req)
  with assms(1) obtain res f where sw: "cchan_in_switch e conf req l sh = Inr (res, f, l', sh')"
    by (auto simp: in_step_def in_dispatch_def res_simps)
  have "io_only sh sh'" using switch_switched [OF assms(2) sw] by (simp add: switched_def)
  then show ?thesis by (simp add: io_onlyD)
qed (use assms(1) in \<open>auto simp: in_step_def in_start_def in_connect_def in_turn_def res_simps Let_def
       split: if_splits\<close>)

lemma publication_source:
  assumes "sys_step e conf R s a s'" "sys_inv s" "recv_codes e"
  shows "ctrl_view (g_data (sys_sh s')) = to_be_published s' \<or> g_data (sys_sh s') = g_data (sys_sh s)"
proof (cases "\<exists>c o' r b. in_at s' = In_Publish c o' r b")
  case False
  then show ?thesis by (auto simp: to_be_published_def split: in_pc.split)
next
  case True
  show ?thesis
  proof (cases "a = Act_In")
    case act: True
    have "owner_ok (in_vars s) (sys_sh s)" using assms(2) by (simp add: sys_inv_def Let_def)
    from assms(1)[unfolded act] this True show ?thesis by cases (auto dest: about_to_publish)
  next
    case False
    from others_leave_cell [OF assms(3,2,1) False] show ?thesis by (auto simp: io_onlyD)
  qed
qed

lemma session_run_inv:
  assumes "session_run e conf R base s0 evs rs s" "sys_inv s0" "in_session base [] [] s0"
    and "recv_codes e" "tape_basedir conf = CStr base"
  shows "sys_inv s \<and> in_session base evs rs s"
  using assms(1,2,3)
proof (induction rule: session_run.induct)
  case (session_step s evs rs s' a s'')
  then have "sys_inv s'" "in_session base evs rs s'" by blast+
  with session_step.hyps(2) assms(4,5) show ?case
    using sys_inv_step sys_step_session by blast
qed simp

lemma threads_start_session:
  assumes "wineing_init e (shared_static b io) = Inr (Continue (), sh)"
  shows "in_session base [] [] (threads_start b sh)"
  using init_Inr [OF assms]
  by (simp add: session_state_defs session_start_def threads_start_def sys_start_def
      in_static_def ctrl_view_init shared_static_def)

text \<open>
  C3. Refinement of the request protocol, over every run of the program and every schedule: let
  \<open>evs\<close> be the requests the request thread took up, in order, each with the answer of the file
  test at that moment. Then the responses handed to the inproc channel so far, followed by the
  one that is computed and not handed over yet, are exactly the responses of the session \<open>evs\<close>:
  one for each request, in the order of the requests, with its id, the type the state machine
  gives and the error text. The thread's command and tape, and those that are published or
  about to be, are the state of the session.
\<close>
theorem requests_answered_in_order:
  assumes "wineing_init e (shared_static b io) = Inr (Continue (), sh)"
    and "session_run e conf R base (threads_start b sh) evs rs s"
    and "buffers_ok b" "recv_codes e" "tape_basedir conf = CStr base"
  shows "session base evs session_start =
     (rs @ unsent s, ctrl_view (in_data (in_vars s)), to_be_published s)"
  using session_run_inv [OF assms(2) threads_start_inv [OF assms(3,1)] threads_start_session [OF assms(1)] assms(4,5)]
  by (simp add: in_session_def)

end
