(* ===== verification/Tape_History.thy ===== *)
theory Tape_History
  imports Request_Session
begin

text \<open>
  The tapes NxCore is run with, over a whole run of the program: where the bytes of the buffer
  that \<open>market_thread\<close> passes to \<open>processTapeFn\<close> come from.
\<close>

subsection \<open>Tapes that were requested and found\<close>

definition accepted_tape :: "string \<Rightarrow> received_request list \<Rightarrow> string \<Rightarrow> bool" where
  "accepted_tape base evs tape \<longleftrightarrow> (\<exists>req f. (req, True) \<in> set evs \<and> req_type req = MARKET_START \<and>
     tape_file req = Some f \<and> tape = base @ f)"

lemma accepted_tape_append [intro]:
  "accepted_tape base evs tape \<Longrightarrow> accepted_tape base (evs @ evs') tape"
  by (auto simp: accepted_tape_def)

text \<open>A tape of the state machine: none, or one that was requested and found.\<close>

definition session_tape :: "string \<Rightarrow> received_request list \<Rightarrow> string \<Rightarrow> bool" where
  "session_tape base evs t \<longleftrightarrow> t = [] \<or> (\<exists>tape. accepted_tape base evs tape \<and> t = c_str tape)"

lemma session_tape_append: "session_tape base evs t \<Longrightarrow> session_tape base (evs @ evs') t"
  by (auto simp: session_tape_def)

lemma session_turn_tapes:
  assumes "session_turn base ev \<sigma> = (r, \<sigma>')"
    and "session_tape base evs (snd (fst \<sigma>))" "session_tape base evs (snd (snd \<sigma>))"
  shows "session_tape base (evs @ [ev]) (snd (fst \<sigma>')) \<and> session_tape base (evs @ [ev]) (snd (snd \<sigma>'))"
proof -
  obtain req found where ev: "ev = (req, found)" by (cases ev)
  obtain c t pub where \<sigma>: "\<sigma> = ((c, t), pub)" by (metis prod.collapse)
  have old: "session_tape base (evs @ [ev]) t" "session_tape base (evs @ [ev]) (snd pub)"
    using assms(2,3) \<sigma> by (auto intro: session_tape_append)
  have new: "session_tape base (evs @ [ev]) (c_str (base @ f))"
    if "req_type req = MARKET_START" "tape_file req = Some f" found for f
    using that ev by (auto simp: session_tape_def accepted_tape_def)
  have none: "session_tape base (evs @ [ev]) []" by (simp add: session_tape_def)
  show ?thesis
  proof (cases "req_type req")
    case MARKET_START
    then show ?thesis using assms(1) \<sigma> ev old new none
      by (auto simp: session_turn_def Let_def split: if_splits option.splits)
  qed (use assms(1) \<sigma> ev old in \<open>auto simp: session_turn_def Let_def split: if_splits\<close>)
qed

lemma session_tapes:
  "session base evs session_start = (rs, \<sigma>) \<Longrightarrow>
   session_tape base evs (snd (fst \<sigma>)) \<and> session_tape base evs (snd (snd \<sigma>))"
proof (induction evs arbitrary: rs \<sigma> rule: rev_induct)
  case Nil
  then show ?case by (auto simp: session_start_def session_tape_def)
next
  case (snoc ev evs)
  obtain rs1 \<sigma>1 where s1: "session base evs session_start = (rs1, \<sigma>1)" by (cases "session base evs session_start")
  obtain r \<sigma>2 where s2: "session_turn base ev \<sigma>1 = (r, \<sigma>2)" by (cases "session_turn base ev \<sigma>1")
  have "\<sigma> = \<sigma>2" using session_snoc [OF s1 s2] snoc.prems by simp
  with session_turn_tapes [OF s2] snoc.IH [OF s1] show ?case by simp
qed

subsection \<open>The buffer of the market thread\<close>

text \<open>As it was allocated, or with such a tape at its start.\<close>

definition tape_buffer :: "string \<Rightarrow> received_request list \<Rightarrow> string \<Rightarrow> string \<Rightarrow> bool" where
  "tape_buffer base evs initial d \<longleftrightarrow> d = initial \<or>
     (\<exists>tape rest. accepted_tape base evs tape \<and> d = c_str tape @ rest)"

lemma tape_buffer_append: "tape_buffer base evs i d \<Longrightarrow> tape_buffer base (evs @ evs') i d"
  by (auto simp: tape_buffer_def)

lemma read_tape_buffer:
  assumes "cell_ready sh" "wf_ctrl t" "read_g_data v t sh = Inr (v', t', sh')"
    and "session_tape base evs (snd (ctrl_view (g_data sh)))" "tape_buffer base evs i (w_data t)"
  shows "tape_buffer base evs i (w_data t')"
proof (cases "v = g_version (conc sh)")
  case True
  with assms(3,5) show ?thesis by (simp add: read_g_data_same)
next
  case False
  let ?n = "w_size (g_data sh)" and ?d = "w_data (g_data sh)"
  have t': "w_data t' = take ?n ?d @ drop ?n (w_data t)"
    using read_g_data_changed [OF assms(1,2) False] assms(3) by auto
  have len: "?n \<le> length ?d" using assms(1) by (simp add: cell_ready_def wf_ctrl_def)
  from assms(4) show ?thesis
    unfolding session_tape_def
  proof
    assume "snd (ctrl_view (g_data sh)) = []"
    then have "?n = 0" using len by (auto simp: ctrl_view_def)
    with t' assms(5) show ?thesis by simp
  next
    assume "\<exists>tape. accepted_tape base evs tape \<and> snd (ctrl_view (g_data sh)) = c_str tape"
    with t' show ?thesis by (auto simp: tape_buffer_def ctrl_view_def)
  qed
qed

definition market_tapes :: "string \<Rightarrow> received_request list \<Rightarrow> string \<Rightarrow> 'w sys \<Rightarrow> bool" where
  "market_tapes base evs i s \<longleftrightarrow> tape_buffer base evs i (w_data (mk_data (mk_vars s))) \<and>
     (case mk_at s of M_Nx _ _ buf \<Rightarrow> tape_buffer base evs i buf
        | M_Callback _ _ buf _ \<Rightarrow> tape_buffer base evs i buf | _ \<Rightarrow> True)"

lemma market_tapes_append: "market_tapes base evs i s \<Longrightarrow> market_tapes base (evs @ evs') i s"
  by (auto simp: market_tapes_def intro: tape_buffer_append split: m_pc.splits)

lemma market_step_tapes:
  assumes "market_step e conf (mk_at s) (mk_vars s) (sys_sh s) = Inr (p, l, sh)" "sys_inv s"
    and "session_tape base evs (snd (ctrl_view (g_data (sys_sh s))))" "market_tapes base evs i s"
  shows "market_tapes base evs i (s\<lparr>mk_at := p, mk_vars := l, sys_sh := sh\<rparr>)"
proof (cases "mk_at s")
  case M_Start
  with assms(1,4) show ?thesis
    by (auto simp: market_step_def market_start_def market_tapes_def res_simps Let_def split: if_splits)
next
  case (M_Connect c o')
  with assms(1,4) show ?thesis
    by (auto simp: market_step_def market_connect_def market_tapes_def res_simps Let_def split: if_splits)
next
  case (M_Loop c o')
  with assms(1) obtain v t where r:
    "read_g_data (mk_version (mk_vars s)) (mk_data (mk_vars s)) (sys_sh s) = Inr (v, t, sh)"
    "p = M_Test c o'" "mk_data l = t"
    by (auto simp: market_step_def market_read_def res_simps)
  have "cell_ready (sys_sh s)" "wf_ctrl (mk_data (mk_vars s))"
    using assms(2) by (auto simp: sys_inv_def Let_def owner_ready reader_ok_def copy_ok_def)
  from read_tape_buffer [OF this r(1) assms(3)] assms(4) r(2,3) show ?thesis
    by (simp add: market_tapes_def)
next
  case (M_Test c o')
  with assms(1,4) show ?thesis
    by (auto simp: market_step_def market_act_def market_tapes_def res_simps split: if_splits)
qed (use assms(1) in \<open>simp_all add: market_step_def\<close>)

lemma sys_step_tapes:
  assumes "sys_step e conf R s a s'" "sys_inv s"
    and "session_tape base evs (snd (ctrl_view (g_data (sys_sh s))))" "market_tapes base evs i s"
  shows "market_tapes base evs i s'"
  using assms(1)
proof cases
  case (step_market p l sh)
  with market_step_tapes [OF step_market(3) assms(2-4)] show ?thesis by simp
next
  case (step_callback c o' b l sh mt)
  then have "mk_data l = mk_data (mk_vars s)" by (auto simp: callback_read_def res_simps)
  with assms(4) step_callback(2,3) show ?thesis by (simp add: market_tapes_def)
qed (use assms(4) in \<open>simp_all add: market_tapes_def\<close>)

text \<open>The published tape is one of the session, also while another is about to be published.\<close>

lemma published_tape_step:
  assumes "sys_step e conf R s a s'" "sys_inv s" "recv_codes e" "in_session base evs' rs' s'"
    and "session_tape base evs (snd (ctrl_view (g_data (sys_sh s))))" "evs' = evs @ evs2"
  shows "session_tape base evs' (snd (ctrl_view (g_data (sys_sh s'))))"
  using publication_source [OF assms(1-3)]
proof
  assume "ctrl_view (g_data (sys_sh s')) = to_be_published s'"
  with assms(4) session_tapes [of base evs'] show ?thesis by (auto simp: in_session_def)
next
  assume "g_data (sys_sh s') = g_data (sys_sh s)"
  with session_tape_append [OF assms(5)] assms(6) show ?thesis by simp
qed

definition tapes_ok :: "string \<Rightarrow> received_request list \<Rightarrow> string \<Rightarrow> 'w sys \<Rightarrow> bool" where
  "tapes_ok base evs i s \<longleftrightarrow> market_tapes base evs i s \<and>
     session_tape base evs (snd (ctrl_view (g_data (sys_sh s))))"

lemma session_run_tapes:
  assumes "session_run e conf R base s0 evs rs s" "sys_inv s0" "in_session base [] [] s0"
    and "recv_codes e" "tape_basedir conf = CStr base" "tapes_ok base [] i s0"
  shows "tapes_ok base evs i s"
  using assms(1,2,3,6)
proof (induction rule: session_run.induct)
  case (session_step s evs rs s' a s'')
  have ok: "market_tapes base evs i s'" "session_tape base evs (snd (ctrl_view (g_data (sys_sh s'))))"
    using session_step by (simp_all add: tapes_ok_def)
  have inv: "sys_inv s'" "in_session base evs rs s'"
    using session_run_inv [OF session_step.hyps(1) session_step.prems(1,2) assms(4,5)] by blast+
  note step = session_step.hyps(2)
  from sys_step_tapes [OF step inv(1) ok(2,1)]
    published_tape_step [OF step inv(1) assms(4) sys_step_session [OF step inv(1) assms(4,5) inv(2)] ok(2) refl]
  show ?case by (auto simp: tapes_ok_def intro: market_tapes_append)
qed simp

text \<open>
  C11. Where the tapes come from, over every run of the program and every schedule: whenever
  NxCore is running (in a callback or not), the buffer it was called with is either the market thread's buffer as it
  was allocated, with no tape ever copied into it, or it reads as a tape path that some start
  request taken up so far had asked for (the tape root followed by the file name of the
  request, up to the first NUL) and that the file test had found.
\<close>
theorem nxcore_runs_requested_tapes:
  assumes "wineing_init e (shared_static b io) = Inr (Continue (), sh)"
    and "session_run e conf R base (threads_start b sh) evs rs s"
    and "buffers_ok b" "recv_codes e" "tape_basedir conf = CStr base"
    and "mk_at s = M_Nx c o' buf \<or> mk_at s = M_Callback c o' buf mt"
  shows "buf = b_market b \<or>
     (\<exists>req f. (req, True) \<in> set evs \<and> req_type req = MARKET_START \<and> tape_file req = Some f \<and>
        read_cstr buf = Inr (as_cstr (base @ f)))"
proof -
  have "session_tape base [] (snd (ctrl_view (g_data sh)))"
    using init_Inr [OF assms(1)] by (simp add: session_tape_def shared_static_def ctrl_view_init)
  then have "tapes_ok base [] (b_market b) (threads_start b sh)"
    by (simp add: tapes_ok_def market_tapes_def tape_buffer_def threads_start_def sys_start_def mk_static_def
        ctrl_init_def)
  from session_run_tapes [OF assms(2) threads_start_inv [OF assms(3,1)] threads_start_session [OF assms(1)]
      assms(4,5) this] assms(6)
  have "tape_buffer base evs (b_market b) buf" by (auto simp: tapes_ok_def market_tapes_def)
  then show ?thesis
    by (auto simp: tape_buffer_def accepted_tape_def read_cstr_c_str)
qed

end
