(* ===== verification/System_Types.thy ===== *)
theory System_Types
  imports System_Faults
begin

text \<open>
  Types of the program's state that C does not check: the control records and their buffers,
  the command numbers, the channels a thread holds, and the response it is about to serialise.
\<close>

subsection \<open>Commands and responses\<close>

lemma switch_initialized:
  assumes "cchan_in_switch e conf req l sh = Inr (res, f, l', sh')"
  shows "Response_initialized res"
proof (cases "req_type req")
  case MARKET_START
  with assms show ?thesis
    by (auto simp: cchan_in_switch_def handle_market_start_def Let_def res_bind_eq_Inr
        Response_initialized_def split: if_splits option.splits)
qed (use assms in \<open>auto simp: cchan_in_switch_def handle_market_stop_def handle_shutdown_def
       Response_initialized_def\<close>)

text \<open>What \<open>sys_inv\<close> does not say: the response to be sent has all its required fields.\<close>

fun response_ready :: "in_pc \<Rightarrow> bool" where
  "response_ready (In_Publish _ _ r _) = Response_initialized r"
| "response_ready (In_Signal _ _ r) = Response_initialized r"
| "response_ready (In_Reply _ _ r) = Response_initialized r"
| "response_ready p = True"

lemma in_step_response:
  assumes "in_step e conf p l sh = Inr (p', l', sh')" "response_ready p"
  shows "response_ready p'"
proof (cases p)
  case (In_Handle c o' req)
  with assms(1) obtain res f where "cchan_in_switch e conf req l sh = Inr (res, f, l', sh')"
    "p' = (case f of Reply_Now \<Rightarrow> In_Reply c o' res | Publish_Then_Reply \<Rightarrow> In_Publish c o' res False
       | Publish_Then_Signal \<Rightarrow> In_Publish c o' res True)"
    by (auto simp: in_step_def in_dispatch_def res_simps)
  with switch_initialized show ?thesis by (cases f) auto
qed (use assms in \<open>auto simp: in_step_def in_start_def in_connect_def in_turn_def Let_def res_bind_eq_Inr
       split: if_splits\<close>)

lemma response_ready_step:
  "sys_step e conf R s a s' \<Longrightarrow> response_ready (in_at s) \<Longrightarrow> response_ready (in_at s')"
  by (erule sys_step.cases) (auto dest: in_step_response)

subsection \<open>The types in every state of the program\<close>

text \<open>The channels a thread uses at its program point.\<close>

fun in_sockets :: "in_pc \<Rightarrow> chan list" where
  "in_sockets (In_Connect c _) = [c]"
| "in_sockets (In_Loop c o') = [c, o']"
| "in_sockets (In_Handle c o' _) = [c, o']"
| "in_sockets (In_Publish c o' _ _) = [c, o']"
| "in_sockets (In_Signal c o' _) = [c, o']"
| "in_sockets (In_Reply c o' _) = [c, o']"
| "in_sockets _ = []"

fun out_sockets :: "o_pc \<Rightarrow> chan list" where
  "out_sockets (O_Loop c m) = [c, m]"
| "out_sockets (O_Test c m) = [c, m]"
| "out_sockets (O_Recv c m) = [c, m]"
| "out_sockets (O_Send c m _ _) = [c, m]"
| "out_sockets _ = []"

fun mk_sockets :: "m_pc \<Rightarrow> nxtape \<Rightarrow> chan list" where
  "mk_sockets (M_Connect c _) n = [c]"
| "mk_sockets (M_Loop c o') n = [c, o']"
| "mk_sockets (M_Test c o') n = [c, o']"
| "mk_sockets (M_Nx c o' _) n = [c, o', the (g_mchan n)]"
| "mk_sockets (M_Callback c o' _ _) n = [c, o', the (g_mchan n)]"
| "mk_sockets _ n = []"

lemma known_own_cmd:
  "in_pc_inv p c g \<Longrightarrow> known_cmd g \<Longrightarrow> known_cmd c"
  by (cases p) auto

lemma program_state_response:
  assumes "program_state e conf R b io rs s" "buffers_ok b" "recv_codes e"
  shows "response_ready (in_at s)"
  using assms(1)
proof cases
  case (1 sh)
  show ?thesis
    by (rule sys_run_invariant [where P = "\<lambda>s. response_ready (in_at s)", OF 1(2)])
      (simp_all add: threads_start_def sys_start_def response_ready_step)
qed

text \<open>
  C12. Types in every state of the program: all five control records have a buffer of 1024 bytes,
  a size that does not exceed it, and one of the four commands that are ever published (INIT,
  MARKET_RUN, MARKET_STOP, SHUTDOWN; MARKET_INIT never occurs); every channel a thread sends
  on, receives from or closes has had its socket assigned; the count the response thread sends
  is not negative and within its buffer; and a response that is about to be serialised has the
  fields protobuf requires.
\<close>
theorem program_state_well_typed:
  assumes "program_state e conf R b io rs s" "buffers_ok b" "recv_codes e"
    and "t \<in> {g_data (sys_sh s), in_data (in_vars s), out_data (out_vars s), mk_data (mk_vars s),
              cb_data (mk_nx (mk_vars s))}"
  shows "length (w_data t) = WINEING_CTRL_DEFAULT_DATA_SIZE \<and> w_size t \<le> WINEING_CTRL_DEFAULT_DATA_SIZE \<and>
     w_cmd t \<in> {WINEING_CTRL_CMD_INIT, WINEING_CTRL_CMD_MARKET_RUN, WINEING_CTRL_CMD_MARKET_STOP,
                WINEING_CTRL_CMD_SHUTDOWN} \<and>
     (\<forall>c \<in> set (in_sockets (in_at s) @ out_sockets (out_at s) @ mk_sockets (mk_at s) (mk_nx (mk_vars s))).
        sock c \<noteq> Unassigned) \<and>
     (in_nx (mk_at s) \<longrightarrow> g_mchan (mk_nx (mk_vars s)) \<noteq> None) \<and>
     (case out_at s of O_Send c m d n \<Rightarrow> 0 \<le> sint n \<and> nat (sint n) \<le> length d | _ \<Rightarrow> True) \<and>
     response_ready (in_at s)"
proof -
  note inv = program_state_inv [OF assms(1-3)]
  have "wf_ctrl t \<and> known_cmd (w_cmd t)"
    using inv assms(4)
    by (auto simp: sys_inv_def Let_def owner_ok_def in_inv_def shared_ready_def cell_ready_def
        reader_ok_def copy_ok_def known_own_cmd)
  moreover have "\<forall>c \<in> set (in_sockets (in_at s)). sock c \<noteq> Unassigned"
    using inv by (cases "in_at s") (auto simp: sys_inv_def Let_def chan_ok_def)
  moreover have "\<forall>c \<in> set (out_sockets (out_at s)). sock c \<noteq> Unassigned"
    using inv by (cases "out_at s") (auto simp: sys_inv_def Let_def chan_ok_def)
  moreover have "\<forall>c \<in> set (mk_sockets (mk_at s) (mk_nx (mk_vars s))). sock c \<noteq> Unassigned"
    using inv by (cases "mk_at s") (auto simp: sys_inv_def Let_def chan_ok_def nxtape_ok_def)
  moreover have "in_nx (mk_at s) \<longrightarrow> g_mchan (mk_nx (mk_vars s)) \<noteq> None"
    using inv by (cases "mk_at s") (auto simp: sys_inv_def Let_def nxtape_ok_def in_nx_def)
  moreover have "case out_at s of O_Send c m d n \<Rightarrow> 0 \<le> sint n \<and> nat (sint n) \<le> length d | _ \<Rightarrow> True"
    using inv by (cases "out_at s") (auto simp: sys_inv_def Let_def)
  moreover note program_state_response [OF assms(1-3)]
  ultimately show ?thesis by (auto simp: wf_ctrl_def known_cmd_def)
qed

end
