(* ===== verification/Session_Runs.thy ===== *)
theory Session_Runs
  imports Tape_History System_Types System_Runs
begin

text \<open>
  Runs in the concrete environment with the requests received in their course, and the
  witnesses of the properties of sessions, tapes, reads and types.
\<close>

subsection \<open>Schedules with their requests\<close>

fun sched_events :: "'w env \<Rightarrow> w_conf \<Rightarrow> string \<Rightarrow> sched list \<Rightarrow> 'w sys \<Rightarrow> received_request list" where
  "sched_events e conf base [] s = []"
| "sched_events e conf base (x # xs) s = (case sched_step e conf x s of None \<Rightarrow> []
     | Some (a, s') \<Rightarrow> received e base a s @ sched_events e conf base xs s')"

lemma session_run_trans:
  "session_run e conf R base s1 evs2 rs2 s2 \<Longrightarrow> session_run e conf R base s0 evs1 rs1 s1 \<Longrightarrow>
   session_run e conf R base s0 (evs1 @ evs2) (rs1 @ rs2) s2"
  by (induction rule: session_run.induct) (auto simp flip: append_assoc intro: session_step)

lemma sched_session_sound:
  "sched_run e conf xs s = Some (rs, s') \<Longrightarrow>
   session_run e conf R base s (sched_events e conf base xs s) rs s'"
proof (induction xs arbitrary: s rs)
  case Nil
  then show ?case by (auto intro: session_refl)
next
  case (Cons x xs)
  then obtain a s1 rs1 where st: "sched_step e conf x s = Some (a, s1)"
      "sched_run e conf xs s1 = Some (rs1, s')" "rs = replied a s @ rs1"
    by (auto split: option.splits)
  have "session_run e conf R base s (received e base a s) (replied a s) s1"
    using session_step [OF session_refl sched_step_sound [OF st(1)]] by simp
  from session_run_trans [OF Cons.IH [OF st(2)] this] st show ?case by simp
qed

abbreviation demo_events :: "string list \<Rightarrow> sched list \<Rightarrow> received_request list" where
  "demo_events reqs xs \<equiv> sched_events demo_quiet demo_conf ''C:'' xs (threads_start demo_buffers (demo_boot reqs))"

lemmas event_defs = received_def file_found_def tape_found_def wininf_file_exists_def requested_tape_def

lemma demo_quiet_files [simp]:
  "GetFileAttributes demo_quiet = (\<lambda>f _. if f = ''C:tape'' then 0x20 else 0xFFFFFFFF)"
  "INVALID_FILE_ATTRIBUTES demo_quiet = 0xFFFFFFFF" "FILE_ATTRIBUTE_DIRECTORY demo_quiet = 0x10"
  "GetProcAddress demo_quiet = (\<lambda>_ _ _. Some 1)"
  by (simp_all add: demo_quiet_def demo_env_def)

subsection \<open>A client that starts, asks again, and shuts down\<close>

definition client_schedule :: "sched list" where
  "client_schedule = [Go_Out, Go_In, Go_In, Go_In, Go_In, Go_In, Go_In, Go_In,
     Go_In, Go_In, Go_In, Go_In, Go_In]"

lemma client_run:
  "\<exists>rs s. demo_run [''r'', ''r'', ''x''] client_schedule = Some (rs, s) \<and>
     map (req_type \<circ> fst) (demo_events [''r'', ''r'', ''x''] client_schedule) =
       [MARKET_START, MARKET_START, SHUTDOWN] \<and>
     map res_type rs = [Some MARKET_START_OK, Some MARKET_START_ERR_RUNNING]"
  by (simp add: client_schedule_def run_defs event_defs)

theorem requests_answered_in_order_witness:
  "\<exists>evs rs s. session_run demo_quiet demo_conf (\<lambda>_ _. False) ''C:''
       (threads_start demo_buffers (demo_boot [''r'', ''r'', ''x''])) evs rs s \<and>
     length evs = 3 \<and> length rs = 2 \<and> length (unsent s) = 1 \<and>
     session ''C:'' evs session_start =
       (rs @ unsent s, ctrl_view (in_data (in_vars s)), to_be_published s)"
proof -
  define evs where "evs = demo_events [''r'', ''r'', ''x''] client_schedule"
  obtain rs s where r: "demo_run [''r'', ''r'', ''x''] client_schedule = Some (rs, s)"
     "map (req_type \<circ> fst) evs = [MARKET_START, MARKET_START, SHUTDOWN]"
     "map res_type rs = [Some MARKET_START_OK, Some MARKET_START_ERR_RUNNING]"
    using client_run [folded evs_def] by (elim exE conjE) (rule that)
  have run: "session_run demo_quiet demo_conf (\<lambda>_ _. False) ''C:''
      (threads_start demo_buffers (demo_boot [''r'', ''r'', ''x''])) evs rs s"
    unfolding evs_def by (rule sched_session_sound [OF r(1)])
  note spec = requests_answered_in_order [OF demo_init run demo_buffers_ok demo_recv_codes demo_names(4)]
  have "length evs = 3" "length rs = 2"
    using arg_cong [OF r(2), of length] arg_cong [OF r(3), of length] by simp_all
  moreover from this spec have "length (unsent s) = 1"
    using session_length [of "''C:''" evs session_start] by simp
  ultimately show ?thesis using run spec by blast
qed

subsection \<open>A client that plays a tape\<close>

lemma tape_run:
  "\<exists>rs s c o' buf. demo_run [''ttape''] [Go_Out, Go_In, Go_In, Go_In, Go_In, Go_In, Go_Market, Go_Market, Go_Market, Go_Market] = Some (rs, s) \<and>
     mk_at s = M_Nx c o' buf \<and> hd buf \<noteq> NUL"
  by (simp add: run_defs event_defs c_str_def as_cstr_def NUL_def WINEING_CTRL_DEFAULT_DATA_SIZE_def
      log_running_def wininf_nxcore_run_def)

theorem nxcore_runs_requested_tapes_witness:
  "\<exists>evs rs s c o' buf. session_run demo_quiet demo_conf (\<lambda>_ _. False) ''C:''
       (threads_start demo_buffers (demo_boot [''ttape''])) evs rs s \<and> mk_at s = M_Nx c o' buf \<and>
     (\<exists>req f. (req, True) \<in> set evs \<and> tape_file req = Some f \<and> read_cstr buf = Inr (as_cstr (''C:'' @ f)))"
proof -
  obtain rs s c o' buf where r:
    "demo_run [''ttape''] [Go_Out, Go_In, Go_In, Go_In, Go_In, Go_In, Go_Market, Go_Market, Go_Market, Go_Market] = Some (rs, s)"
    "mk_at s = M_Nx c o' buf" "hd buf \<noteq> NUL"
    using tape_run by blast
  note run = sched_session_sound [OF r(1), where base = "''C:''" and R = "\<lambda>_ _. False"]
  have "buf \<noteq> b_market demo_buffers"
    using r(3) by (auto simp: demo_buffers_def nul_buffer_def WINEING_CTRL_DEFAULT_DATA_SIZE_def)
  with nxcore_runs_requested_tapes [OF demo_init run demo_buffers_ok demo_recv_codes demo_names(4) disjI1 [OF r(2)]]
    run r(2) show ?thesis by blast
qed

subsection \<open>Reads and types\<close>

theorem unlocked_reads_equal_locked_reads_witness:
  "\<exists>rs s. program_state demo_quiet demo_conf (\<lambda>_ _. False) demo_buffers (demo_io [''x'']) rs s \<and>
     lazy_update_local_if_changed copy_shared_to_local (out_version (out_vars s)) (out_data (out_vars s))
         (conc (sys_sh s), g_data (sys_sh s)) =
       locked_update_local copy_shared_to_local (out_data (out_vars s)) (conc (sys_sh s), g_data (sys_sh s))"
proof -
  obtain rs s where r: "demo_run [''x''] published_schedule = Some (rs, s)"
    using shutdown_published by blast
  from unlocked_reads_equal_locked_reads [OF demo_program [OF r] demo_buffers_ok demo_recv_codes,
      of "out_version (out_vars s)" "out_data (out_vars s)"] demo_program [OF r] show ?thesis by blast
qed

theorem program_state_well_typed_witness:
  "\<exists>rs s. program_state demo_quiet demo_conf (\<lambda>_ _. False) demo_buffers (demo_io [''x'']) rs s \<and>
     length (w_data (g_data (sys_sh s))) = 1024 \<and> w_size (g_data (sys_sh s)) \<le> 1024"
proof -
  obtain rs s where r: "demo_run [''x''] published_schedule = Some (rs, s)"
    using shutdown_published by blast
  from program_state_well_typed [OF demo_program [OF r] demo_buffers_ok demo_recv_codes,
      of "g_data (sys_sh s)"] demo_program [OF r] show ?thesis
    by (auto simp: WINEING_CTRL_DEFAULT_DATA_SIZE_def)
qed

end
