(* ===== verification/Cell_Frame.thy ===== *)
theory Cell_Frame
  imports Wineing_System
begin

text \<open>
  A step of a thread that is not an access to the shared cell neither reads it nor changes it:
  with another version, lock and record in the cell, it does the same.
\<close>

subsection \<open>The program points at which the threads access the cell\<close>

fun in_access :: "in_pc \<Rightarrow> bool" where
  "in_access (In_Publish _ _ _ _) = True"
| "in_access _ = False"

fun out_access :: "o_pc \<Rightarrow> bool" where
  "out_access (O_Loop _ _) = True"
| "out_access _ = False"

fun mk_access :: "m_pc \<Rightarrow> bool" where
  "mk_access (M_Loop _ _) = True"
| "mk_access _ = False"

subsection \<open>Changing the cell\<close>

definition put_cell :: "conc_state \<Rightarrow> w_ctrl \<Rightarrow> 'w shared \<Rightarrow> 'w shared" where
  "put_cell k g sh = sh\<lparr>conc := k, g_data := g\<rparr>"

lemma put_cell_fields [simp]:
  "conc (put_cell k g sh) = k" "g_data (put_cell k g sh) = g" "sh_io (put_cell k g sh) = sh_io sh"
  "g_market_sync_mutex (put_cell k g sh) = g_market_sync_mutex sh"
  "g_market_sync_cond (put_cell k g sh) = g_market_sync_cond sh" "g_hlib (put_cell k g sh) = g_hlib sh"
  by (simp_all add: put_cell_def)

lemma put_cell_update [simp]:
  "(put_cell k g sh)\<lparr>sh_io := i\<rparr> = put_cell k g (sh\<lparr>sh_io := i\<rparr>)"
  "(put_cell k g sh)\<lparr>g_market_sync_mutex := m\<rparr> = put_cell k g (sh\<lparr>g_market_sync_mutex := m\<rparr>)"
  "(put_cell k g sh)\<lparr>g_market_sync_cond := c\<rparr> = put_cell k g (sh\<lparr>g_market_sync_cond := c\<rparr>)"
  "put_cell k g (put_cell k' g' sh) = put_cell k g sh"
  by (simp_all add: put_cell_def)

lemma put_cell_own [simp]: "put_cell (conc sh) (g_data sh) sh = sh"
  by (simp add: put_cell_def)

text \<open>The result of a step, with the change made to the state it returns.\<close>

definition on_cell :: "('w shared \<Rightarrow> 'w shared) \<Rightarrow> ('a \<times> 'w shared) res \<Rightarrow> ('a \<times> 'w shared) res" where
  "on_cell f r = res_bind r (\<lambda>(x, sh). Inr (x, f sh))"

definition on_cell3 :: "('w shared \<Rightarrow> 'w shared) \<Rightarrow> ('a \<times> 'b \<times> 'w shared) res \<Rightarrow> ('a \<times> 'b \<times> 'w shared) res" where
  "on_cell3 f r = res_bind r (\<lambda>(x, y, sh). Inr (x, y, f sh))"

definition on_cell4 :: "('w shared \<Rightarrow> 'w shared) \<Rightarrow> ('a \<times> 'b \<times> 'c \<times> 'w shared) res \<Rightarrow>
    ('a \<times> 'b \<times> 'c \<times> 'w shared) res" where
  "on_cell4 f r = res_bind r (\<lambda>(x, y, z, sh). Inr (x, y, z, f sh))"

lemmas on_cell_defs = on_cell_def on_cell3_def on_cell4_def

lemma res_bind_if: "res_bind (if b then r else r') f = (if b then res_bind r f else res_bind r' f)"
  by simp

lemmas frame_simps = on_cell_defs res_bind_assoc res_bind_if split_def Let_def

lemma log_frame:
  "sh_log e lv m as (put_cell k g sh) = res_bind (sh_log e lv m as sh) (\<lambda>sh. Inr (put_cell k g sh))"
  "sh_log_lazy e lv m bs (put_cell k g sh) = res_bind (sh_log_lazy e lv m bs sh) (\<lambda>sh. Inr (put_cell k g sh))"
  by (simp_all add: sh_log_def sh_log_lazy_def res_bind_assoc)

subsection \<open>The request thread\<close>

lemma signal_frame:
  "signal_market (put_cell k g sh) = res_bind (signal_market sh) (\<lambda>sh. Inr (put_cell k g sh))"
  by (simp add: signal_market_def res_bind_assoc)

lemma in_start_frame: "in_start e conf (put_cell k g sh) = on_cell (put_cell k g) (in_start e conf sh)"
  by (simp add: in_start_def log_frame frame_simps cong: if_cong)

lemma in_connect_frame: "in_connect e c o' (put_cell k g sh) = on_cell (put_cell k g) (in_connect e c o' sh)"
  by (simp add: in_connect_def log_frame frame_simps cong: if_cong)

lemma in_turn_frame: "in_turn e c o' l (put_cell k g sh) = on_cell (put_cell k g) (in_turn e c o' l sh)"
  by (simp add: in_turn_def log_frame frame_simps cong: if_cong)

lemma start_frame:
  "handle_market_start e conf req res l (put_cell k g sh) =
   on_cell4 (put_cell k g) (handle_market_start e conf req res l sh)"
  by (simp add: handle_market_start_def log_frame frame_simps cong: if_cong split: option.split)

lemma switch_frame:
  "cchan_in_switch e conf req l (put_cell k g sh) = on_cell4 (put_cell k g) (cchan_in_switch e conf req l sh)"
  by (simp add: cchan_in_switch_def handle_market_stop_def handle_shutdown_def start_frame Let_def
      split: Request_Type.split) (simp add: on_cell4_def)

lemma dispatch_frame:
  "in_dispatch e conf c o' req l (put_cell k g sh) = on_cell3 (put_cell k g) (in_dispatch e conf c o' req l sh)"
  by (simp add: in_dispatch_def switch_frame frame_simps cong: followup.case_cong)

lemma reply_frame:
  "cchan_in_reply e o' r (put_cell k g sh) = res_bind (cchan_in_reply e o' r sh) (\<lambda>sh. Inr (put_cell k g sh))"
  by (simp add: cchan_in_reply_def log_frame frame_simps cong: if_cong)

text \<open>Only the publication is an access.\<close>

lemma in_step_frame:
  assumes "\<not> in_access p"
  shows "in_step e conf p l (put_cell k g sh) = on_cell3 (put_cell k g) (in_step e conf p l sh)"
  using assms
  by (cases p) (simp_all add: in_step_def in_start_frame in_connect_frame in_turn_frame dispatch_frame
      signal_frame reply_frame frame_simps)

subsection \<open>The response thread\<close>

lemma out_start_frame: "out_start e conf (put_cell k g sh) = on_cell (put_cell k g) (out_start e conf sh)"
  by (simp add: out_start_def log_frame frame_simps cong: if_cong)

lemma out_test_frame: "out_test e c m t (put_cell k g sh) = on_cell (put_cell k g) (out_test e c m t sh)"
  by (simp add: out_test_def log_frame frame_simps cong: if_cong)

lemma out_recv_frame: "out_recv e c m (put_cell k g sh) = on_cell (put_cell k g) (out_recv e c m sh)"
  by (simp add: out_recv_def log_frame frame_simps cong: if_cong)

lemma out_send_frame: "out_send e c m b n (put_cell k g sh) = on_cell (put_cell k g) (out_send e c m b n sh)"
  by (simp add: out_send_def log_frame frame_simps cong: if_cong)

lemma out_step_frame:
  assumes "\<not> out_access p"
  shows "out_step e conf p l (put_cell k g sh) = on_cell3 (put_cell k g) (out_step e conf p l sh)"
  using assms
  by (cases p) (simp_all add: out_step_def out_start_frame out_test_frame out_recv_frame out_send_frame
      frame_simps)

subsection \<open>The market thread and the callback\<close>

lemma market_start_frame:
  "market_start e conf (put_cell k g sh) = on_cell (put_cell k g) (market_start e conf sh)"
  by (simp add: market_start_def log_frame frame_simps cong: if_cong)

lemma market_connect_frame:
  "market_connect e c o' l (put_cell k g sh) = on_cell3 (put_cell k g) (market_connect e c o' l sh)"
  by (simp add: market_connect_def log_frame frame_simps cong: if_cong)

lemma market_act_frame:
  "market_act e c o' t (put_cell k g sh) = on_cell (put_cell k g) (market_act e c o' t sh)"
  by (simp add: market_act_def log_running_def log_frame frame_simps cong: if_cong)

lemma market_step_frame:
  assumes "\<not> mk_access p"
  shows "market_step e conf p l (put_cell k g sh) = on_cell3 (put_cell k g) (market_step e conf p l sh)"
  using assms
  by (cases p) (simp_all add: market_step_def market_start_frame market_connect_frame market_act_frame
      frame_simps)

lemma callback_handle_frame:
  "callback_handle e mt l (put_cell k g sh) = on_cell (put_cell k g) (callback_handle e mt l sh)"
  by (simp add: callback_handle_def frame_simps)

subsection \<open>The same step with another cell\<close>

lemma frame_Inr:
  assumes "r' = on_cell3 (put_cell k g) r" "r' = Inr (p, l, sh')"
  shows "\<exists>sh. r = Inr (p, l, sh) \<and> sh' = put_cell k g sh"
proof -
  have "res_bind r (\<lambda>(x, y, sh). Inr (x, y, put_cell k g sh)) = Inr (p, l, sh')"
    using assms by (simp add: on_cell3_def)
  then show ?thesis by (auto simp: res_simps)
qed

lemma frame_keeps:
  assumes "r = on_cell3 (put_cell k g) r" "r = Inr (p, l, sh)"
  shows "conc sh = k \<and> g_data sh = g"
proof -
  have "sh = put_cell k g sh" using assms by (simp add: on_cell3_def)
  then show ?thesis by (metis put_cell_fields(1,2))
qed

lemma in_step_other:
  assumes "in_step e conf p l (put_cell k g sh) = Inr (p', l', sh')" "\<not> in_access p"
  shows "\<exists>sh2. in_step e conf p l sh = Inr (p', l', sh2) \<and> sh' = put_cell k g sh2 \<and>
    conc sh2 = conc sh \<and> g_data sh2 = g_data sh"
proof -
  from frame_Inr [OF in_step_frame [OF assms(2)] assms(1)] obtain sh2 where
    sh2: "in_step e conf p l sh = Inr (p', l', sh2)" "sh' = put_cell k g sh2" by blast
  have "in_step e conf p l sh = on_cell3 (put_cell (conc sh) (g_data sh)) (in_step e conf p l sh)"
    using in_step_frame [OF assms(2), of e conf l "conc sh" "g_data sh" sh] by simp
  from frame_keeps [OF this sh2(1)] sh2 show ?thesis by blast
qed

lemma out_step_other:
  assumes "out_step e conf p l (put_cell k g sh) = Inr (p', l', sh')" "\<not> out_access p"
  shows "\<exists>sh2. out_step e conf p l sh = Inr (p', l', sh2) \<and> sh' = put_cell k g sh2 \<and>
    conc sh2 = conc sh \<and> g_data sh2 = g_data sh"
proof -
  from frame_Inr [OF out_step_frame [OF assms(2)] assms(1)] obtain sh2 where
    sh2: "out_step e conf p l sh = Inr (p', l', sh2)" "sh' = put_cell k g sh2" by blast
  have "out_step e conf p l sh = on_cell3 (put_cell (conc sh) (g_data sh)) (out_step e conf p l sh)"
    using out_step_frame [OF assms(2), of e conf l "conc sh" "g_data sh" sh] by simp
  from frame_keeps [OF this sh2(1)] sh2 show ?thesis by blast
qed

lemma market_step_other:
  assumes "market_step e conf p l (put_cell k g sh) = Inr (p', l', sh')" "\<not> mk_access p"
  shows "\<exists>sh2. market_step e conf p l sh = Inr (p', l', sh2) \<and> sh' = put_cell k g sh2 \<and>
    conc sh2 = conc sh \<and> g_data sh2 = g_data sh"
proof -
  from frame_Inr [OF market_step_frame [OF assms(2)] assms(1)] obtain sh2 where
    sh2: "market_step e conf p l sh = Inr (p', l', sh2)" "sh' = put_cell k g sh2" by blast
  have "market_step e conf p l sh = on_cell3 (put_cell (conc sh) (g_data sh)) (market_step e conf p l sh)"
    using market_step_frame [OF assms(2), of e conf l "conc sh" "g_data sh" sh] by simp
  from frame_keeps [OF this sh2(1)] sh2 show ?thesis by blast
qed

end
