(* ===== verification/Conc_Steps.thy ===== *)
theory Conc_Steps
  imports Ctrl_Data
begin

text \<open>
  The functions of \<^verbatim>\<open>conc.cc\<close> as several threads run them, one shared access at a time. A
  thread is outside the functions (\<open>Idle\<close>) or between two statements of one of them; a step
  of thread \<open>i\<close> is one statement. The version test is made without the lock, as in the code.

  \<open>Tear g\<close> overwrites the shared data with any value while a writer is inside its copy
  function: copying a \<open>w_ctrl\<close> is three separate writes, and nothing is assumed about what an
  unlocked reader would see between them. An overflowing version, a faulting copy and a held
  lock leave no step.

  The program has one thread that calls the global update (\<open>cchan_in_thread\<close>); the theorems
  on \<open>sw_run\<close> are about that use, \<open>two_owners_lose_an_update\<close> about two such threads.
\<close>

subsection \<open>Threads inside the functions\<close>

datatype pc =
    Idle
  | G_Lock | G_Incr | G_Copy | G_Unlock   \<comment> \<open>inside \<open>lazy_update_global_if_owner\<close>\<close>
  | G_Other                               \<comment> \<open>in its \<open>else\<close>, about to read the version again\<close>
  | L_Lock | L_Read | L_Copy | L_Unlock   \<comment> \<open>inside \<open>lazy_update_local_if_changed\<close>\<close>

record 't thr =
  th_pc :: pc
  th_version :: c_int
  th_data :: 't

record ('t, 'g) csys =
  sh_version :: c_int
  sh_lock :: "nat option"
  sh_data :: 'g
  threads :: "nat \<Rightarrow> 't thr"

datatype ('t, 'g) action =
    Set_Local 't   \<comment> \<open>outside the functions, the thread changes its local data\<close>
  | Call_Global
  | Call_Local
  | Tear 'g
  | Run

definition set_thr :: "nat \<Rightarrow> 't thr \<Rightarrow> ('t, 'g) csys \<Rightarrow> ('t, 'g) csys" where
  "set_thr i t s = s\<lparr>threads := (threads s)(i := t)\<rparr>"

fun lazy_exec :: "('t \<Rightarrow> 'g \<Rightarrow> 'g res) \<Rightarrow> ('t \<Rightarrow> 'g \<Rightarrow> 't res) \<Rightarrow> nat \<Rightarrow> ('t, 'g) action \<Rightarrow> pc \<Rightarrow>
    't thr \<Rightarrow> ('t, 'g) csys \<Rightarrow> ('t, 'g) csys option" where
  "lazy_exec put get i (Set_Local d) Idle t s = Some (set_thr i (t\<lparr>th_data := d\<rparr>) s)"
| "lazy_exec put get i Call_Global Idle t s =
     Some (if th_version t = sh_version s then set_thr i (t\<lparr>th_pc := G_Lock\<rparr>) s
           else set_thr i (t\<lparr>th_pc := G_Other\<rparr>) s)"
| "lazy_exec put get i Call_Local Idle t s =
     Some (if th_version t = sh_version s then s else set_thr i (t\<lparr>th_pc := L_Lock\<rparr>) s)"
| "lazy_exec put get i Run G_Lock t s =
     (if sh_lock s = None then Some (set_thr i (t\<lparr>th_pc := G_Incr\<rparr>) (s\<lparr>sh_lock := Some i\<rparr>)) else None)"
| "lazy_exec put get i Run G_Incr t s =
     (case c_inc (th_version t) of Inl _ \<Rightarrow> None
      | Inr v \<Rightarrow> Some (set_thr i (t\<lparr>th_pc := G_Copy, th_version := v\<rparr>) (s\<lparr>sh_version := v\<rparr>)))"
| "lazy_exec put get i (Tear g) G_Copy t s = Some (s\<lparr>sh_data := g\<rparr>)"
| "lazy_exec put get i Run G_Copy t s =
     (case put (th_data t) (sh_data s) of Inl _ \<Rightarrow> None
      | Inr g \<Rightarrow> Some (set_thr i (t\<lparr>th_pc := G_Unlock\<rparr>) (s\<lparr>sh_data := g\<rparr>)))"
| "lazy_exec put get i Run G_Unlock t s =
     Some (set_thr i (t\<lparr>th_pc := Idle\<rparr>) (s\<lparr>sh_lock := None\<rparr>))"
| "lazy_exec put get i Run G_Other t s =
     Some (set_thr i (t\<lparr>th_pc := Idle, th_version := sh_version s\<rparr>) s)"
| "lazy_exec put get i Run L_Lock t s =
     (if sh_lock s = None then Some (set_thr i (t\<lparr>th_pc := L_Read\<rparr>) (s\<lparr>sh_lock := Some i\<rparr>)) else None)"
| "lazy_exec put get i Run L_Read t s =
     Some (set_thr i (t\<lparr>th_pc := L_Copy, th_version := sh_version s\<rparr>) s)"
| "lazy_exec put get i Run L_Copy t s =
     (case get (th_data t) (sh_data s) of Inl _ \<Rightarrow> None
      | Inr d \<Rightarrow> Some (set_thr i (t\<lparr>th_pc := L_Unlock, th_data := d\<rparr>) s))"
| "lazy_exec put get i Run L_Unlock t s =
     Some (set_thr i (t\<lparr>th_pc := Idle\<rparr>) (s\<lparr>sh_lock := None\<rparr>))"
| "lazy_exec put get i a p t s = None"

text \<open>One step of thread \<open>i\<close>, and a given schedule of steps.\<close>

definition lazy_step :: "('t \<Rightarrow> 'g \<Rightarrow> 'g res) \<Rightarrow> ('t \<Rightarrow> 'g \<Rightarrow> 't res) \<Rightarrow> nat \<times> ('t, 'g) action \<Rightarrow>
    ('t, 'g) csys \<Rightarrow> ('t, 'g) csys option" where
  "lazy_step put get ia s =
     (let (i, a) = ia; t = threads s i in lazy_exec put get i a (th_pc t) t s)"

fun lazy_steps :: "('t \<Rightarrow> 'g \<Rightarrow> 'g res) \<Rightarrow> ('t \<Rightarrow> 'g \<Rightarrow> 't res) \<Rightarrow> (nat \<times> ('t, 'g) action) list \<Rightarrow>
    ('t, 'g) csys \<Rightarrow> ('t, 'g) csys option" where
  "lazy_steps put get [] s = Some s"
| "lazy_steps put get (x # xs) s = Option.bind (lazy_step put get x s) (lazy_steps put get xs)"

lemma lazy_steps_append:
  "lazy_steps put get (xs @ ys) s = Option.bind (lazy_steps put get xs s) (lazy_steps put get ys)"
  by (induction xs arbitrary: s) (auto simp: Option.bind_assoc cong: Option.bind_cong)

lemma set_thr_simps [simp]:
  "threads (set_thr i t s) = (threads s)(i := t)"
  "sh_version (set_thr i t s) = sh_version s"
  "sh_lock (set_thr i t s) = sh_lock s"
  "sh_data (set_thr i t s) = sh_data s"
  by (simp_all add: set_thr_def)

text \<open>Inversion: the fifteen kinds of step.\<close>

lemma lazy_stepE:
  assumes "lazy_step put get (i, a) s = Some s'"
  obtains
    (set_local) d where "a = Set_Local d" "th_pc (threads s i) = Idle"
      "s' = set_thr i (threads s i\<lparr>th_data := d\<rparr>) s"
  | (call_owner) "a = Call_Global" "th_pc (threads s i) = Idle" "th_version (threads s i) = sh_version s"
      "s' = set_thr i (threads s i\<lparr>th_pc := G_Lock\<rparr>) s"
  | (call_other) "a = Call_Global" "th_pc (threads s i) = Idle" "th_version (threads s i) \<noteq> sh_version s"
      "s' = set_thr i (threads s i\<lparr>th_pc := G_Other\<rparr>) s"
  | (g_other) "a = Run" "th_pc (threads s i) = G_Other"
      "s' = set_thr i (threads s i\<lparr>th_pc := Idle, th_version := sh_version s\<rparr>) s"
  | (call_same) "a = Call_Local" "th_pc (threads s i) = Idle" "th_version (threads s i) = sh_version s"
      "s' = s"
  | (call_changed) "a = Call_Local" "th_pc (threads s i) = Idle" "th_version (threads s i) \<noteq> sh_version s"
      "s' = set_thr i (threads s i\<lparr>th_pc := L_Lock\<rparr>) s"
  | (g_lock) "a = Run" "th_pc (threads s i) = G_Lock" "sh_lock s = None"
      "s' = set_thr i (threads s i\<lparr>th_pc := G_Incr\<rparr>) (s\<lparr>sh_lock := Some i\<rparr>)"
  | (g_incr) v where "a = Run" "th_pc (threads s i) = G_Incr" "c_inc (th_version (threads s i)) = Inr v"
      "s' = set_thr i (threads s i\<lparr>th_pc := G_Copy, th_version := v\<rparr>) (s\<lparr>sh_version := v\<rparr>)"
  | (tear) g where "a = Tear g" "th_pc (threads s i) = G_Copy" "s' = s\<lparr>sh_data := g\<rparr>"
  | (g_copy) g where "a = Run" "th_pc (threads s i) = G_Copy"
      "put (th_data (threads s i)) (sh_data s) = Inr g"
      "s' = set_thr i (threads s i\<lparr>th_pc := G_Unlock\<rparr>) (s\<lparr>sh_data := g\<rparr>)"
  | (g_unlock) "a = Run" "th_pc (threads s i) = G_Unlock"
      "s' = set_thr i (threads s i\<lparr>th_pc := Idle\<rparr>) (s\<lparr>sh_lock := None\<rparr>)"
  | (l_lock) "a = Run" "th_pc (threads s i) = L_Lock" "sh_lock s = None"
      "s' = set_thr i (threads s i\<lparr>th_pc := L_Read\<rparr>) (s\<lparr>sh_lock := Some i\<rparr>)"
  | (l_read) "a = Run" "th_pc (threads s i) = L_Read"
      "s' = set_thr i (threads s i\<lparr>th_pc := L_Copy, th_version := sh_version s\<rparr>) s"
  | (l_copy) d where "a = Run" "th_pc (threads s i) = L_Copy"
      "get (th_data (threads s i)) (sh_data s) = Inr d"
      "s' = set_thr i (threads s i\<lparr>th_pc := L_Unlock, th_data := d\<rparr>) s"
  | (l_unlock) "a = Run" "th_pc (threads s i) = L_Unlock"
      "s' = set_thr i (threads s i\<lparr>th_pc := Idle\<rparr>) (s\<lparr>sh_lock := None\<rparr>)"
proof (cases a)
  case (Set_Local d)
  with assms have "th_pc (threads s i) = Idle \<and> s' = set_thr i (threads s i\<lparr>th_data := d\<rparr>) s"
    by (cases "th_pc (threads s i)") (auto simp: lazy_step_def)
  with Set_Local show ?thesis by (intro set_local) auto
next
  case Call_Global
  with assms have "th_pc (threads s i) = Idle"
    by (cases "th_pc (threads s i)") (auto simp: lazy_step_def)
  with Call_Global assms show ?thesis
    by (cases "th_version (threads s i) = sh_version s")
      (auto simp: lazy_step_def intro: call_owner call_other)
next
  case Call_Local
  with assms have "th_pc (threads s i) = Idle"
    by (cases "th_pc (threads s i)") (auto simp: lazy_step_def)
  with Call_Local assms show ?thesis
    by (cases "th_version (threads s i) = sh_version s")
      (auto simp: lazy_step_def intro: call_same call_changed)
next
  case (Tear g)
  with assms have "th_pc (threads s i) = G_Copy \<and> s' = s\<lparr>sh_data := g\<rparr>"
    by (cases "th_pc (threads s i)") (auto simp: lazy_step_def)
  with Tear show ?thesis by (intro tear) auto
next
  case Run
  note run = this
  show ?thesis
  proof (cases "th_pc (threads s i)")
    case Idle
    with run assms show ?thesis by (simp add: lazy_step_def)
  next
    case G_Lock
    with run assms show ?thesis by (intro g_lock) (auto simp: lazy_step_def split: if_splits)
  next
    case G_Incr
    with run assms show ?thesis by (auto simp: lazy_step_def split: sum.splits intro: g_incr)
  next
    case G_Copy
    with run assms show ?thesis by (auto simp: lazy_step_def split: sum.splits intro: g_copy)
  next
    case G_Unlock
    with run assms show ?thesis by (intro g_unlock) (auto simp: lazy_step_def)
  next
    case G_Other
    with run assms show ?thesis by (intro g_other) (auto simp: lazy_step_def)
  next
    case L_Lock
    with run assms show ?thesis by (intro l_lock) (auto simp: lazy_step_def split: if_splits)
  next
    case L_Read
    with run assms show ?thesis by (intro l_read) (auto simp: lazy_step_def)
  next
    case L_Copy
    with run assms show ?thesis by (auto simp: lazy_step_def split: sum.splits intro: l_copy)
  next
    case L_Unlock
    with run assms show ?thesis by (intro l_unlock) (auto simp: lazy_step_def)
  qed
qed


subsection \<open>Undisturbed, the steps are the sequential functions\<close>

lemma lazy_steps_cons_Some:
  "lazy_step put get x s = Some s' \<Longrightarrow> lazy_steps put get (x # xs) s = lazy_steps put get xs s'"
  by simp

lemma alone_global:
  assumes "sh_lock s = None" "th_pc (threads s i) = Idle"
    and "lazy_update_global_if_owner put (th_version (threads s i)) (th_data (threads s i))
           (\<lparr>g_version = sh_version s, g_lock = MFree\<rparr>, sh_data s) = Inr (v', cs, g')"
  shows "lazy_steps put get ((i, Call_Global) #
       (if th_version (threads s i) = sh_version s then replicate 4 (i, Run) else [(i, Run)])) s =
     Some (set_thr i (threads s i\<lparr>th_version := v'\<rparr>) (s\<lparr>sh_version := g_version cs, sh_data := g'\<rparr>))"
  using assms
  by (cases s; cases "threads s i")
    (auto simp: lazy_update_global_if_owner_def lock_unlock_g res_simps lazy_step_def Let_def
      set_thr_def numeral_eq_Suc)

lemma alone_local:
  assumes "sh_lock s = None" "th_pc (threads s i) = Idle"
    and "lazy_update_local_if_changed get (th_version (threads s i)) (th_data (threads s i))
           (\<lparr>g_version = sh_version s, g_lock = MFree\<rparr>, sh_data s) = Inr (v', d', cs, g')"
  shows "lazy_steps put get ((i, Call_Local) #
       (if th_version (threads s i) = sh_version s then [] else replicate 4 (i, Run))) s =
     Some (set_thr i (threads s i\<lparr>th_version := v', th_data := d'\<rparr>) s)"
  using assms
  by (cases s; cases "threads s i")
    (auto simp: lazy_update_local_if_changed_def lock_unlock_g res_simps lazy_step_def Let_def
      set_thr_def numeral_eq_Suc)

end
