(* ===== verification/Conc_Interleaving.thy ===== *)
theory Conc_Interleaving
  imports Conc_Steps
begin

text \<open>
  Runs of the threads of \<open>Conc_Steps\<close> with one owner: the invariant, its proof for every copy
  pair, and the properties of the program's use with \<open>w_ctrl\<close> (mutual exclusion, no torn data,
  safety of the unlocked test, refinement of a register). Their witnesses are in \<open>Conc_Runs\<close>.
\<close>

subsection \<open>Runs with one owner\<close>

text \<open>
  \<open>sw_run\<close> is the states reachable when only thread \<open>w\<close> calls the global update and the
  others call the local one, with the list of the views published so far: the first is the
  initial content, and each completed copy into the shared data adds one.
\<close>

fun role :: "('t \<Rightarrow> bool) \<Rightarrow> ('g \<Rightarrow> bool) \<Rightarrow> nat \<Rightarrow> nat \<Rightarrow> ('t, 'g) action \<Rightarrow> bool" where
  "role okT okG w i (Set_Local d) = (i = w \<and> okT d)"
| "role okT okG w i Call_Global = (i = w)"
| "role okT okG w i Call_Local = (i \<noteq> w)"
| "role okT okG w i (Tear g) = okG g"
| "role okT okG w i Run = True"

definition published :: "('t \<Rightarrow> 'v) \<Rightarrow> nat \<Rightarrow> ('t, 'g) action \<Rightarrow> ('t, 'g) csys \<Rightarrow> 'v list" where
  "published view i a s =
     (if th_pc (threads s i) = G_Copy \<and> (case a of Run \<Rightarrow> True | _ \<Rightarrow> False)
      then [view (th_data (threads s i))] else [])"

inductive sw_run for put get viewT viewG okT okG w s0 where
  start: "sw_run put get viewT viewG okT okG w s0 s0 [viewG (sh_data s0)]"
| step: "sw_run put get viewT viewG okT okG w s0 s h \<Longrightarrow> role okT okG w i a \<Longrightarrow>
    lazy_step put get (i, a) s = Some s' \<Longrightarrow>
    sw_run put get viewT viewG okT okG w s0 s' (h @ published viewT i a s)"

text \<open>
  The start: nobody inside, lock free, the owner has the global version, everybody else an
  older one.
\<close>

definition sw_start :: "('t \<Rightarrow> bool) \<Rightarrow> ('g \<Rightarrow> bool) \<Rightarrow> nat \<Rightarrow> ('t, 'g) csys \<Rightarrow> bool" where
  "sw_start okT okG w s \<longleftrightarrow> sh_lock s = None \<and> okG (sh_data s) \<and>
     th_version (threads s w) = sh_version s \<and>
     (\<forall>i. th_pc (threads s i) = Idle \<and> okT (th_data (threads s i)) \<and>
          (i \<noteq> w \<longrightarrow> sint (th_version (threads s i)) < sint (sh_version s)))"

definition in_cs :: "pc \<Rightarrow> bool" where
  "in_cs p \<longleftrightarrow> p \<in> {G_Incr, G_Copy, G_Unlock, L_Read, L_Copy, L_Unlock}"

text \<open>
  The invariant. \<open>v0\<close> is the version at the start. Outside of the owner's copy the shared
  data is the last publication and the version is its number; during it the version is one
  ahead. A reader that is not about to copy has its start version or the number of the
  publication it holds.
\<close>

definition lock_inv :: "('t, 'g) csys \<Rightarrow> bool" where
  "lock_inv s \<longleftrightarrow> (\<forall>i. in_cs (th_pc (threads s i)) \<longleftrightarrow> sh_lock s = Some i)"

definition owner_inv :: "nat \<Rightarrow> ('t, 'g) csys \<Rightarrow> bool" where
  "owner_inv w s \<longleftrightarrow> th_version (threads s w) = sh_version s \<and>
     th_pc (threads s w) \<in> {Idle, G_Lock, G_Incr, G_Copy, G_Unlock}"

definition data_inv :: "('g \<Rightarrow> 'v) \<Rightarrow> int \<Rightarrow> nat \<Rightarrow> ('t, 'g) csys \<Rightarrow> 'v list \<Rightarrow> bool" where
  "data_inv viewG v0 w s h \<longleftrightarrow> h \<noteq> [] \<and>
     (if th_pc (threads s w) = G_Copy then sint (sh_version s) = v0 + int (length h)
      else sint (sh_version s) = v0 + int (length h) - 1 \<and> viewG (sh_data s) = last h)"

definition reader_inv :: "('t \<Rightarrow> 'v) \<Rightarrow> int \<Rightarrow> c_int \<Rightarrow> 't thr \<Rightarrow> 'v list \<Rightarrow> bool" where
  "reader_inv viewT v0 shv t h \<longleftrightarrow> th_pc t \<in> {Idle, L_Lock, L_Read, L_Copy, L_Unlock} \<and>
     (if th_pc t = L_Copy then th_version t = shv
      else sint (th_version t) < v0 \<or>
        (\<exists>k < length h. sint (th_version t) = v0 + int k \<and> viewT (th_data t) = h ! k))"

definition sw_inv :: "('t \<Rightarrow> 'v) \<Rightarrow> ('g \<Rightarrow> 'v) \<Rightarrow> ('t \<Rightarrow> bool) \<Rightarrow> ('g \<Rightarrow> bool) \<Rightarrow> int \<Rightarrow> nat \<Rightarrow>
    ('t, 'g) csys \<Rightarrow> 'v list \<Rightarrow> bool" where
  "sw_inv viewT viewG okT okG v0 w s h \<longleftrightarrow>
     lock_inv s \<and> owner_inv w s \<and> data_inv viewG v0 w s h \<and> okG (sh_data s) \<and>
     (\<forall>i. okT (th_data (threads s i))) \<and>
     (\<forall>i. i \<noteq> w \<longrightarrow> reader_inv viewT v0 (sh_version s) (threads s i) h)"

lemmas sw_inv_defs = sw_inv_def lock_inv_def owner_inv_def data_inv_def

subsection \<open>Every step keeps the invariant\<close>

lemma in_cs_simps [simp]:
  "\<not> in_cs Idle" "\<not> in_cs G_Lock" "\<not> in_cs G_Other" "in_cs G_Incr" "in_cs G_Copy" "in_cs G_Unlock"
  "\<not> in_cs L_Lock" "in_cs L_Read" "in_cs L_Copy" "in_cs L_Unlock"
  by (simp_all add: in_cs_def)

lemma lock_inv_step:
  assumes "lock_inv s" "lazy_step put get (i, a) s = Some s'"
  shows "lock_inv s'"
proof -
  have l: "in_cs (th_pc (threads s j)) \<longleftrightarrow> sh_lock s = Some j" for j
    using assms(1) by (simp add: lock_inv_def)
  show ?thesis using assms(2)
    by (cases rule: lazy_stepE) (use l [of i] l in \<open>auto simp: lock_inv_def\<close>)
qed

lemma lock_inv_excl:
  "lock_inv s \<Longrightarrow> in_cs (th_pc (threads s i)) \<Longrightarrow> in_cs (th_pc (threads s j)) \<Longrightarrow> i = j"
  by (auto simp: lock_inv_def)

lemma c_inc_sint: "c_inc x = Inr y \<Longrightarrow> sint y = sint x + 1"
  by (auto simp: res_simps sint_Suc32)

context copy_pair
begin

lemma owner_inv_step:
  assumes "sw_inv viewT viewG okT okG v0 w s h" "role okT okG w i a" "lazy_step put get (i, a) s = Some s'"
  shows "owner_inv w s'"
proof -
  have o: "owner_inv w s" and r: "i \<noteq> w \<Longrightarrow> th_pc (threads s i) \<in> {Idle, L_Lock, L_Read, L_Copy, L_Unlock}"
    using assms(1) by (auto simp: sw_inv_def reader_inv_def)
  show ?thesis using assms(3,2) o r
    by (cases rule: lazy_stepE) (auto simp: owner_inv_def split: if_splits)
qed

lemma ok_step:
  assumes "okG (sh_data s)" "\<forall>j. okT (th_data (threads s j))" "role okT okG w i a"
    "lazy_step put get (i, a) s = Some s'"
  shows "okG (sh_data s') \<and> (\<forall>j. okT (th_data (threads s' j)))"
  using assms(4,1-3)
proof (cases rule: lazy_stepE)
  case (g_copy g)
  with put_ok [of "th_data (threads s i)" "sh_data s"] assms(1-3) show ?thesis by auto
next
  case (l_copy d)
  with get_ok [of "th_data (threads s i)" "sh_data s"] assms(1-3) show ?thesis by auto
qed auto

lemma data_inv_step:
  assumes "sw_inv viewT viewG okT okG v0 w s h" "role okT okG w i a" "lazy_step put get (i, a) s = Some s'"
  shows "data_inv viewG v0 w s' (h @ published viewT i a s)"
proof -
  have o: "owner_inv w s" and d: "data_inv viewG v0 w s h" and ok: "okG (sh_data s)" "okT (th_data (threads s w))"
    and r: "i \<noteq> w \<Longrightarrow> th_pc (threads s i) \<in> {Idle, L_Lock, L_Read, L_Copy, L_Unlock}"
    using assms(1) by (auto simp: sw_inv_def reader_inv_def)
  show ?thesis using assms(3,2)
  proof (cases rule: lazy_stepE)
    case (g_incr v)
    with r have "i = w" by auto
    with g_incr o d show ?thesis
      by (auto simp: data_inv_def owner_inv_def published_def dest: c_inc_sint)
  next
    case (g_copy g)
    with r have "i = w" by auto
    with g_copy o d put_ok [OF ok(2,1)] show ?thesis
      by (auto simp: data_inv_def published_def)
  qed (use o d r in \<open>auto simp: data_inv_def owner_inv_def published_def split: if_splits\<close>)
qed

lemma reader_inv_step:
  assumes "sw_inv viewT viewG okT okG v0 w s h" "role okT okG w i a" "lazy_step put get (i, a) s = Some s'"
    and "j \<noteq> w"
  shows "reader_inv viewT v0 (sh_version s') (threads s' j) (h @ published viewT i a s)"
proof -
  have lk: "lock_inv s" and d: "data_inv viewG v0 w s h"
    and ok: "okG (sh_data s)" "okT (th_data (threads s j))"
    and rj: "reader_inv viewT v0 (sh_version s) (threads s j) h"
    and r: "i \<noteq> w \<Longrightarrow> th_pc (threads s i) \<in> {Idle, L_Lock, L_Read, L_Copy, L_Unlock}"
    using assms(1,4) by (auto simp: sw_inv_def reader_inv_def)
  show ?thesis using assms(3,2)
  proof (cases rule: lazy_stepE)
    case (g_incr v)
    with lk assms(4) r have "th_pc (threads s j) \<noteq> L_Copy" "i = w"
      using lock_inv_excl [of s i j] by (auto simp: in_cs_def)
    with g_incr rj assms(4) show ?thesis by (auto simp: reader_inv_def published_def)
  next
    case (g_copy g)
    with r have "i = w" by auto
    with g_copy rj assms(4) show ?thesis
      by (auto simp: reader_inv_def published_def nth_append split: if_splits)
  next
    case (l_copy u)
    show ?thesis
    proof (cases "i = j")
      case True
      with l_copy lk assms(4) have "th_pc (threads s w) \<noteq> G_Copy"
        using lock_inv_excl [of s i w] by (auto simp: in_cs_def)
      with True l_copy d rj get_ok [OF ok(2,1)] show ?thesis
        by (auto simp: reader_inv_def data_inv_def published_def last_conv_nth of_nat_diff Suc_le_eq
            intro!: exI [of _ "length h - 1"])
    next
      case False
      with l_copy rj show ?thesis by (auto simp: reader_inv_def published_def)
    qed
  qed (use rj assms(4) r in \<open>auto simp: reader_inv_def published_def split: if_splits\<close>)
qed

lemma sw_inv_step:
  assumes "sw_inv viewT viewG okT okG v0 w s h" "role okT okG w i a" "lazy_step put get (i, a) s = Some s'"
  shows "sw_inv viewT viewG okT okG v0 w s' (h @ published viewT i a s)"
proof -
  have ok: "okG (sh_data s)" "\<forall>j. okT (th_data (threads s j))" "lock_inv s"
    using assms(1) by (auto simp: sw_inv_def)
  from owner_inv_step [OF assms] data_inv_step [OF assms] reader_inv_step [OF assms]
    ok_step [OF ok(1,2) assms(2,3)] lock_inv_step [OF ok(3) assms(3)]
  show ?thesis by (auto simp: sw_inv_def)
qed

lemma sw_inv_start:
  assumes "sw_start okT okG w s"
  shows "sw_inv viewT viewG okT okG (sint (sh_version s)) w s [viewG (sh_data s)]"
  using assms by (auto simp: sw_start_def sw_inv_defs in_cs_def reader_inv_def)

lemma sw_run_inv:
  assumes "sw_run put get viewT viewG okT okG w s0 s h" "sw_start okT okG w s0"
  shows "sw_inv viewT viewG okT okG (sint (sh_version s0)) w s h"
  using assms
proof (induction rule: sw_run.induct)
  case start
  then show ?case by (rule sw_inv_start)
next
  case (step s h i a s')
  then show ?case by (intro sw_inv_step) auto
qed

text \<open>The lock-free test of a reader skips the copy only when it has the current data.\<close>

lemma sw_test_safe:
  assumes "sw_inv viewT viewG okT okG v0 w s h" "i \<noteq> w" "v0 \<le> sint (th_version (threads s i))"
    "th_pc (threads s i) = Idle" "th_version (threads s i) = sh_version s"
  shows "viewT (th_data (threads s i)) = viewG (sh_data s) \<and> viewG (sh_data s) = last h"
proof -
  have d: "data_inv viewG v0 w s h" and r: "reader_inv viewT v0 (sh_version s) (threads s i) h"
    using assms(1,2) by (auto simp: sw_inv_def)
  from r assms(3-5) obtain k where k: "k < length h" "sint (sh_version s) = v0 + int k"
      "viewT (th_data (threads s i)) = h ! k"
    by (auto simp: reader_inv_def)
  with d have "th_pc (threads s w) \<noteq> G_Copy" "k = length h - 1"
    by (auto simp: data_inv_def split: if_splits)
  with d k show ?thesis by (auto simp: data_inv_def last_conv_nth)
qed

end

subsection \<open>The abstract register and the refinement\<close>

text \<open>
  What the functions are for: a register whose owner appends values and where an observer
  sees, at one point in time, the last one.
\<close>

record 'v register =
  written :: "'v list"
  observed :: "nat \<Rightarrow> 'v option"

inductive reg_step :: "nat \<Rightarrow> 'v register \<Rightarrow> 'v register \<Rightarrow> bool" for w where
  append: "reg_step w r (r\<lparr>written := written r @ [v]\<rparr>)"
| observe: "i \<noteq> w \<Longrightarrow> written r \<noteq> [] \<Longrightarrow>
    reg_step w r (r\<lparr>observed := (observed r)(i \<mapsto> last (written r))\<rparr>)"

definition represents :: "('t \<Rightarrow> 'v) \<Rightarrow> int \<Rightarrow> nat \<Rightarrow> ('t, 'g) csys \<Rightarrow> 'v list \<Rightarrow> 'v register \<Rightarrow> bool" where
  "represents view v0 w s h r \<longleftrightarrow> written r = h \<and>
     (\<forall>i. i \<noteq> w \<longrightarrow> th_pc (threads s i) \<noteq> L_Copy \<longrightarrow>
        observed r i = (if sint (th_version (threads s i)) < v0 then None
                        else Some (view (th_data (threads s i)))))"

context copy_pair
begin

lemma simulation_step:
  assumes "sw_inv viewT viewG okT okG v0 w s h" "represents viewT v0 w s h r"
    "role okT okG w i a" "lazy_step put get (i, a) s = Some s'"
  shows "\<exists>r'. (r' = r \<or> reg_step w r r') \<and>
     represents viewT v0 w s' (h @ published viewT i a s) r'"
proof -
  have lk: "lock_inv s" and d: "data_inv viewG v0 w s h" and o: "owner_inv w s"
    and ok: "okG (sh_data s)" "okT (th_data (threads s i))"
    and ri: "i \<noteq> w \<Longrightarrow> reader_inv viewT v0 (sh_version s) (threads s i) h"
    using assms(1) by (auto simp: sw_inv_def)
  show ?thesis using assms(4,3)
  proof (cases rule: lazy_stepE)
    case (g_copy g)
    with ri have "i = w" by (auto simp: reader_inv_def)
    with g_copy assms(2) have
      "represents viewT v0 w s' (h @ published viewT i a s)
        (r\<lparr>written := written r @ [viewT (th_data (threads s i))]\<rparr>)"
      by (simp add: represents_def published_def)
    moreover have "reg_step w r (r\<lparr>written := written r @ [viewT (th_data (threads s i))]\<rparr>)"
      by (rule reg_step.append)
    ultimately show ?thesis by blast
  next
    case (l_copy u)
    with o have ne: "i \<noteq> w" by (auto simp: owner_inv_def)
    with l_copy lk have "th_pc (threads s w) \<noteq> G_Copy"
      using lock_inv_excl [of s i w] by auto
    with d have dd: "h \<noteq> []" "viewG (sh_data s) = last h" "v0 \<le> sint (sh_version s)"
      by (auto simp: data_inv_def Suc_le_eq)
    from l_copy ri [OF ne] have "th_version (threads s i) = sh_version s"
      by (auto simp: reader_inv_def)
    with l_copy ne dd assms(2) get_ok [OF ok(2,1)] have
      "represents viewT v0 w s' (h @ published viewT i a s)
        (r\<lparr>observed := (observed r)(i \<mapsto> last (written r))\<rparr>)"
      by (auto simp: represents_def published_def)
    moreover have "reg_step w r (r\<lparr>observed := (observed r)(i \<mapsto> last (written r))\<rparr>)"
      using ne dd(1) assms(2) by (intro reg_step.observe) (auto simp: represents_def)
    ultimately show ?thesis by blast
  next
    case (g_other)
    with o ri have False by (cases "i = w") (auto simp: owner_inv_def reader_inv_def)
    then show ?thesis ..
  next
    case (g_incr v)
    with ri have "i = w" by (auto simp: reader_inv_def)
    with g_incr assms(2) have "represents viewT v0 w s' (h @ published viewT i a s) r"
      by (auto simp: represents_def published_def)
    then show ?thesis by blast
  qed (intro exI [of _ r]; use assms(2) in \<open>auto simp: represents_def published_def\<close>)+
qed

lemma reader_version_mono:
  assumes "sw_inv viewT viewG okT okG v0 w s h"
    "role okT okG w i a" "lazy_step put get (i, a) s = Some s'"
  shows "sint (th_version (threads s j)) \<le> sint (th_version (threads s' j))"
proof -
  have d: "data_inv viewG v0 w s h" and o: "owner_inv w s"
    and ri: "i \<noteq> w \<Longrightarrow> reader_inv viewT v0 (sh_version s) (threads s i) h"
    using assms(1) by (auto simp: sw_inv_def)
  show ?thesis using assms(3,2)
  proof (cases rule: lazy_stepE)
    case (l_read)
    with o have "i \<noteq> w" by (auto simp: owner_inv_def)
    with l_read d ri show ?thesis
      by (auto simp: reader_inv_def data_inv_def Suc_le_eq split: if_splits)
  next
    case (g_incr v)
    then show ?thesis by (auto dest: c_inc_sint)
  next
    case (g_other)
    with o ri have False by (cases "i = w") (auto simp: owner_inv_def reader_inv_def)
    then show ?thesis ..
  qed (use o in \<open>auto simp: owner_inv_def\<close>)
qed

end

subsection \<open>Properties of the program's use: one owner, the control record\<close>

text \<open>Runs of the threads of the program over \<open>w_ctrl\<close> with owner \<open>w\<close>, from state \<open>s0\<close>.\<close>

abbreviation ctrl_run ::
    "nat \<Rightarrow> (w_ctrl, w_ctrl) csys \<Rightarrow> (w_ctrl, w_ctrl) csys \<Rightarrow> (c_int \<times> string) list \<Rightarrow> bool" where
  "ctrl_run w s0 \<equiv> sw_run copy_local_to_shared copy_shared_to_local ctrl_view ctrl_view wf_ctrl wf_ctrl w s0"

abbreviation ctrl_start :: "nat \<Rightarrow> (w_ctrl, w_ctrl) csys \<Rightarrow> bool" where
  "ctrl_start \<equiv> sw_start wf_ctrl wf_ctrl"

text \<open>
  C33. Mutual exclusion: whatever the threads do, no two of them are between lock and unlock of
  the two functions, and the one that is holds the lock.
\<close>
theorem one_thread_in_critical_section:
  assumes "ctrl_run w s0 s h" "ctrl_start w s0" "in_cs (th_pc (threads s i))"
  shows "sh_lock s = Some i \<and> (\<forall>j. in_cs (th_pc (threads s j)) \<longrightarrow> j = i)"
proof -
  have "lock_inv s" using wctrl.sw_run_inv [OF assms(1,2)] by (simp add: sw_inv_def)
  with assms(3) show ?thesis using lock_inv_excl [of s i] by (auto simp: lock_inv_def)
qed

text \<open>
  C19. No torn and no invented data: in every interleaving with one owner, a reader that is not
  in the middle of its copy and has synchronised at least once holds command, size and data of
  one publication, namely the one its version number counts (the initial content is number 0),
  whatever a write in progress has done to the shared record.
\<close>
theorem reader_holds_one_publication:
  assumes "ctrl_run w s0 s h" "ctrl_start w s0" "i \<noteq> w" "th_pc (threads s i) \<noteq> L_Copy"
    and "sint (sh_version s0) \<le> sint (th_version (threads s i))"
  shows "\<exists>k < length h. sint (th_version (threads s i)) = sint (sh_version s0) + int k \<and>
     ctrl_view (th_data (threads s i)) = h ! k"
  using wctrl.sw_run_inv [OF assms(1,2)] assms(3-5)
  by (auto simp: sw_inv_def reader_inv_def split: if_splits)

text \<open>
  The version test outside the lock is safe: when a reader that has synchronised before
  finds its version equal to the global one, and so skips lock and copy, it already holds the
  last publication, and no write is in progress.
\<close>
lemma unlocked_test_is_safe:
  assumes "ctrl_run w s0 s h" "ctrl_start w s0" "i \<noteq> w" "th_pc (threads s i) = Idle"
    and "sint (sh_version s0) \<le> sint (th_version (threads s i))"
    and "th_version (threads s i) = sh_version s"
  shows "ctrl_view (th_data (threads s i)) = last h \<and> ctrl_view (sh_data s) = last h"
  using wctrl.sw_test_safe [OF wctrl.sw_run_inv [OF assms(1,2)] assms(3,5,4,6)] by simp

text \<open>
  C6. Refinement: the interleaved functions implement a register with one writer. Every step
  either leaves the register as it is or is one of its steps (a value appended by the owner, or
  one reader observing the last value), and the relation between the two is kept.
\<close>
theorem implements_register:
  assumes "ctrl_run w s0 s h" "ctrl_start w s0"
    and "represents ctrl_view (sint (sh_version s0)) w s h r"
    and "role wf_ctrl wf_ctrl w i a"
    and "lazy_step copy_local_to_shared copy_shared_to_local (i, a) s = Some s'"
  shows "\<exists>r'. (r' = r \<or> reg_step w r r') \<and>
     represents ctrl_view (sint (sh_version s0)) w s' (h @ published ctrl_view i a s) r'"
  by (rule wctrl.simulation_step [OF wctrl.sw_run_inv [OF assms(1,2)] assms(3-5)])

text \<open>
  No step takes any thread back to an earlier version.
\<close>
lemma versions_never_decrease:
  assumes "ctrl_run w s0 s h" "ctrl_start w s0" "role wf_ctrl wf_ctrl w i a"
    and "lazy_step copy_local_to_shared copy_shared_to_local (i, a) s = Some s'"
  shows "sint (th_version (threads s j)) \<le> sint (th_version (threads s' j))"
  by (rule wctrl.reader_version_mono [OF wctrl.sw_run_inv [OF assms(1,2)] assms(3,4)])

end
