(* ===== verification/Fine_System.thy ===== *)
theory Fine_System
  imports Cell_Frame Conc_Interleaving
begin

text \<open>
  The program with every access to the shared cell run statement by statement, as in
  \<open>Conc_Steps\<close>, while the other threads go on: taking the lock, counting up the version, copying
  (with the record in any state meanwhile) and releasing the lock are steps of their own, and the
  version is tested without the lock. It is shown that this makes no difference:
  every such run is a run of \<open>Wineing_System\<close> with the same responses, the same messages to the
  outside and the same log (\<open>Fine_Simulation\<close>, \<open>Fine_Agreement\<close>).
\<close>

subsection \<open>The four users of the cell\<close>

text \<open>
  Each of them has a version and a record of its own: the request thread, which publishes, and
  three readers, of which the callback runs in the market thread.
\<close>

datatype user = U_In | U_Out | U_Market | U_Callback

fun user_id :: "user \<Rightarrow> nat" where
  "user_id U_In = 0"
| "user_id U_Out = 1"
| "user_id U_Market = 2"
| "user_id U_Callback = 3"

fun version_of :: "user \<Rightarrow> 'w sys \<Rightarrow> c_int" where
  "version_of U_In s = in_version (in_vars s)"
| "version_of U_Out s = out_version (out_vars s)"
| "version_of U_Market s = mk_version (mk_vars s)"
| "version_of U_Callback s = cb_version (mk_nx (mk_vars s))"

fun data_of :: "user \<Rightarrow> 'w sys \<Rightarrow> w_ctrl" where
  "data_of U_In s = in_data (in_vars s)"
| "data_of U_Out s = out_data (out_vars s)"
| "data_of U_Market s = mk_data (mk_vars s)"
| "data_of U_Callback s = cb_data (mk_nx (mk_vars s))"

fun set_user :: "user \<Rightarrow> c_int \<Rightarrow> w_ctrl \<Rightarrow> 'w sys \<Rightarrow> 'w sys" where
  "set_user U_In v t s = s\<lparr>in_vars := (in_vars s)\<lparr>in_version := v, in_data := t\<rparr>\<rparr>"
| "set_user U_Out v t s = s\<lparr>out_vars := (out_vars s)\<lparr>out_version := v, out_data := t\<rparr>\<rparr>"
| "set_user U_Market v t s = s\<lparr>mk_vars := (mk_vars s)\<lparr>mk_version := v, mk_data := t\<rparr>\<rparr>"
| "set_user U_Callback v t s = s\<lparr>mk_vars := (mk_vars s)\<lparr>mk_nx :=
     (mk_nx (mk_vars s))\<lparr>cb_version := v, cb_data := t\<rparr>\<rparr>\<rparr>"

text \<open>Where a user accesses the cell, and where its thread is when the access has returned.\<close>

fun at_access :: "user \<Rightarrow> 'w sys \<Rightarrow> bool" where
  "at_access U_In s = in_access (in_at s)"
| "at_access U_Out s = out_access (out_at s)"
| "at_access U_Market s = mk_access (mk_at s)"
| "at_access U_Callback s = (case mk_at s of M_Nx _ _ _ \<Rightarrow> True | _ \<Rightarrow> False)"

fun advance :: "user \<Rightarrow> NxMessageType \<Rightarrow> 'w sys \<Rightarrow> 'w sys" where
  "advance U_In mt s = (case in_at s of
     In_Publish c o' r b \<Rightarrow> s\<lparr>in_at := if b then In_Signal c o' r else In_Reply c o' r\<rparr> | _ \<Rightarrow> s)"
| "advance U_Out mt s = (case out_at s of O_Loop c m \<Rightarrow> s\<lparr>out_at := O_Test c m\<rparr> | _ \<Rightarrow> s)"
| "advance U_Market mt s = (case mk_at s of M_Loop c o' \<Rightarrow> s\<lparr>mk_at := M_Test c o'\<rparr> | _ \<Rightarrow> s)"
| "advance U_Callback mt s = (case mk_at s of
     M_Nx c o' b \<Rightarrow> s\<lparr>mk_at := M_Callback c o' b mt\<rparr> | _ \<Rightarrow> s)"

text \<open>The steps of \<open>Wineing_System\<close> that are an access.\<close>

fun accesses :: "Wineing_System.action \<Rightarrow> 'w sys \<Rightarrow> bool" where
  "accesses Act_In s = at_access U_In s"
| "accesses Act_Out s = at_access U_Out s"
| "accesses Act_Market s = at_access U_Market s"
| "accesses (Act_Callback mt) s = True"
| "accesses _ s = False"

fun access_action :: "user \<Rightarrow> NxMessageType \<Rightarrow> Wineing_System.action" where
  "access_action U_In mt = Act_In"
| "access_action U_Out mt = Act_Out"
| "access_action U_Market mt = Act_Market"
| "access_action U_Callback mt = Act_Callback mt"

subsection \<open>States and steps\<close>

text \<open>
  A state of the program, with the point each user has reached inside its access (\<open>Idle\<close>: it is
  not inside) and the holder of the lock.
\<close>

record 'w fsys =
  f_sys :: "'w sys"
  f_pc :: "user \<Rightarrow> pc"
  f_lock :: "nat option"

definition fine_start :: "'w sys \<Rightarrow> 'w fsys" where
  "fine_start s = \<lparr>f_sys = s, f_pc = (\<lambda>_. Idle), f_lock = None\<rparr>"

abbreviation f_sh :: "'w fsys \<Rightarrow> 'w shared" where "f_sh f \<equiv> sys_sh (f_sys f)"

definition thr_of :: "'w fsys \<Rightarrow> user \<Rightarrow> w_ctrl thr" where
  "thr_of f x = \<lparr>th_pc = f_pc f x, th_version = version_of x (f_sys f), th_data = data_of x (f_sys f)\<rparr>"

definition nobody :: "w_ctrl thr" where
  "nobody = \<lparr>th_pc = Idle, th_version = DEFAULTS_SHARED_VERSION_READ_INIT,
     th_data = ctrl_init (replicate WINEING_CTRL_DEFAULT_DATA_SIZE NUL)\<rparr>"

text \<open>The cell and its users, as a state of \<open>Conc_Steps\<close>.\<close>

definition cell_of :: "'w fsys \<Rightarrow> (w_ctrl, w_ctrl) csys" where
  "cell_of f = \<lparr>sh_version = g_version (conc (f_sh f)), sh_lock = f_lock f, sh_data = g_data (f_sh f),
     threads = (\<lambda>i. if i = 0 then thr_of f U_In else if i = 1 then thr_of f U_Out
       else if i = 2 then thr_of f U_Market else if i = 3 then thr_of f U_Callback else nobody)\<rparr>"

definition with_cell :: "user \<Rightarrow> (w_ctrl, w_ctrl) csys \<Rightarrow> 'w fsys \<Rightarrow> 'w fsys" where
  "with_cell x c f =
     (let t = threads c (user_id x);
          s = set_user x (th_version t) (th_data t) (f_sys f)
      in \<lparr>f_sys = s\<lparr>sys_sh := put_cell ((conc (sys_sh s))\<lparr>g_version := sh_version c\<rparr>) (sh_data c) (sys_sh s)\<rparr>,
          f_pc = (f_pc f)(x := th_pc t), f_lock = sh_lock c\<rparr>)"

text \<open>
  The actions of \<open>Conc_Steps\<close> a user may take: the request thread calls the global update, the
  others the local one, and nobody's record changes from outside during an access.
\<close>

fun permitted :: "user \<Rightarrow> (w_ctrl, w_ctrl) Conc_Steps.action \<Rightarrow> bool" where
  "permitted x (Set_Local d) = False"
| "permitted x Call_Global = (x = U_In)"
| "permitted x Call_Local = (x \<noteq> U_In)"
| "permitted x (Tear g) = wf_ctrl g"
| "permitted x Run = True"

abbreviation cell_step where
  "cell_step x a f \<equiv> lazy_step copy_local_to_shared copy_shared_to_local (user_id x, a) (cell_of f)"

inductive fine_step :: "'w env \<Rightarrow> w_conf \<Rightarrow> ('w \<Rightarrow> 'w \<Rightarrow> bool) \<Rightarrow> 'w fsys \<Rightarrow> Response list \<Rightarrow> 'w fsys \<Rightarrow> bool"
  for e conf R where
  fine_other: "sys_step e conf R (f_sys f) a s \<Longrightarrow> \<not> accesses a (f_sys f) \<Longrightarrow>
    (a = Act_Return \<longrightarrow> f_pc f U_Callback = Idle) \<Longrightarrow>
    fine_step e conf R f (replied a (f_sys f)) (f\<lparr>f_sys := s\<rparr>)"
| fine_access: "at_access x (f_sys f) \<Longrightarrow> permitted x a \<Longrightarrow> cell_step x a f = Some c \<Longrightarrow>
    f' = with_cell x c f \<Longrightarrow>
    fine_step e conf R f []
      (if f_pc f' x = Idle then f'\<lparr>f_sys := advance x mt (f_sys f')\<rparr> else f')"

inductive fine_run :: "'w env \<Rightarrow> w_conf \<Rightarrow> ('w \<Rightarrow> 'w \<Rightarrow> bool) \<Rightarrow> 'w fsys \<Rightarrow> Response list \<Rightarrow> 'w fsys \<Rightarrow> bool"
  for e conf R where
  fine_refl: "fine_run e conf R f [] f"
| fine_next: "fine_run e conf R f rs f' \<Longrightarrow> fine_step e conf R f' r f'' \<Longrightarrow>
    fine_run e conf R f (rs @ r) f''"

subsection \<open>The cell of a state\<close>

lemma threads_cell_of [simp]: "threads (cell_of f) (user_id x) = thr_of f x"
  by (cases x) (simp_all add: cell_of_def)

lemma cell_of_fields [simp]:
  "sh_version (cell_of f) = g_version (conc (f_sh f))" "sh_lock (cell_of f) = f_lock f"
  "sh_data (cell_of f) = g_data (f_sh f)"
  by (simp_all add: cell_of_def)

lemma thr_of_fields [simp]:
  "th_pc (thr_of f x) = f_pc f x" "th_version (thr_of f x) = version_of x (f_sys f)"
  "th_data (thr_of f x) = data_of x (f_sys f)"
  by (simp_all add: thr_of_def)

lemma user_id_inject [simp]: "user_id x = user_id y \<longleftrightarrow> x = y"
  by (cases x; cases y) simp_all

lemma set_user_same [simp]:
  "version_of x (set_user x v t s) = v" "data_of x (set_user x v t s) = t"
  by (cases x; simp)+

lemma set_user_other [simp]:
  "y \<noteq> x \<Longrightarrow> version_of y (set_user x v t s) = version_of y s"
  "y \<noteq> x \<Longrightarrow> data_of y (set_user x v t s) = data_of y s"
  by (cases x; cases y; simp)+

lemma set_user_rest [simp]:
  "in_at (set_user x v t s) = in_at s" "out_at (set_user x v t s) = out_at s"
  "mk_at (set_user x v t s) = mk_at s" "sys_sh (set_user x v t s) = sys_sh s"
  "g_mchan (mk_nx (mk_vars (set_user x v t s))) = g_mchan (mk_nx (mk_vars s))"
  "g_cchan_out (mk_nx (mk_vars (set_user x v t s))) = g_cchan_out (mk_nx (mk_vars s))"
  by (cases x; simp)+

lemma user_sys_sh [simp]:
  "version_of x (s\<lparr>sys_sh := sh\<rparr>) = version_of x s" "data_of x (s\<lparr>sys_sh := sh\<rparr>) = data_of x s"
  by (cases x; simp)+

lemma user_points [simp]:
  "version_of x (advance y mt s) = version_of x s" "data_of x (advance y mt s) = data_of x s"
  "sys_sh (advance y mt s) = sys_sh s"
  "mk_nx (mk_vars (advance y mt s)) = mk_nx (mk_vars s)"
  by (cases y; cases x; auto split: in_pc.split o_pc.split m_pc.split)+

lemma lazy_step_others:
  "lazy_step put get (i, a) c = Some c' \<Longrightarrow> j \<noteq> i \<Longrightarrow> threads c' j = threads c j"
  by (erule lazy_stepE) (auto simp: set_thr_def)

lemma cell_of_with_cell:
  assumes "cell_step x a f = Some c"
  shows "cell_of (with_cell x c f) = c"
proof -
  have other: "threads c j = threads (cell_of f) j" if "j \<noteq> user_id x" for j
    using lazy_step_others [OF assms that] .
  have "threads c (user_id y) = thr_of (with_cell x c f) y" for y
  proof (cases "y = x")
    case True
    then show ?thesis by (simp add: with_cell_def Let_def thr_of_def)
  next
    case False
    with other [of "user_id y"] show ?thesis by (simp add: with_cell_def Let_def thr_of_def)
  qed
  from this [of U_In] this [of U_Out] this [of U_Market] this [of U_Callback]
  have "threads (cell_of (with_cell x c f)) j = threads c j" for j
    using other [of j] by (cases x) (auto simp: cell_of_def)
  then show ?thesis
    by (intro csys.equality) (simp_all add: with_cell_def Let_def fun_eq_iff)
qed

lemmas user_simps = version_of.simps data_of.simps user_id.simps

declare user_simps [simp del]

end
