(* ===== verification/Fine_Simulation.thy ===== *)
theory Fine_Simulation
  imports Fine_System System_Faults
begin

text \<open>
  The larger steps of \<open>Wineing_System\<close> simulate the statements of \<open>Fine_System\<close>: the relation
  between the states of the two systems, and its preservation. A statement in the middle of an
  access is no step; the last one, with which the access returns, is the larger step; every other
  step of a thread is the same step.
\<close>

subsection \<open>The relation between the two systems\<close>

text \<open>
  \<open>p\<close> is the point a user has reached, \<open>v\<close> its version, \<open>t\<close> its record, \<open>gv\<close> and \<open>g\<close> the cell; the
  last arguments are the version, record and cell of the larger steps, where the access has not
  happened yet.
\<close>

definition owner_sim :: "pc \<Rightarrow> c_int \<Rightarrow> w_ctrl \<Rightarrow> c_int \<Rightarrow> w_ctrl \<Rightarrow> c_int \<Rightarrow> w_ctrl \<Rightarrow> bool" where
  "owner_sim p v t gv g mv mg \<longleftrightarrow>
     (if p = G_Copy then c_inc mv = Inr v \<and> gv = v
      else if p = G_Unlock then c_inc mv = Inr v \<and> gv = v \<and> ctrl_view g = ctrl_view t
      else p \<in> {Idle, G_Lock, G_Incr} \<and> v = mv \<and> gv = mv \<and> ctrl_view g = ctrl_view mg)"

definition reader_sim :: "pc \<Rightarrow> c_int \<Rightarrow> w_ctrl \<Rightarrow> c_int \<Rightarrow> w_ctrl \<Rightarrow> c_int \<Rightarrow> w_ctrl \<Rightarrow> bool" where
  "reader_sim p v t gv g mv mt \<longleftrightarrow>
     (if p = L_Copy then v = gv \<and> t = mt
      else if p = L_Unlock then v = gv \<and> copy_shared_to_local mt g = Inr t
      else p \<in> {Idle, L_Lock, L_Read} \<and> v = mv \<and> t = mt)"

text \<open>Everything but the cell and its users is the same.\<close>

definition same_rest :: "'w sys \<Rightarrow> 'w sys \<Rightarrow> bool" where
  "same_rest s m \<longleftrightarrow> in_at s = in_at m \<and> out_at s = out_at m \<and> mk_at s = mk_at m \<and>
     in_data (in_vars s) = in_data (in_vars m) \<and>
     g_mchan (mk_nx (mk_vars s)) = g_mchan (mk_nx (mk_vars m)) \<and>
     g_cchan_out (mk_nx (mk_vars s)) = g_cchan_out (mk_nx (mk_vars m)) \<and>
     sys_sh s = put_cell (conc (sys_sh s)) (g_data (sys_sh s)) (sys_sh m) \<and>
     g_lock (conc (sys_sh s)) = MFree"

definition users_sim :: "'w fsys \<Rightarrow> 'w sys \<Rightarrow> bool" where
  "users_sim f m \<longleftrightarrow>
     owner_sim (f_pc f U_In) (version_of U_In (f_sys f)) (data_of U_In m) (g_version (conc (f_sh f)))
       (g_data (f_sh f)) (version_of U_In m) (g_data (sys_sh m)) \<and>
     (\<forall>x. x \<noteq> U_In \<longrightarrow> reader_sim (f_pc f x) (version_of x (f_sys f)) (data_of x (f_sys f))
       (g_version (conc (f_sh f))) (g_data (f_sh f)) (version_of x m) (data_of x m))"

definition sim :: "'w fsys \<Rightarrow> 'w sys \<Rightarrow> bool" where
  "sim f m \<longleftrightarrow> sys_inv m \<and> lock_inv (cell_of f) \<and> wf_ctrl (g_data (f_sh f)) \<and>
     (\<forall>x. f_pc f x \<noteq> Idle \<longrightarrow> at_access x (f_sys f)) \<and> same_rest (f_sys f) m \<and> users_sim f m"

lemma simD:
  assumes "sim f m"
  shows "sys_inv m" "lock_inv (cell_of f)" "wf_ctrl (g_data (f_sh f))"
    "f_pc f x \<noteq> Idle \<Longrightarrow> at_access x (f_sys f)" "same_rest (f_sys f) m" "users_sim f m"
    "owner_sim (f_pc f U_In) (version_of U_In (f_sys f)) (data_of U_In m) (g_version (conc (f_sh f)))
       (g_data (f_sh f)) (version_of U_In m) (g_data (sys_sh m))"
    "x \<noteq> U_In \<Longrightarrow> reader_sim (f_pc f x) (version_of x (f_sys f)) (data_of x (f_sys f))
       (g_version (conc (f_sh f))) (g_data (f_sh f)) (version_of x m) (data_of x m)"
  using assms unfolding sim_def users_sim_def by blast+

text \<open>Two users are not both between lock and unlock.\<close>

lemma sim_excl:
  assumes "sim f m" "in_cs (f_pc f x)" "in_cs (f_pc f y)"
  shows "x = y"
  using lock_inv_excl [OF simD(2) [OF assms(1)], of "user_id x" "user_id y"] assms(2,3) by simp

lemma user_reader_ok: "sys_inv m \<Longrightarrow> x \<noteq> U_In \<Longrightarrow> reader_ok (version_of x m) (data_of x m) (sys_sh m)"
  by (cases x) (simp_all add: sys_inv_def Let_def user_simps)

lemma user_wf: "sys_inv m \<Longrightarrow> wf_ctrl (data_of x m)"
  by (cases x) (simp_all add: sys_inv_def Let_def reader_ok_def copy_ok_def owner_ok_def in_inv_def user_simps)

lemma owner_version: "sys_inv m \<Longrightarrow> version_of U_In m = g_version (conc (sys_sh m))"
  by (simp add: sys_inv_def Let_def owner_ok_def in_inv_def user_simps)

text \<open>A read is a copy, and a copy depends on the view only.\<close>

lemma read_is_copy:
  assumes "cell_ready sh" "reader_ok v t sh"
  shows "read_g_data v t sh = res_bind (copy_shared_to_local t (g_data sh)) (\<lambda>t'. Inr (g_version (conc sh), t', sh))"
proof (cases "v = g_version (conc sh)")
  case True
  with assms copy_shared_to_local_same [of t "g_data sh"] show ?thesis
    by (simp add: read_g_data_same reader_ok_def copy_ok_def cell_ready_def)
next
  case False
  with assms show ?thesis
    by (simp add: read_g_data_changed copy_shared_to_local_eq reader_ok_def copy_ok_def cell_ready_def)
qed

lemma copy_view:
  assumes "wf_ctrl t" "wf_ctrl g" "wf_ctrl g'" "ctrl_view g = ctrl_view g'"
  shows "copy_shared_to_local t g = copy_shared_to_local t g'"
proof -
  have "w_size g = w_size g'" "take (w_size g') (w_data g) = take (w_size g') (w_data g')"
    using ctrl_view_size [OF assms(2-4)] by metis+
  then show ?thesis
    unfolding copy_shared_to_local_eq [OF assms(1,2)] copy_shared_to_local_eq [OF assms(1,3)]
    by (simp add: ctrl_view_eqD [OF assms(4)])
qed

subsection \<open>The larger steps that are accesses\<close>

lemma at_access_same: "same_rest s m \<Longrightarrow> at_access x s = at_access x m"
  by (cases x) (simp_all add: same_rest_def)

lemma reader_step:
  assumes "at_access x m" "x \<noteq> U_In" "read_g_data (version_of x m) (data_of x m) (sys_sh m) = Inr (v, t, sys_sh m)"
  shows "sys_step e conf R m (access_action x mt) (advance x mt (set_user x v t m))"
proof (cases x)
  case U_In
  with assms(2) show ?thesis by simp
next
  case U_Out
  with assms(1) obtain c p where p: "out_at m = O_Loop c p" by (cases "out_at m") auto
  with U_Out assms(3) have "out_step e conf (out_at m) (out_vars m) (sys_sh m) =
      Inr (O_Test c p, (out_vars m)\<lparr>out_version := v, out_data := t\<rparr>, sys_sh m)"
    by (simp add: out_step_def out_read_def user_simps)
  moreover have "advance x mt (set_user x v t m) = m\<lparr>out_at := O_Test c p,
      out_vars := (out_vars m)\<lparr>out_version := v, out_data := t\<rparr>, sys_sh := sys_sh m\<rparr>"
    using U_Out p by simp
  ultimately show ?thesis using U_Out by (simp only: access_action.simps step_out)
next
  case U_Market
  with assms(1) obtain c p where p: "mk_at m = M_Loop c p" by (cases "mk_at m") auto
  with U_Market assms(3) have "market_step e conf (mk_at m) (mk_vars m) (sys_sh m) =
      Inr (M_Test c p, (mk_vars m)\<lparr>mk_version := v, mk_data := t\<rparr>, sys_sh m)"
    by (simp add: market_step_def market_read_def user_simps)
  moreover have "advance x mt (set_user x v t m) = m\<lparr>mk_at := M_Test c p,
      mk_vars := (mk_vars m)\<lparr>mk_version := v, mk_data := t\<rparr>, sys_sh := sys_sh m\<rparr>"
    using U_Market p by simp
  ultimately show ?thesis using U_Market by (simp only: access_action.simps step_market)
next
  case U_Callback
  with assms(1) obtain c p b where p: "mk_at m = M_Nx c p b" by (cases "mk_at m") auto
  from U_Callback assms(3) have "callback_read (mk_vars m) (sys_sh m) =
      Inr ((mk_vars m)\<lparr>mk_nx := (mk_nx (mk_vars m))\<lparr>cb_version := v, cb_data := t\<rparr>\<rparr>, sys_sh m)"
    by (simp add: callback_read_eq user_simps)
  moreover have "advance x mt (set_user x v t m) = m\<lparr>mk_at := M_Callback c p b mt, mk_vars := (mk_vars m)
      \<lparr>mk_nx := (mk_nx (mk_vars m))\<lparr>cb_version := v, cb_data := t\<rparr>\<rparr>, sys_sh := sys_sh m\<rparr>"
    using U_Callback p by simp
  ultimately show ?thesis using U_Callback p by (simp only: access_action.simps step_callback)
qed

lemma owner_step:
  assumes "at_access U_In m" "sys_inv m" "c_inc (version_of U_In m) = Inr v"
  shows "\<exists>m'. sys_step e conf R m Act_In (advance U_In mt m') \<and>
    m' = m\<lparr>in_vars := (in_vars m)\<lparr>in_version := v\<rparr>, sys_sh := sys_sh m'\<rparr> \<and>
    sys_sh m' = put_cell (conc (sys_sh m')) (g_data (sys_sh m')) (sys_sh m) \<and>
    g_version (conc (sys_sh m')) = v \<and> g_lock (conc (sys_sh m')) = MFree \<and>
    ctrl_view (g_data (sys_sh m')) = ctrl_view (data_of U_In m)"
proof -
  let ?g = "(g_data (sys_sh m))\<lparr>w_cmd := w_cmd (data_of U_In m), w_size := w_size (data_of U_In m),
     w_data := take (w_size (data_of U_In m)) (w_data (data_of U_In m)) @
       drop (w_size (data_of U_In m)) (w_data (g_data (sys_sh m)))\<rparr>"
  let ?k = "(conc (sys_sh m))\<lparr>g_version := v\<rparr>"
  from assms(1) obtain c o' r b where p: "in_at m = In_Publish c o' r b" by (cases "in_at m") auto
  have ready: "cell_ready (sys_sh m)" using sys_inv_cell [OF assms(2)] by (simp add: cell_good_def)
  have wf: "wf_ctrl (data_of U_In m)" using user_wf [OF assms(2)] .
  have own: "in_version (in_vars m) = g_version (conc (sys_sh m))" using owner_version [OF assms(2)] by (simp add: user_simps)
  with assms(3) have v: "g_version (conc (sys_sh m)) \<noteq> INT_MAX" "v = g_version (conc (sys_sh m)) + 1"
    by (auto simp: c_inc_def user_simps split: if_splits)
  have "update_g_data (in_version (in_vars m)) (in_data (in_vars m)) (sys_sh m) =
      Inr (v, put_cell ?k ?g (sys_sh m))"
    using update_g_data_owner [OF ready wf v(1)] own v(2) by (simp add: put_cell_def user_simps)
  then have "in_step e conf (in_at m) (in_vars m) (sys_sh m) =
      Inr (if b then In_Signal c o' r else In_Reply c o' r, (in_vars m)\<lparr>in_version := v\<rparr>, put_cell ?k ?g (sys_sh m))"
    by (simp add: in_step_def publish_data_def p)
  note st = step_in [where R = R and s = m, OF this]
  let ?m = "m\<lparr>in_vars := (in_vars m)\<lparr>in_version := v\<rparr>, sys_sh := put_cell ?k ?g (sys_sh m)\<rparr>"
  have "advance U_In mt ?m = m\<lparr>in_at := if b then In_Signal c o' r else In_Reply c o' r,
      in_vars := (in_vars m)\<lparr>in_version := v\<rparr>, sys_sh := put_cell ?k ?g (sys_sh m)\<rparr>"
    using p by simp
  with st have "sys_step e conf R m Act_In (advance U_In mt ?m)" by (simp only:)
  then show ?thesis
    using ready wf by (intro exI [of _ ?m]) (simp add: cell_ready_def ctrl_view_def wf_ctrl_def)
qed

subsection \<open>One statement of an access\<close>

text \<open>What every statement keeps.\<close>

lemma with_cell_fields [simp]:
  "f_pc (with_cell x c f) = (f_pc f)(x := th_pc (threads c (user_id x)))"
  "f_lock (with_cell x c f) = sh_lock c"
  "version_of x (f_sys (with_cell x c f)) = th_version (threads c (user_id x))"
  "data_of x (f_sys (with_cell x c f)) = th_data (threads c (user_id x))"
  "y \<noteq> x \<Longrightarrow> version_of y (f_sys (with_cell x c f)) = version_of y (f_sys f)"
  "y \<noteq> x \<Longrightarrow> data_of y (f_sys (with_cell x c f)) = data_of y (f_sys f)"
  "in_at (f_sys (with_cell x c f)) = in_at (f_sys f)"
  "out_at (f_sys (with_cell x c f)) = out_at (f_sys f)"
  "mk_at (f_sys (with_cell x c f)) = mk_at (f_sys f)"
  "g_version (conc (f_sh (with_cell x c f))) = sh_version c"
  "g_lock (conc (f_sh (with_cell x c f))) = g_lock (conc (f_sh f))"
  "g_data (f_sh (with_cell x c f)) = sh_data c"
  by (simp_all add: with_cell_def Let_def)

lemma with_cell_nx:
  "g_mchan (mk_nx (mk_vars (f_sys (with_cell x c f)))) = g_mchan (mk_nx (mk_vars (f_sys f)))"
  "g_cchan_out (mk_nx (mk_vars (f_sys (with_cell x c f)))) = g_cchan_out (mk_nx (mk_vars (f_sys f)))"
  by (simp_all add: with_cell_def Let_def)

lemma at_access_points:
  "in_at s = in_at s' \<Longrightarrow> out_at s = out_at s' \<Longrightarrow> mk_at s = mk_at s' \<Longrightarrow> at_access x s = at_access x s'"
  by (cases x) simp_all

lemma with_cell_rest:
  assumes "same_rest (f_sys f) m" "x = U_In \<longrightarrow> th_data (threads c (user_id x)) = data_of x (f_sys f)"
  shows "same_rest (f_sys (with_cell x c f)) m"
proof -
  have "in_data (in_vars (f_sys (with_cell x c f))) = in_data (in_vars (f_sys f))"
    using assms(2) by (cases x) (simp_all add: with_cell_def Let_def user_simps)
  moreover have "f_sh (with_cell x c f) = put_cell (conc (f_sh (with_cell x c f))) (g_data (f_sh (with_cell x c f))) (f_sh f)"
    by (simp add: with_cell_def Let_def)
  ultimately show ?thesis
    using assms(1) unfolding same_rest_def
    by (metis put_cell_update(4) with_cell_fields(7-9,11) with_cell_nx)
qed

text \<open>The points a user can be at.\<close>

lemma owner_points:
  "sim f m \<Longrightarrow> f_pc f U_In \<in> {Idle, G_Lock, G_Incr, G_Copy, G_Unlock}"
  using simD(7) [of f m] by (auto simp: owner_sim_def split: if_splits)

lemma reader_points:
  "sim f m \<Longrightarrow> x \<noteq> U_In \<Longrightarrow> f_pc f x \<in> {Idle, L_Lock, L_Read, L_Copy, L_Unlock}"
  using simD(8) [of f m x] by (auto simp: reader_sim_def split: if_splits)

lemma owner_data: "sim f m \<Longrightarrow> data_of U_In (f_sys f) = data_of U_In m"
  using simD(5) [of f m] by (simp add: same_rest_def user_simps)

lemma statement_keeps:
  assumes "sim f m" "permitted x a" "cell_step x a f = Some c"
  shows "wf_ctrl (sh_data c) \<and> (x = U_In \<longrightarrow> th_data (threads c (user_id x)) = data_of x (f_sys f))"
proof -
  note g = simD(3) [OF assms(1)]
  have own: "x = U_In" if "f_pc f x = G_Copy" using reader_points [OF assms(1), of x] that by auto
  have rd: "x \<noteq> U_In" if "f_pc f x = L_Copy" using owner_points [OF assms(1)] that by auto
  have wf: "wf_ctrl (data_of U_In (f_sys f))" using owner_data [OF assms(1)] user_wf [OF simD(1) [OF assms(1)]] by simp
  show ?thesis
    using assms(3)
  proof (cases rule: lazy_stepE)
    case (tear g')
    with assms(2) g show ?thesis by simp
  next
    case (g_copy g')
    with own have "x = U_In" by simp
    with g_copy wctrl.put_ok [OF wf g] show ?thesis by auto
  next
    case (l_copy d)
    with rd g show ?thesis by auto
  qed (use g assms(2) in \<open>auto simp: set_thr_def\<close>)
qed

lemma statement_rest:
  assumes "sim f m" "permitted x a" "cell_step x a f = Some c"
  shows "same_rest (f_sys (with_cell x c f)) m" "wf_ctrl (g_data (f_sh (with_cell x c f)))"
    "lock_inv (cell_of (with_cell x c f))"
  using with_cell_rest [OF simD(5) [OF assms(1)]] statement_keeps [OF assms]
    lock_inv_step [OF simD(2) [OF assms(1)] assms(3)] cell_of_with_cell [OF assms(3)]
  by simp_all

text \<open>A statement of the request thread that does not end its access.\<close>

lemma owner_statement:
  assumes "sim f m" "permitted U_In a" "cell_step U_In a f = Some c" "th_pc (threads c (user_id U_In)) \<noteq> Idle"
  shows "users_sim (with_cell U_In c f) m"
proof -
  note o' = simD(7) [OF assms(1)]
  have quiet: "f_pc f x \<noteq> L_Copy \<and> f_pc f x \<noteq> L_Unlock" if "x \<noteq> U_In" "in_cs (f_pc f U_In)" for x
    using sim_excl [OF assms(1), of U_In x] that by auto
  have readers: "reader_sim (f_pc f x) (version_of x (f_sys f)) (data_of x (f_sys f)) gv g (version_of x m) (data_of x m)"
    if "x \<noteq> U_In" "in_cs (f_pc f U_In) \<or> gv = g_version (conc (f_sh f)) \<and> g = g_data (f_sh f)" for x gv g
    using simD(8) [OF assms(1) that(1)] quiet [OF that(1)] that(2) by (auto simp: reader_sim_def)
  from assms(3) show ?thesis
  proof (cases rule: lazy_stepE)
    case call_owner
    with o' readers show ?thesis by (auto simp: users_sim_def owner_sim_def)
  next
    case g_lock
    with o' readers show ?thesis by (auto simp: users_sim_def owner_sim_def)
  next
    case (g_incr v)
    with o' readers show ?thesis by (auto simp: users_sim_def owner_sim_def)
  next
    case (tear g)
    with o' readers show ?thesis by (auto simp: users_sim_def owner_sim_def)
  next
    case (g_copy g)
    have "wf_ctrl (data_of U_In (f_sys f))"
      using owner_data [OF assms(1)] user_wf [OF simD(1) [OF assms(1)]] by simp
    from wctrl.put_ok [OF this simD(3) [OF assms(1)]] g_copy have "ctrl_view g = ctrl_view (data_of U_In m)"
      using owner_data [OF assms(1)] by auto
    with g_copy o' readers show ?thesis by (auto simp: users_sim_def owner_sim_def)
  qed (use assms(2,4) owner_points [OF assms(1)] o' in \<open>auto simp: owner_sim_def set_thr_def\<close>)
qed

text \<open>A statement of a reader that does not end its access.\<close>

lemma reader_statement:
  assumes "sim f m" "permitted x a" "cell_step x a f = Some c" "x \<noteq> U_In" "th_pc (threads c (user_id x)) \<noteq> Idle"
  shows "users_sim (with_cell x c f) m"
proof -
  note r = simD(8) [OF assms(1,4)]
  have others: "reader_sim (f_pc f y) (version_of y (f_sys f)) (data_of y (f_sys f)) (g_version (conc (f_sh f)))
      (g_data (f_sh f)) (version_of y m) (data_of y m)" if "y \<noteq> U_In" for y
    using simD(8) [OF assms(1) that] .
  note o' = simD(7) [OF assms(1)]
  have cell: "sh_version c = g_version (conc (f_sh f)) \<and> sh_data c = g_data (f_sh f)"
    using assms(3) reader_points [OF assms(1,4)] by (cases rule: lazy_stepE) auto
  have mine: "reader_sim (th_pc (threads c (user_id x))) (th_version (threads c (user_id x)))
      (th_data (threads c (user_id x))) (g_version (conc (f_sh f))) (g_data (f_sh f)) (version_of x m) (data_of x m)"
    using assms(3)
    by (cases rule: lazy_stepE)
      (use assms(2,4,5) r reader_points [OF assms(1,4)] in \<open>auto simp: reader_sim_def set_thr_def split: if_splits\<close>)
  show ?thesis
    unfolding users_sim_def
  proof (intro conjI allI impI)
    show "owner_sim (f_pc (with_cell x c f) U_In) (version_of U_In (f_sys (with_cell x c f))) (data_of U_In m)
        (g_version (conc (f_sh (with_cell x c f)))) (g_data (f_sh (with_cell x c f))) (version_of U_In m)
        (g_data (sys_sh m))"
      using o' assms(4) cell by simp
  next
    fix y assume "y \<noteq> U_In"
    with others [of y] mine cell show "reader_sim (f_pc (with_cell x c f) y) (version_of y (f_sys (with_cell x c f)))
        (data_of y (f_sys (with_cell x c f))) (g_version (conc (f_sh (with_cell x c f))))
        (g_data (f_sh (with_cell x c f))) (version_of y m) (data_of y m)"
      by (cases "y = x") simp_all
  qed
qed

subsection \<open>The end of an access is the larger step\<close>

lemma thr_of_advance [simp]: "thr_of (f\<lparr>f_sys := advance x mt (f_sys f)\<rparr>) y = thr_of f y"
  by (simp add: thr_of_def)

lemma cell_of_advance [simp]: "cell_of (f\<lparr>f_sys := advance x mt (f_sys f)\<rparr>) = cell_of f"
  by (simp add: cell_of_def cong: if_cong)

lemma access_others:
  "at_access x s \<Longrightarrow> at_access y s \<Longrightarrow> y \<noteq> x \<Longrightarrow> at_access y (advance x mt s)"
  by (cases x; cases y) (auto split: in_pc.splits o_pc.splits m_pc.splits)

lemma same_rest_advance:
  assumes "same_rest s m"
  shows "same_rest (advance x mt s) (advance x mt m)"
proof -
  have "in_at (advance x mt s) = in_at (advance x mt m)" "out_at (advance x mt s) = out_at (advance x mt m)"
    "mk_at (advance x mt s) = mk_at (advance x mt m)"
    using assms by (cases x; simp add: same_rest_def split: in_pc.split o_pc.split m_pc.split)+
  moreover have "in_data (in_vars (advance x mt s)) = in_data (in_vars s)"
    "in_data (in_vars (advance x mt m)) = in_data (in_vars m)"
    by (rule user_points(2) [of U_In, unfolded user_simps])+
  ultimately show ?thesis using assms by (simp add: same_rest_def)
qed

lemma sim_return:
  assumes "same_rest (f_sys f) m" "users_sim f m" "lock_inv (cell_of f)" "wf_ctrl (g_data (f_sh f))"
    and "\<forall>y. f_pc f y \<noteq> Idle \<longrightarrow> at_access y (f_sys f)" "f_pc f x = Idle" "at_access x (f_sys f)"
    and "sys_inv (advance x mt m)"
  shows "sim (f\<lparr>f_sys := advance x mt (f_sys f)\<rparr>) (advance x mt m)"
  unfolding sim_def
proof (intro conjI allI impI)
  fix y assume "f_pc (f\<lparr>f_sys := advance x mt (f_sys f)\<rparr>) y \<noteq> Idle"
  with assms(5,6) have "at_access y (f_sys f)" "y \<noteq> x" by auto
  with access_others [OF assms(7)] show "at_access y (f_sys (f\<lparr>f_sys := advance x mt (f_sys f)\<rparr>))" by simp
qed (use assms same_rest_advance [OF assms(1)] in \<open>simp_all add: users_sim_def\<close>)

lemma with_cell_access:
  assumes "sim f m"
  shows "f_pc (with_cell x c f) x = Idle \<Longrightarrow> \<forall>y. f_pc (with_cell x c f) y \<noteq> Idle \<longrightarrow> at_access y (f_sys (with_cell x c f))"
  using simD(4) [OF assms] at_access_points [of "f_sys (with_cell x c f)" "f_sys f"] by auto

text \<open>What a reader has when its access ends is what a read of the larger step gives.\<close>

lemma reader_result:
  assumes "sim f m" "permitted x a" "cell_step x a f = Some c" "x \<noteq> U_In" "th_pc (threads c (user_id x)) = Idle"
  shows "read_g_data (version_of x m) (data_of x m) (sys_sh m) =
      Inr (g_version (conc (sys_sh m)), th_data (threads c (user_id x)), sys_sh m) \<and>
    th_version (threads c (user_id x)) = g_version (conc (sys_sh m))"
proof -
  note inv = simD(1) [OF assms(1)] and r = simD(8) [OF assms(1,4)] and own = simD(7) [OF assms(1)]
  have ready: "cell_ready (sys_sh m)" using sys_inv_cell [OF inv] by (simp add: cell_good_def)
  note ok = user_reader_ok [OF inv assms(4)]
  let ?v = "g_version (conc (sys_sh m))" and ?t = "th_data (threads c (user_id x))"
  show ?thesis
    using assms(3)
  proof (cases rule: lazy_stepE)
    case call_same
    with r have v: "version_of x m = g_version (conc (f_sh f))" "?t = data_of x m"
        "th_version (threads c (user_id x)) = version_of x m"
      by (auto simp: reader_sim_def)
    have "g_version (conc (f_sh f)) = ?v"
    proof (rule ccontr)
      assume ne: "g_version (conc (f_sh f)) \<noteq> ?v"
      with own owner_version [OF inv] have "c_inc ?v = Inr (g_version (conc (f_sh f)))"
        by (auto simp: owner_sim_def split: if_splits)
      then have "sint (g_version (conc (f_sh f))) = sint ?v + 1" by (rule c_inc_sint)
      with ok v(1) show False by (simp add: reader_ok_def)
    qed
    with v show ?thesis by (simp add: read_g_data_same)
  next
    case l_unlock
    then have p: "f_pc f x = L_Unlock" by simp
    have "\<not> in_cs (f_pc f U_In)" using sim_excl [OF assms(1), of x U_In] p assms(4) by auto
    with own owner_points [OF assms(1)] have g: "g_version (conc (f_sh f)) = ?v"
        "ctrl_view (g_data (f_sh f)) = ctrl_view (g_data (sys_sh m))"
      using owner_version [OF inv] by (auto simp: owner_sim_def)
    from r p have t: "version_of x (f_sys f) = g_version (conc (f_sh f))"
        "copy_shared_to_local (data_of x m) (g_data (f_sh f)) = Inr (data_of x (f_sys f))"
      by (simp_all add: reader_sim_def)
    have "copy_shared_to_local (data_of x m) (g_data (sys_sh m)) = Inr (data_of x (f_sys f))"
      using copy_view [OF user_wf [OF inv] simD(3) [OF assms(1)] _ g(2)] t(2) ready
      by (simp add: cell_ready_def)
    with read_is_copy [OF ready ok] l_unlock t(1) g(1) show ?thesis by simp
  qed (use assms(2,4,5) reader_points [OF assms(1,4)] in \<open>auto simp: set_thr_def\<close>)
qed

lemma reader_returns:
  assumes "recv_codes e" "sim f m" "at_access x (f_sys f)" "permitted x a" "cell_step x a f = Some c" "x \<noteq> U_In"
    and "th_pc (threads c (user_id x)) = Idle"
  shows "\<exists>m'. sys_step e conf R m (access_action x mt) m' \<and>
    sim ((with_cell x c f)\<lparr>f_sys := advance x mt (f_sys (with_cell x c f))\<rparr>) m'"
proof -
  let ?f = "with_cell x c f"
  let ?m = "set_user x (g_version (conc (sys_sh m))) (th_data (threads c (user_id x))) m"
  note read = reader_result [OF assms(2,4-7)]
  have cell: "sh_version c = g_version (conc (f_sh f))" "sh_data c = g_data (f_sh f)"
    using assms(5) reader_points [OF assms(2,6)] by (cases rule: lazy_stepE; auto)+
  have step: "sys_step e conf R m (access_action x mt) (advance x mt ?m)"
    using reader_step [OF _ assms(6)] read at_access_same [OF simD(5) [OF assms(2)]] assms(3) by blast
  have rest: "same_rest (f_sys ?f) ?m"
    using statement_rest(1) [OF assms(2,4,5)] assms(6) by (cases x) (simp_all add: same_rest_def)
  have users: "users_sim ?f ?m"
    unfolding users_sim_def
  proof (intro conjI allI impI)
    show "owner_sim (f_pc ?f U_In) (version_of U_In (f_sys ?f)) (data_of U_In ?m) (g_version (conc (f_sh ?f)))
        (g_data (f_sh ?f)) (version_of U_In ?m) (g_data (sys_sh ?m))"
      using simD(7) [OF assms(2)] assms(6) cell by simp
  next
    fix y assume "y \<noteq> U_In"
    with simD(8) [OF assms(2), of y] read cell assms(7) show "reader_sim (f_pc ?f y) (version_of y (f_sys ?f))
        (data_of y (f_sys ?f)) (g_version (conc (f_sh ?f))) (g_data (f_sh ?f)) (version_of y ?m) (data_of y ?m)"
      by (cases "y = x") (simp_all add: reader_sim_def)
  qed
  have "at_access x (f_sys ?f)" using assms(3) at_access_points [of "f_sys ?f" "f_sys f"] by simp
  from sim_return [OF rest users statement_rest(3,2) [OF assms(2,4,5)] with_cell_access [OF assms(2)] _ this]
    assms(7) sys_inv_step [OF assms(1) simD(1) [OF assms(2)] step] step show ?thesis by auto
qed

lemma owner_returns:
  assumes "recv_codes e" "sim f m" "at_access U_In (f_sys f)" "permitted U_In a" "cell_step U_In a f = Some c"
    and "th_pc (threads c (user_id U_In)) = Idle"
  shows "\<exists>m'. sys_step e conf R m Act_In m' \<and>
    sim ((with_cell U_In c f)\<lparr>f_sys := advance U_In mt (f_sys (with_cell U_In c f))\<rparr>) m'"
proof -
  let ?f = "with_cell U_In c f"
  note inv = simD(1) [OF assms(2)] and own = simD(7) [OF assms(2)]
  from assms(5) have c: "f_pc f U_In = G_Unlock" "sh_version c = g_version (conc (f_sh f))"
      "sh_data c = g_data (f_sh f)" "th_version (threads c (user_id U_In)) = version_of U_In (f_sys f)"
    by (cases rule: lazy_stepE;
        use assms(4,6) own owner_points [OF assms(2)] in \<open>auto simp: owner_sim_def set_thr_def\<close>)+
  with own have v: "c_inc (version_of U_In m) = Inr (g_version (conc (f_sh f)))"
      "version_of U_In (f_sys f) = g_version (conc (f_sh f))" "ctrl_view (g_data (f_sh f)) = ctrl_view (data_of U_In m)"
    by (simp_all add: owner_sim_def)
  have "at_access U_In m" using at_access_same [OF simD(5) [OF assms(2)]] assms(3) by simp
  from owner_step [OF this inv v(1)] obtain m1 where m1: "sys_step e conf R m Act_In (advance U_In mt m1)"
      "m1 = m\<lparr>in_vars := (in_vars m)\<lparr>in_version := g_version (conc (f_sh f))\<rparr>, sys_sh := sys_sh m1\<rparr>"
      "sys_sh m1 = put_cell (conc (sys_sh m1)) (g_data (sys_sh m1)) (sys_sh m)"
      "ctrl_view (g_data (sys_sh m1)) = ctrl_view (data_of U_In m)"
    by blast
  have eqs: "in_at m1 = in_at m" "out_at m1 = out_at m" "mk_at m1 = mk_at m" "out_vars m1 = out_vars m"
      "mk_vars m1 = mk_vars m" "in_data (in_vars m1) = in_data (in_vars m)"
      "version_of U_In m1 = g_version (conc (f_sh f))"
    by (subst m1(2), simp add: user_simps)+
  have same: "version_of y m1 = version_of y m \<and> data_of y m1 = data_of y m" if "y \<noteq> U_In" for y
    using that eqs by (cases y) (simp_all add: user_simps)
  have rest: "same_rest (f_sys ?f) m1"
    using statement_rest(1) [OF assms(2,4,5)] eqs m1(3) unfolding same_rest_def
    by (metis put_cell_update(4))
  have users: "users_sim ?f m1"
    unfolding users_sim_def
  proof (intro conjI allI impI)
    show "owner_sim (f_pc ?f U_In) (version_of U_In (f_sys ?f)) (data_of U_In m1) (g_version (conc (f_sh ?f)))
        (g_data (f_sh ?f)) (version_of U_In m1) (g_data (sys_sh m1))"
      using assms(6) c v eqs(7) m1(4) by (simp add: owner_sim_def)
  next
    fix y assume "y \<noteq> U_In"
    with simD(8) [OF assms(2), of y] c same show "reader_sim (f_pc ?f y) (version_of y (f_sys ?f))
        (data_of y (f_sys ?f)) (g_version (conc (f_sh ?f))) (g_data (f_sh ?f)) (version_of y m1) (data_of y m1)"
      by simp
  qed
  have "at_access U_In (f_sys ?f)" using assms(3) by simp
  from sim_return [OF rest users statement_rest(3,2) [OF assms(2,4,5)] with_cell_access [OF assms(2)] _ this]
    assms(6) sys_inv_step [OF assms(1) inv m1(1)] m1(1) show ?thesis by auto
qed

lemma access_sim:
  assumes "recv_codes e" "sim f m" "at_access x (f_sys f)" "permitted x a" "cell_step x a f = Some c"
    and "f' = with_cell x c f"
  shows "\<exists>m'. (m' = m \<or> sys_step e conf R m (access_action x mt) m') \<and>
    sim (if f_pc f' x = Idle then f'\<lparr>f_sys := advance x mt (f_sys f')\<rparr> else f') m'"
proof (cases "th_pc (threads c (user_id x)) = Idle")
  case True
  have "\<exists>m'. sys_step e conf R m (access_action x mt) m' \<and>
    sim ((with_cell x c f)\<lparr>f_sys := advance x mt (f_sys (with_cell x c f))\<rparr>) m'"
  proof (cases "x = U_In")
    case own: True
    from owner_returns [OF assms(1-5)[unfolded own] True[unfolded own], of conf R mt] own show ?thesis by simp
  qed (rule reader_returns [OF assms(1-5) _ True])
  with True assms(6) show ?thesis by auto
next
  case False
  have "users_sim f' m"
    using owner_statement [OF assms(2)] reader_statement [OF assms(2,4,5) _ False] assms(4-6) False
    by (cases "x = U_In") auto
  moreover have "at_access y (f_sys f')" if "f_pc f' y \<noteq> Idle" for y
    using that assms(3,6) simD(4) [OF assms(2)] at_access_points [of "f_sys f'" "f_sys f" y]
    by (cases "y = x") simp_all
  ultimately have "sim f' m"
    using statement_rest [OF assms(2,4,5)] simD(1) [OF assms(2)] assms(6) by (simp add: sim_def)
  with False assms(6) show ?thesis by auto
qed

subsection \<open>Every other step is the same step\<close>

lemma lock_inv_cong:
  "lock_inv (cell_of f) \<Longrightarrow> lock_inv (cell_of (f\<lparr>f_sys := s\<rparr>))"
proof -
  have "th_pc (threads (cell_of (f\<lparr>f_sys := s\<rparr>)) i) = th_pc (threads (cell_of f) i)" for i
    by (simp add: cell_of_def)
  then show "lock_inv (cell_of f) \<Longrightarrow> lock_inv (cell_of (f\<lparr>f_sys := s\<rparr>))" by (simp add: lock_inv_def)
qed

lemma sim_other:
  assumes "sim f m" "sys_inv m'" "same_rest s m'"
    and "conc (sys_sh s) = conc (f_sh f)" "g_data (sys_sh s) = g_data (f_sh f)"
    and "conc (sys_sh m') = conc (sys_sh m)" "g_data (sys_sh m') = g_data (sys_sh m)"
    and inside: "\<And>x. f_pc f x \<noteq> Idle \<Longrightarrow> at_access x s \<and> version_of x s = version_of x (f_sys f) \<and>
          data_of x s = data_of x (f_sys f) \<and> version_of x m' = version_of x m \<and> data_of x m' = data_of x m"
    and idle: "\<And>x. f_pc f x = Idle \<Longrightarrow> version_of x s = version_of x m' \<and> data_of x s = data_of x m'"
  shows "sim (f\<lparr>f_sys := s\<rparr>) m'"
proof -
  note own = simD(7) [OF assms(1)]
  have "owner_sim (f_pc f U_In) (version_of U_In s) (data_of U_In m') (g_version (conc (sys_sh s)))
      (g_data (sys_sh s)) (version_of U_In m') (g_data (sys_sh m'))"
  proof (cases "f_pc f U_In = Idle")
    case True
    have "version_of U_In m = version_of U_In m'"
      using owner_version [OF simD(1) [OF assms(1)]] owner_version [OF assms(2)] assms(6) by simp
    with own idle [OF True] assms(4,5,7) True show ?thesis by (simp add: owner_sim_def)
  next
    case False
    with own inside [OF False] assms(4,5,7) show ?thesis by simp
  qed
  moreover have "reader_sim (f_pc f x) (version_of x s) (data_of x s) (g_version (conc (sys_sh s)))
      (g_data (sys_sh s)) (version_of x m') (data_of x m')" if "x \<noteq> U_In" for x
  proof (cases "f_pc f x = Idle")
    case True
    with idle show ?thesis by (simp add: reader_sim_def)
  next
    case False
    with simD(8) [OF assms(1) that] inside [OF False] assms(4,5) show ?thesis by simp
  qed
  ultimately have "users_sim (f\<lparr>f_sys := s\<rparr>) m'" by (simp add: users_sim_def)
  then show ?thesis
    using assms(2,3,5) simD(3) [OF assms(1)] lock_inv_cong [OF simD(2) [OF assms(1)]] inside
    by (simp add: sim_def)
qed

text \<open>Outside its accesses a user has the same variables in both systems.\<close>

lemma idle_user:
  assumes "sim f m" "f_pc f x = Idle"
  shows "version_of x (f_sys f) = version_of x m \<and> data_of x (f_sys f) = data_of x m"
proof (cases "x = U_In")
  case True
  with simD(7) [OF assms(1)] owner_data [OF assms(1)] assms(2) show ?thesis by (simp add: owner_sim_def)
next
  case False
  with simD(8) [OF assms(1) False] assms(2) show ?thesis by (simp add: reader_sim_def)
qed

lemma idle_vars:
  assumes "sim f m"
  shows "f_pc f U_In = Idle \<Longrightarrow> in_vars (f_sys f) = in_vars m"
    "f_pc f U_Out = Idle \<Longrightarrow> out_vars (f_sys f) = out_vars m"
    "f_pc f U_Market = Idle \<Longrightarrow> f_pc f U_Callback = Idle \<Longrightarrow> mk_vars (f_sys f) = mk_vars m"
proof -
  note idle = idle_user [OF assms] and rest = simD(5) [OF assms]
  show "in_vars (f_sys f) = in_vars m" if "f_pc f U_In = Idle"
    using idle [OF that] by (intro in_local.equality) (simp_all add: user_simps)
  show "out_vars (f_sys f) = out_vars m" if "f_pc f U_Out = Idle"
    using idle [OF that] by (intro out_local.equality) (simp_all add: user_simps)
  show "mk_vars (f_sys f) = mk_vars m" if "f_pc f U_Market = Idle" "f_pc f U_Callback = Idle"
    using idle [OF that(1)] idle [OF that(2)] rest
    by (intro mk_local.equality nxtape.equality) (simp_all add: user_simps same_rest_def)
qed

text \<open>A step of a thread whose users \<open>X\<close> are outside their accesses.\<close>

lemma sim_moved:
  assumes "sim f m" "sys_inv m'" "same_rest s m'"
    and "conc (sys_sh s) = conc (f_sh f)" "g_data (sys_sh s) = g_data (f_sh f)"
    and "conc (sys_sh m') = conc (sys_sh m)" "g_data (sys_sh m') = g_data (sys_sh m)"
    and moved: "\<And>x. x \<in> X \<Longrightarrow> f_pc f x = Idle \<and> version_of x s = version_of x m' \<and> data_of x s = data_of x m'"
    and stays: "\<And>x. x \<notin> X \<Longrightarrow> version_of x s = version_of x (f_sys f) \<and> data_of x s = data_of x (f_sys f) \<and>
          version_of x m' = version_of x m \<and> data_of x m' = data_of x m \<and> at_access x s = at_access x (f_sys f)"
  shows "sim (f\<lparr>f_sys := s\<rparr>) m'"
proof (rule sim_other [OF assms(1-7)])
  fix x assume "f_pc f x \<noteq> Idle"
  with moved [of x] stays [of x] simD(4) [OF assms(1)] show "at_access x s \<and>
      version_of x s = version_of x (f_sys f) \<and> data_of x s = data_of x (f_sys f) \<and>
      version_of x m' = version_of x m \<and> data_of x m' = data_of x m" by blast
next
  fix x assume "f_pc f x = Idle"
  with moved [of x] stays [of x] idle_user [OF assms(1)]
  show "version_of x s = version_of x m' \<and> data_of x s = data_of x m'" by metis
qed

lemma sim_sh:
  assumes "sim f m"
  shows "f_sh f = put_cell (conc (f_sh f)) (g_data (f_sh f)) (sys_sh m)"
  using simD(5) [OF assms] unfolding same_rest_def by blast

lemma callback_handle_other:
  assumes "callback_handle e mt l (put_cell k g sh) = Inr (ret, sh')"
  shows "\<exists>sh2. callback_handle e mt l sh = Inr (ret, sh2) \<and> sh' = put_cell k g sh2 \<and>
    conc sh2 = conc sh \<and> g_data sh2 = g_data sh"
proof -
  have "on_cell (put_cell k g) (callback_handle e mt l sh) = Inr (ret, sh')"
    using assms by (simp add: callback_handle_frame)
  then obtain sh2 where "callback_handle e mt l sh = Inr (ret, sh2)" "sh' = put_cell k g sh2"
    by (auto simp: on_cell_def res_simps)
  moreover from this(1) callback_handle_Inr io_onlyD have "conc sh2 = conc sh" "g_data sh2 = g_data sh" by blast+
  ultimately show ?thesis by blast
qed

lemma market_users_idle:
  assumes "sim f m" "\<not> at_access U_Market (f_sys f)" "\<not> at_access U_Callback (f_sys f)"
  shows "f_pc f U_Market = Idle" "f_pc f U_Callback = Idle"
  using simD(4) [OF assms(1)] assms(2,3) by blast+

lemma in_other_sim:
  assumes "recv_codes e" "sim f m" "\<not> at_access U_In (f_sys f)"
    and "in_step e conf (in_at (f_sys f)) (in_vars (f_sys f)) (f_sh f) = Inr (p, l, sh)"
  shows "\<exists>m'. sys_step e conf R m Act_In m' \<and>
    sim (f\<lparr>f_sys := (f_sys f)\<lparr>in_at := p, in_vars := l, sys_sh := sh\<rparr>\<rparr>) m'"
proof -
  note rest = simD(5) [OF assms(2)]
  have idle: "f_pc f U_In = Idle" using simD(4) [OF assms(2)] assms(3) by blast
  have "in_step e conf (in_at m) (in_vars m) (put_cell (conc (f_sh f)) (g_data (f_sh f)) (sys_sh m)) = Inr (p, l, sh)"
      "\<not> in_access (in_at m)"
    using assms(3,4) idle_vars(1) [OF assms(2) idle] sim_sh [OF assms(2)] rest by (simp_all add: same_rest_def)
  from in_step_other [OF this] obtain sh2 where sh2: "in_step e conf (in_at m) (in_vars m) (sys_sh m) = Inr (p, l, sh2)"
    "sh = put_cell (conc (f_sh f)) (g_data (f_sh f)) sh2" "conc sh2 = conc (sys_sh m)" "g_data sh2 = g_data (sys_sh m)"
    by blast
  let ?m = "m\<lparr>in_at := p, in_vars := l, sys_sh := sh2\<rparr>" and ?s = "(f_sys f)\<lparr>in_at := p, in_vars := l, sys_sh := sh\<rparr>"
  note st = step_in [where R = R and s = m, OF sh2(1)]
  have "sim (f\<lparr>f_sys := ?s\<rparr>) ?m"
  proof (rule sim_moved [OF assms(2) sys_inv_step [OF assms(1) simD(1) [OF assms(2)] st, THEN conjunct1],
        where X = "{U_In}"])
    show "same_rest ?s ?m" using rest sh2(2) by (simp add: same_rest_def)
    show "version_of x ?s = version_of x (f_sys f) \<and> data_of x ?s = data_of x (f_sys f) \<and>
      version_of x ?m = version_of x m \<and> data_of x ?m = data_of x m \<and> at_access x ?s = at_access x (f_sys f)"
      if "x \<notin> {U_In}" for x using that by (cases x) (simp_all add: user_simps)
  qed (use sh2 idle in \<open>simp_all add: user_simps\<close>)
  with st show ?thesis by blast
qed

lemma out_other_sim:
  assumes "recv_codes e" "sim f m" "\<not> at_access U_Out (f_sys f)"
    and "out_step e conf (out_at (f_sys f)) (out_vars (f_sys f)) (f_sh f) = Inr (p, l, sh)"
  shows "\<exists>m'. sys_step e conf R m Act_Out m' \<and>
    sim (f\<lparr>f_sys := (f_sys f)\<lparr>out_at := p, out_vars := l, sys_sh := sh\<rparr>\<rparr>) m'"
proof -
  note rest = simD(5) [OF assms(2)]
  have idle: "f_pc f U_Out = Idle" using simD(4) [OF assms(2)] assms(3) by blast
  have "out_step e conf (out_at m) (out_vars m) (put_cell (conc (f_sh f)) (g_data (f_sh f)) (sys_sh m)) = Inr (p, l, sh)"
      "\<not> out_access (out_at m)"
    using assms(3,4) idle_vars(2) [OF assms(2) idle] sim_sh [OF assms(2)] rest by (simp_all add: same_rest_def)
  from out_step_other [OF this] obtain sh2 where sh2: "out_step e conf (out_at m) (out_vars m) (sys_sh m) = Inr (p, l, sh2)"
    "sh = put_cell (conc (f_sh f)) (g_data (f_sh f)) sh2" "conc sh2 = conc (sys_sh m)" "g_data sh2 = g_data (sys_sh m)"
    by blast
  let ?m = "m\<lparr>out_at := p, out_vars := l, sys_sh := sh2\<rparr>" and ?s = "(f_sys f)\<lparr>out_at := p, out_vars := l, sys_sh := sh\<rparr>"
  note st = step_out [where R = R and s = m, OF sh2(1)]
  have "sim (f\<lparr>f_sys := ?s\<rparr>) ?m"
  proof (rule sim_moved [OF assms(2) sys_inv_step [OF assms(1) simD(1) [OF assms(2)] st, THEN conjunct1],
        where X = "{U_Out}"])
    show "same_rest ?s ?m" using rest sh2(2) by (simp add: same_rest_def)
    show "version_of x ?s = version_of x (f_sys f) \<and> data_of x ?s = data_of x (f_sys f) \<and>
      version_of x ?m = version_of x m \<and> data_of x ?m = data_of x m \<and> at_access x ?s = at_access x (f_sys f)"
      if "x \<notin> {U_Out}" for x using that by (cases x) (simp_all add: user_simps)
  qed (use sh2 idle in \<open>simp_all add: user_simps\<close>)
  with st show ?thesis by blast
qed

text \<open>A step of the market thread, inside NxCore or not.\<close>

lemma market_moved_sim:
  assumes "recv_codes e" "sim f m" "f_pc f U_Market = Idle" "f_pc f U_Callback = Idle"
    and "sys_step e conf R m a (m\<lparr>mk_at := p, mk_vars := l, sys_sh := sh2\<rparr>)"
    and "sh = put_cell (conc (f_sh f)) (g_data (f_sh f)) sh2" "conc sh2 = conc (sys_sh m)" "g_data sh2 = g_data (sys_sh m)"
  shows "sim (f\<lparr>f_sys := (f_sys f)\<lparr>mk_at := p, mk_vars := l, sys_sh := sh\<rparr>\<rparr>)
     (m\<lparr>mk_at := p, mk_vars := l, sys_sh := sh2\<rparr>)"
proof -
  note rest = simD(5) [OF assms(2)]
  let ?m = "m\<lparr>mk_at := p, mk_vars := l, sys_sh := sh2\<rparr>" and ?s = "(f_sys f)\<lparr>mk_at := p, mk_vars := l, sys_sh := sh\<rparr>"
  show ?thesis
  proof (rule sim_moved [OF assms(2) sys_inv_step [OF assms(1) simD(1) [OF assms(2)] assms(5), THEN conjunct1],
        where X = "{U_Market, U_Callback}"])
    show "same_rest ?s ?m" using rest assms(6) by (simp add: same_rest_def)
    show "version_of x ?s = version_of x (f_sys f) \<and> data_of x ?s = data_of x (f_sys f) \<and>
      version_of x ?m = version_of x m \<and> data_of x ?m = data_of x m \<and> at_access x ?s = at_access x (f_sys f)"
      if "x \<notin> {U_Market, U_Callback}" for x using that by (cases x) (simp_all add: user_simps)
    show "f_pc f x = Idle \<and> version_of x ?s = version_of x ?m \<and> data_of x ?s = data_of x ?m"
      if "x \<in> {U_Market, U_Callback}" for x using that assms(3,4) by (auto simp: user_simps)
  qed (use assms(6-8) in simp_all)
qed

text \<open>The steps of the market thread and of NxCore that are no access.\<close>

lemma market_other_sim:
  assumes "recv_codes e" "sim f m" "\<not> mk_access (mk_at (f_sys f))"
    and "market_step e conf (mk_at (f_sys f)) (mk_vars (f_sys f)) (f_sh f) = Inr (p, l, sh)"
  shows "\<exists>m'. sys_step e conf R m Act_Market m' \<and>
    sim (f\<lparr>f_sys := (f_sys f)\<lparr>mk_at := p, mk_vars := l, sys_sh := sh\<rparr>\<rparr>) m'"
proof -
  have at: "mk_at (f_sys f) = mk_at m" using simD(5) [OF assms(2)] by (simp add: same_rest_def)
  have "\<not> at_access U_Callback (f_sys f)"
    using assms(4) by (auto simp: market_step_def split: m_pc.splits)
  with assms(3) have idle: "f_pc f U_Market = Idle" "f_pc f U_Callback = Idle"
    using market_users_idle [OF assms(2)] by simp_all
  have "market_step e conf (mk_at m) (mk_vars m) (put_cell (conc (f_sh f)) (g_data (f_sh f)) (sys_sh m)) =
      Inr (p, l, sh)" "\<not> mk_access (mk_at m)"
    using assms(3,4) idle_vars(3) [OF assms(2) idle] sim_sh [OF assms(2)] at by simp_all
  from market_step_other [OF this] obtain sh2 where sh2:
    "market_step e conf (mk_at m) (mk_vars m) (sys_sh m) = Inr (p, l, sh2)"
    "sh = put_cell (conc (f_sh f)) (g_data (f_sh f)) sh2" "conc sh2 = conc (sys_sh m)" "g_data sh2 = g_data (sys_sh m)"
    by blast
  note st = sys_step.step_market [where R = R and s = m, OF sh2(1)]
  from market_moved_sim [OF assms(1,2) idle st sh2(2-4)] st show ?thesis by blast
qed

lemma answer_other_sim:
  assumes "recv_codes e" "sim f m" "mk_at (f_sys f) = M_Callback c o' b mt"
    and "callback_handle e mt (mk_vars (f_sys f)) (f_sh f) = Inr (ret, sh)"
  shows "\<exists>m'. sys_step e conf R m (Act_Answer ret) m' \<and>
    sim (f\<lparr>f_sys := (f_sys f)\<lparr>mk_at := M_Nx c o' b, sys_sh := sh\<rparr>\<rparr>) m'"
proof -
  have at: "mk_at (f_sys f) = mk_at m" using simD(5) [OF assms(2)] by (simp add: same_rest_def)
  from assms(3) have idle: "f_pc f U_Market = Idle" "f_pc f U_Callback = Idle"
    using simD(4) [OF assms(2), of U_Market] simD(4) [OF assms(2), of U_Callback] by auto
  have "callback_handle e mt (mk_vars m) (put_cell (conc (f_sh f)) (g_data (f_sh f)) (sys_sh m)) = Inr (ret, sh)"
    using assms(4) idle_vars(3) [OF assms(2) idle] sim_sh [OF assms(2)] by simp
  from callback_handle_other [OF this] obtain sh2 where sh2:
    "callback_handle e mt (mk_vars m) (sys_sh m) = Inr (ret, sh2)"
    "sh = put_cell (conc (f_sh f)) (g_data (f_sh f)) sh2" "conc sh2 = conc (sys_sh m)" "g_data sh2 = g_data (sys_sh m)"
    by blast
  note st = sys_step.step_answer [where conf = conf and R = R and s = m, OF assms(3)[unfolded at] sh2(1)]
  have "sys_step e conf R m (Act_Answer ret) (m\<lparr>mk_at := M_Nx c o' b, mk_vars := mk_vars m, sys_sh := sh2\<rparr>)"
    using st by simp
  moreover have "(f_sys f)\<lparr>mk_at := M_Nx c o' b, sys_sh := sh\<rparr> =
      (f_sys f)\<lparr>mk_at := M_Nx c o' b, mk_vars := mk_vars m, sys_sh := sh\<rparr>"
    using idle_vars(3) [OF assms(2) idle] by simp
  ultimately show ?thesis using market_moved_sim [OF assms(1,2) idle _ sh2(2-4)] by metis
qed

lemma return_other_sim:
  assumes "recv_codes e" "sim f m" "mk_at (f_sys f) = M_Nx c o' b" "f_pc f U_Callback = Idle"
  shows "\<exists>m'. sys_step e conf R m Act_Return m' \<and> sim (f\<lparr>f_sys := (f_sys f)\<lparr>mk_at := M_Loop c o'\<rparr>\<rparr>) m'"
proof -
  have at: "mk_at (f_sys f) = mk_at m" using simD(5) [OF assms(2)] by (simp add: same_rest_def)
  from assms(3,4) have idle: "f_pc f U_Market = Idle" "f_pc f U_Callback = Idle"
    using simD(4) [OF assms(2), of U_Market] by auto
  have "sys_step e conf R m Act_Return (m\<lparr>mk_at := M_Loop c o', mk_vars := mk_vars m, sys_sh := sys_sh m\<rparr>)"
    using sys_step.step_return [where s = m, OF assms(3)[unfolded at]] by simp
  moreover have "(f_sys f)\<lparr>mk_at := M_Loop c o'\<rparr> =
      (f_sys f)\<lparr>mk_at := M_Loop c o', mk_vars := mk_vars m, sys_sh := f_sh f\<rparr>"
    using idle_vars(3) [OF assms(2) idle] by simp
  ultimately show ?thesis using market_moved_sim [OF assms(1,2) idle _ sim_sh [OF assms(2)] refl refl] by metis
qed

lemma world_other_sim:
  assumes "recv_codes e" "sim f m" "R (world (sh_io (f_sh f))) w"
    and "s = (f_sys f)\<lparr>sys_sh := (f_sh f)\<lparr>sh_io := (sh_io (f_sh f))\<lparr>world := w\<rparr>\<rparr>\<rparr>"
  shows "\<exists>m'. sys_step e conf R m Act_World m' \<and> sim (f\<lparr>f_sys := s\<rparr>) m'"
proof -
  let ?m = "m\<lparr>sys_sh := (sys_sh m)\<lparr>sh_io := (sh_io (sys_sh m))\<lparr>world := w\<rparr>\<rparr>\<rparr>"
  obtain k g where sh: "f_sh f = put_cell k g (sys_sh m)" using sim_sh [OF assms(2)] by blast
  with assms(3) have st: "sys_step e conf R m Act_World ?m" by (intro sys_step.step_world) simp
  have "sim (f\<lparr>f_sys := s\<rparr>) ?m"
  proof (rule sim_moved [OF assms(2) sys_inv_step [OF assms(1) simD(1) [OF assms(2)] st, THEN conjunct1], where X = "{}"])
    have "sys_sh s = put_cell k g (sys_sh ?m)" using assms(4) sh by simp
    with simD(5) [OF assms(2)] sh assms(4) show "same_rest s ?m" by (simp add: same_rest_def)
  next
    show "version_of x s = version_of x (f_sys f) \<and> data_of x s = data_of x (f_sys f) \<and>
      version_of x ?m = version_of x m \<and> data_of x ?m = data_of x m \<and> at_access x s = at_access x (f_sys f)" for x
      using assms(4) by (cases x) (simp_all add: user_simps)
  qed (use assms(4) in simp_all)
  with st show ?thesis by blast
qed

lemma other_sim:
  assumes "recv_codes e" "sim f m" "sys_step e conf R (f_sys f) a s" "\<not> accesses a (f_sys f)"
    and "a = Act_Return \<longrightarrow> f_pc f U_Callback = Idle"
  shows "\<exists>m'. sys_step e conf R m a m' \<and> sim (f\<lparr>f_sys := s\<rparr>) m'"
  using assms(3)
proof cases
  case (step_in p l sh)
  with in_other_sim [OF assms(1,2) _ step_in(3)] assms(4) show ?thesis by simp
next
  case (step_out p l sh)
  with out_other_sim [OF assms(1,2) _ step_out(3)] assms(4) show ?thesis by simp
next
  case (step_market p l sh)
  with market_other_sim [OF assms(1,2) _ step_market(3)] assms(4) show ?thesis by simp
next
  case (step_callback c o' b l sh mt)
  with assms(4) show ?thesis by simp
next
  case (step_answer c o' b mt ret sh)
  with answer_other_sim [OF assms(1,2) step_answer(3,4)] show ?thesis by simp
next
  case (step_return c o' b)
  with return_other_sim [OF assms(1,2) step_return(3)] assms(5) show ?thesis by simp
next
  case (step_world w)
  with world_other_sim [OF assms(1,2), of R w s] show ?thesis by simp
qed

end
