(* ===== verification/Fine_Agreement.thy ===== *)
theory Fine_Agreement
  imports Fine_Simulation
begin

text \<open>
  The program run statement by statement and run in the larger steps: each run of the one is a
  run of the other.
\<close>

subsection \<open>Runs\<close>

lemma fine_step_sim:
  assumes "fine_step e conf R f rs f'" "sim f m" "recv_codes e"
  shows "\<exists>m'. sys_run e conf R m rs m' \<and> sim f' m'"
  using assms(1)
proof cases
  case (fine_other a s)
  from other_sim [OF assms(3,2) fine_other(3-5)] obtain m' where
    m': "sys_step e conf R m a m'" "sim (f\<lparr>f_sys := s\<rparr>) m'" by blast
  have "replied a (f_sys f) = replied a m"
    using simD(5) [OF assms(2)] by (simp add: replied_def same_rest_def)
  with run_step [OF run_refl m'(1)] m'(2) fine_other(1,2) show ?thesis by auto
next
  case (fine_access x a c f2 mt)
  have "replied (access_action x mt) m = []"
  proof (cases x)
    case U_In
    with fine_access(3) at_access_same [OF simD(5) [OF assms(2)]] have "in_access (in_at m)" by simp
    with U_In show ?thesis by (cases "in_at m") (simp_all add: replied_def)
  qed (simp_all add: replied_def)
  then have run: "sys_run e conf R m [] m'" if "m' = m \<or> sys_step e conf R m (access_action x mt) m'" for m'
    using that run_step [OF run_refl, of e conf R m "access_action x mt" m'] run_refl by auto
  from access_sim [OF assms(3,2) fine_access(3-6), of conf R mt] obtain m' where
    m': "m' = m \<or> sys_step e conf R m (access_action x mt) m'" "sim f' m'"
    using fine_access(2) by auto
  with run fine_access(1) show ?thesis by blast
qed

lemma fine_run_sim:
  assumes "fine_run e conf R f0 rs f" "sim f0 m0" "recv_codes e"
  shows "\<exists>m. sys_run e conf R m0 rs m \<and> sim f m"
  using assms(1,2)
proof (induction rule: fine_run.induct)
  case (fine_refl f)
  then show ?case using run_refl by blast
next
  case (fine_next f rs f' r f'')
  then obtain m where m: "sys_run e conf R m0 rs m" "sim f' m" by blast
  from fine_step_sim [OF fine_next.hyps(2) m(2) assms(3)] obtain m' where
    "sys_run e conf R m r m'" "sim f'' m'" by blast
  with sys_run_trans [OF this(1) m(1)] show ?case by blast
qed

lemma sim_start:
  assumes "sys_inv s"
  shows "sim (fine_start s) s"
proof -
  have "lock_inv (cell_of (fine_start s))"
    by (simp add: lock_inv_def cell_of_def fine_start_def thr_of_def nobody_def)
  moreover have "cell_ready (sys_sh s)" using sys_inv_cell [OF assms] by (simp add: cell_good_def)
  ultimately show ?thesis
    using owner_version [OF assms] assms
    by (simp add: sim_def same_rest_def users_sim_def owner_sim_def reader_sim_def fine_start_def cell_ready_def)
qed

text \<open>
  C7. The larger steps are enough: take any run of the program in which every access to the
  shared cell goes statement by statement, with the other threads running in between, the version
  tested without the lock, and the record in any well-formed state while it is being overwritten.
  Then there is a run of the larger steps with the same responses that has come to the same
  program points, the same messages received and sent, and the same log. A thread that is not
  inside an access has the same version and record in both, and when the request thread is not
  inside one, the published version, command and tape are the same.
\<close>
theorem statements_refine_steps:
  assumes "wineing_init e (shared_static b io) = Inr (Continue (), sh)"
    and "fine_run e conf R (fine_start (threads_start b sh)) rs f"
    and "buffers_ok b" "recv_codes e"
  shows "\<exists>s. program_state e conf R b io rs s \<and>
     in_at s = in_at (f_sys f) \<and> out_at s = out_at (f_sys f) \<and> mk_at s = mk_at (f_sys f) \<and>
     sh_io (sys_sh s) = sh_io (f_sh f) \<and>
     (\<forall>x. f_pc f x = Idle \<longrightarrow>
        version_of x s = version_of x (f_sys f) \<and> data_of x s = data_of x (f_sys f)) \<and>
     (f_pc f U_In = Idle \<longrightarrow> g_version (conc (sys_sh s)) = g_version (conc (f_sh f)) \<and>
        ctrl_view (g_data (sys_sh s)) = ctrl_view (g_data (f_sh f)))"
proof -
  from fine_run_sim [OF assms(2) sim_start [OF threads_start_inv [OF assms(3,1)]] assms(4)] obtain s where
    s: "sys_run e conf R (threads_start b sh) rs s" "sim f s" by blast
  have "sh_io (sys_sh s) = sh_io (f_sh f)" by (subst sim_sh [OF s(2)]) simp
  moreover have "g_version (conc (sys_sh s)) = g_version (conc (f_sh f)) \<and>
      ctrl_view (g_data (sys_sh s)) = ctrl_view (g_data (f_sh f))" if "f_pc f U_In = Idle"
    using simD(7) [OF s(2)] that owner_version [OF simD(1) [OF s(2)]] by (simp add: owner_sim_def)
  ultimately show ?thesis
    using program_state.intros [OF assms(1) s(1)] idle_user [OF s(2)] simD(5) [OF s(2)]
    by (intro exI [of _ s]) (simp add: same_rest_def)
qed

subsection \<open>Every larger step is a run of statements\<close>

lemma with_cell_again:
  "with_cell x c (with_cell x c' f) = with_cell x c f"
  by (cases x) (simp_all add: with_cell_def Let_def)

lemma fine_statement:
  assumes "at_access x (f_sys f)" "permitted x a" "cell_step x a f = Some c"
  shows "fine_step e conf R f [] (if th_pc (threads c (user_id x)) = Idle
     then (with_cell x c f)\<lparr>f_sys := advance x mt (f_sys (with_cell x c f))\<rparr> else with_cell x c f)"
  using fine_access [OF assms refl, of e conf R mt] by simp

lemma fine_run_trans:
  "fine_run e conf R f1 rs2 f2 \<Longrightarrow> fine_run e conf R f0 rs1 f1 \<Longrightarrow> fine_run e conf R f0 (rs1 @ rs2) f2"
  by (induction rule: fine_run.induct) (auto simp flip: append_assoc intro: fine_next)

lemma fine_run_one: "fine_step e conf R f rs f' \<Longrightarrow> fine_run e conf R f rs f'"
  using fine_next [OF fine_refl] by fastforce

lemma fine_statements:
  assumes "at_access x (f_sys f)" "permitted x a" "th_pc (threads c (user_id x)) = Idle"
    and "lazy_steps copy_local_to_shared copy_shared_to_local ((user_id x, a) # replicate n (user_id x, Run))
       (cell_of f) = Some c"
  shows "fine_run e conf R f [] ((with_cell x c f)\<lparr>f_sys := advance x mt (f_sys (with_cell x c f))\<rparr>)"
  using assms
proof (induction n arbitrary: f a)
  case 0
  then have "cell_step x a f = Some c" by (simp add: Option.bind_eq_Some_conv)
  from fine_run_one [OF fine_statement [OF 0(1,2) this, of e conf R mt]] 0(3) show ?case by simp
next
  case (Suc n)
  then obtain c1 where c1: "cell_step x a f = Some c1"
    "lazy_steps copy_local_to_shared copy_shared_to_local ((user_id x, Run) # replicate n (user_id x, Run)) c1 = Some c"
    by (auto simp: Option.bind_eq_Some_conv)
  then have "th_pc (threads c1 (user_id x)) \<noteq> Idle"
    by (auto simp: lazy_step_def Let_def Option.bind_eq_Some_conv)
  with fine_run_one [OF fine_statement [OF Suc.prems(1,2) c1(1), of e conf R mt]]
  have st: "fine_run e conf R f [] (with_cell x c1 f)" by simp
  have "at_access x (f_sys (with_cell x c1 f))"
    using Suc.prems(1) at_access_points [of "f_sys (with_cell x c1 f)" "f_sys f" x] by simp
  from Suc.IH [OF this _ Suc.prems(3), of Run] c1 have
    "fine_run e conf R (with_cell x c1 f) [] ((with_cell x c f)\<lparr>f_sys := advance x mt (f_sys (with_cell x c f))\<rparr>)"
    by (simp add: cell_of_with_cell [OF c1(1)] with_cell_again)
  from fine_run_trans [OF this st] show ?case by simp
qed

text \<open>Undisturbed, an access is the sequential operation.\<close>

lemma start_fields [simp]:
  "f_sys (fine_start s) = s" "f_pc (fine_start s) x = Idle" "f_lock (fine_start s) = None"
  "(fine_start s)\<lparr>f_sys := s'\<rparr> = fine_start s'"
  by (simp_all add: fine_start_def)

lemma unchanged_cell: "sh\<lparr>conc := k, g_data := g\<rparr> = sh \<Longrightarrow> k = conc sh \<and> g = g_data sh"
  by (cases sh) simp

lemma fine_read:
  assumes "at_access x m" "x \<noteq> U_In" "cell_ready (sys_sh m)"
    and "read_g_data (version_of x m) (data_of x m) (sys_sh m) = Inr (v, t, sys_sh m)"
  shows "fine_run e conf R (fine_start m) [] (fine_start (advance x mt (set_user x v t m)))"
proof -
  let ?f = "fine_start m"
  have k: "conc (sys_sh m) = \<lparr>g_version = sh_version (cell_of ?f), g_lock = MFree\<rparr>"
    using assms(3) by (simp add: cell_ready_def)
  have "lazy_update_local_if_changed copy_shared_to_local (th_version (threads (cell_of ?f) (user_id x)))
      (th_data (threads (cell_of ?f) (user_id x)))
      (\<lparr>g_version = sh_version (cell_of ?f), g_lock = MFree\<rparr>, sh_data (cell_of ?f)) =
      Inr (v, t, conc (sys_sh m), g_data (sys_sh m))"
    unfolding k [symmetric] using assms(4)
    by (auto simp: read_g_data_def res_simps dest: unchanged_cell)
  from alone_local [OF _ _ this, of copy_local_to_shared] have
    "lazy_steps copy_local_to_shared copy_shared_to_local ((user_id x, Call_Local) #
       replicate (if version_of x m = g_version (conc (sys_sh m)) then 0 else 4) (user_id x, Run))
       (cell_of ?f) = Some (set_thr (user_id x) ((thr_of ?f x)\<lparr>th_version := v, th_data := t\<rparr>) (cell_of ?f))"
    by (cases "version_of x m = g_version (conc (sys_sh m))") simp_all
  from fine_statements [OF _ _ _ this] assms(1,2) have
    "fine_run e conf R ?f [] ((with_cell x (set_thr (user_id x) ((thr_of ?f x)\<lparr>th_version := v, th_data := t\<rparr>) (cell_of ?f)) ?f)
       \<lparr>f_sys := advance x mt (f_sys (with_cell x (set_thr (user_id x) ((thr_of ?f x)\<lparr>th_version := v, th_data := t\<rparr>) (cell_of ?f)) ?f))\<rparr>)"
    by simp
  moreover have "with_cell x (set_thr (user_id x) ((thr_of ?f x)\<lparr>th_version := v, th_data := t\<rparr>) (cell_of ?f)) ?f =
      fine_start (set_user x v t m)"
    by (cases x) (simp_all add: with_cell_def Let_def fine_start_def fun_eq_iff)
  ultimately show ?thesis by simp
qed

lemma fine_publish:
  assumes "at_access U_In m" "sys_inv m" "sys_step e conf R m Act_In m'"
  shows "fine_run e conf R (fine_start m) [] (fine_start m')"
proof -
  let ?f = "fine_start m" and ?v = "g_version (conc (sys_sh m)) + 1" and ?t = "in_data (in_vars m)"
  let ?c = "set_thr (user_id U_In) ((thr_of ?f U_In)\<lparr>th_version := ?v\<rparr>)
    ((cell_of ?f)\<lparr>sh_version := ?v, sh_data := (g_data (sys_sh m))\<lparr>w_cmd := w_cmd ?t, w_size := w_size ?t,
       w_data := take (w_size ?t) (w_data ?t) @ drop (w_size ?t) (w_data (g_data (sys_sh m)))\<rparr>\<rparr>)"
  have ready: "cell_ready (sys_sh m)" using sys_inv_cell [OF assms(2)] by (simp add: cell_good_def)
  have wf: "wf_ctrl ?t" using user_wf [OF assms(2), of U_In] by (simp add: user_simps)
  have own: "in_version (in_vars m) = g_version (conc (sys_sh m))"
    using owner_version [OF assms(2)] by (simp add: user_simps)
  from assms(1) obtain c o' r b where p: "in_at m = In_Publish c o' r b" by (cases "in_at m") auto
  from assms(3) obtain l sh where st: "publish_data (in_vars m) (sys_sh m) = Inr (l, sh)"
      "m' = m\<lparr>in_at := if b then In_Signal c o' r else In_Reply c o' r, in_vars := l, sys_sh := sh\<rparr>"
    by (cases rule: sys_step_InE) (auto simp: p in_step_def res_simps)
  have ne: "g_version (conc (sys_sh m)) \<noteq> INT_MAX"
    using st(1) publish_cmd_overflow [of "in_vars m" "sys_sh m" "w_cmd ?t"] assms(2)
    by (auto simp: publish_data_cmd sys_inv_def Let_def owner_ok_def)
  have k: "conc (sys_sh m) = \<lparr>g_version = sh_version (cell_of ?f), g_lock = MFree\<rparr>"
    using ready by (simp add: cell_ready_def)
  note up = update_g_data_owner [OF ready wf ne]
  have "lazy_update_global_if_owner copy_local_to_shared (th_version (threads (cell_of ?f) (user_id U_In)))
      (th_data (threads (cell_of ?f) (user_id U_In)))
      (\<lparr>g_version = sh_version (cell_of ?f), g_lock = MFree\<rparr>, sh_data (cell_of ?f)) =
      Inr (?v, (conc (sys_sh m))\<lparr>g_version := ?v\<rparr>, sh_data ?c)"
    unfolding k [symmetric] using ready wf ne own
    by (simp add: update_global_owner [where fn = copy_local_to_shared, OF _ _ _ copy_local_to_shared_eq]
        cell_ready_def version_of.simps data_of.simps)
  from alone_global [OF _ _ this] own have
    "lazy_steps copy_local_to_shared copy_shared_to_local ((user_id U_In, Call_Global) # replicate 4 (user_id U_In, Run))
       (cell_of ?f) = Some ?c"
    by (simp add: version_of.simps)
  from fine_statements [OF _ _ _ this, of e conf R] assms(1) have
    "fine_run e conf R ?f [] ((with_cell U_In ?c ?f)\<lparr>f_sys := advance U_In NxMSG_STATUS (f_sys (with_cell U_In ?c ?f))\<rparr>)"
    by simp
  moreover have "(with_cell U_In ?c ?f)\<lparr>f_sys := advance U_In NxMSG_STATUS (f_sys (with_cell U_In ?c ?f))\<rparr> = fine_start m'"
  proof -
    have r: "l = (in_vars m)\<lparr>in_version := ?v\<rparr>" "sh = put_cell ((conc (sys_sh m))\<lparr>g_version := ?v\<rparr>) (sh_data ?c) (sys_sh m)"
      using st(1) up own by (auto simp: publish_data_def put_cell_def)
    have "f_sys (with_cell U_In ?c ?f) = m\<lparr>in_vars := l, sys_sh := sh\<rparr>"
      unfolding r by (simp add: with_cell_def Let_def data_of.simps)
    then have "advance U_In NxMSG_STATUS (f_sys (with_cell U_In ?c ?f)) = m'" using st(2) p by simp
    then show ?thesis by (intro fsys.equality) (auto simp: fine_start_def)
  qed
  ultimately show ?thesis by simp
qed

lemma larger_step_fine:
  assumes "sys_inv m" "sys_step e conf R m a m'"
  shows "fine_run e conf R (fine_start m) (replied a m) (fine_start m')"
proof (cases "accesses a m")
  case False
  with fine_run_one [OF fine_step.fine_other [where f = "fine_start m" and s = m']] assms(2)
  show ?thesis by simp
next
  case True
  have ready: "cell_ready (sys_sh m)" using sys_inv_cell [OF assms(1)] by (simp add: cell_good_def)
  have read: "fine_run e conf R (fine_start m) [] (fine_start (advance x mt (set_user x v t m)))"
    if "at_access x m" "x \<noteq> U_In" "read_g_data (version_of x m) (data_of x m) (sys_sh m) = Inr (v, t, sh)" for x v t mt sh
    using fine_read [OF that(1,2) ready] that(3)
      reader_ok_read [OF sys_inv_cell [OF assms(1)] user_reader_ok [OF assms(1) that(2)] that(3)] by simp
  have same: "sh = sys_sh m" if "x \<noteq> U_In" "read_g_data (version_of x m) (data_of x m) (sys_sh m) = Inr (v, t, sh)" for x v t sh
    using reader_ok_read [OF sys_inv_cell [OF assms(1)] user_reader_ok [OF assms(1) that(1)] that(2)] by simp
  from assms(2) show ?thesis
  proof cases
    case (step_in p l sh)
    with True have "replied a m = []" by (cases "in_at m") (simp_all add: replied_def)
    with fine_publish [OF _ assms(1)] step_in True assms(2) show ?thesis by simp
  next
    case (step_out p l sh)
    with True obtain c q where q: "out_at m = O_Loop c q" by (cases "out_at m") auto
    with step_out(3) obtain v t where r: "read_g_data (version_of U_Out m) (data_of U_Out m) (sys_sh m) = Inr (v, t, sh)"
        "p = O_Test c q" "l = (out_vars m)\<lparr>out_version := v, out_data := t\<rparr>"
      by (auto simp: out_step_def out_read_def res_simps user_simps)
    then have "m' = advance U_Out NxMSG_STATUS (set_user U_Out v t m)"
      using q step_out(2) same [OF _ r(1)] by simp
    with read [OF _ _ r(1), of NxMSG_STATUS] q step_out(1) show ?thesis by (simp add: replied_def)
  next
    case (step_market p l sh)
    with True obtain c q where q: "mk_at m = M_Loop c q" by (cases "mk_at m") auto
    with step_market(3) obtain v t where r: "read_g_data (version_of U_Market m) (data_of U_Market m) (sys_sh m) = Inr (v, t, sh)"
        "p = M_Test c q" "l = (mk_vars m)\<lparr>mk_version := v, mk_data := t\<rparr>"
      by (auto simp: market_step_def market_read_def res_simps user_simps)
    then have "m' = advance U_Market NxMSG_STATUS (set_user U_Market v t m)"
      using q step_market(2) same [OF _ r(1)] by simp
    with read [OF _ _ r(1), of NxMSG_STATUS] q step_market(1) show ?thesis by (simp add: replied_def)
  next
    case (step_callback c o' b l sh mt)
    then obtain v t where r: "read_g_data (version_of U_Callback m) (data_of U_Callback m) (sys_sh m) = Inr (v, t, sh)"
        "l = (mk_vars m)\<lparr>mk_nx := (mk_nx (mk_vars m))\<lparr>cb_version := v, cb_data := t\<rparr>\<rparr>"
      by (auto simp: callback_read_eq res_simps user_simps)
    then have "m' = advance U_Callback mt (set_user U_Callback v t m)"
      using step_callback(2,3) same [OF _ r(1)] by simp
    with read [OF _ _ r(1), of mt] step_callback(1,3) show ?thesis by (simp add: replied_def)
  qed (use True in simp_all)
qed

lemma larger_run_fine:
  assumes "sys_run e conf R m rs m'" "sys_inv m" "recv_codes e"
  shows "fine_run e conf R (fine_start m) rs (fine_start m')"
  using assms(1,2)
proof (induction rule: sys_run.induct)
  case (run_refl s)
  then show ?case by (simp add: fine_refl)
next
  case (run_step s rs s' a s'')
  have "sys_inv s'"
    by (rule sys_run_invariant [where P = sys_inv, OF run_step.hyps(1) run_step.prems])
      (use sys_inv_step [OF assms(3)] in blast)
  from fine_run_trans [OF larger_step_fine [OF this run_step.hyps(2)] run_step.IH [OF run_step.prems]]
  show ?case .
qed

text \<open>What is visible of a state: program points, the threads' variables, the published record, the log and the world.\<close>

definition visible where
  "visible s = (in_at s, out_at s, mk_at s, (in_vars s, out_vars s, mk_vars s),
     g_version (conc (sys_sh s)), ctrl_view (g_data (sys_sh s)), sh_io (sys_sh s))"

text \<open>
  C8. The two grains agree: what can be seen in a state of the larger steps, with the responses
  up to it, is exactly what can be seen in the states the program reaches statement by statement,
  at the moments when no thread is inside an access.
\<close>
theorem statements_and_steps_agree:
  assumes "wineing_init e (shared_static b io) = Inr (Continue (), sh)" "buffers_ok b" "recv_codes e"
  shows "(\<exists>f. fine_run e conf R (fine_start (threads_start b sh)) rs f \<and> (\<forall>x. f_pc f x = Idle) \<and>
       visible (f_sys f) = v) \<longleftrightarrow>
     (\<exists>s. program_state e conf R b io rs s \<and> visible s = v)"
proof
  assume "\<exists>f. fine_run e conf R (fine_start (threads_start b sh)) rs f \<and> (\<forall>x. f_pc f x = Idle) \<and> visible (f_sys f) = v"
  then obtain f where f: "fine_run e conf R (fine_start (threads_start b sh)) rs f" "\<forall>x. f_pc f x = Idle"
      "visible (f_sys f) = v" by blast
  from fine_run_sim [OF f(1) sim_start [OF threads_start_inv [OF assms(2,1)]] assms(3)] obtain s where
    s: "sys_run e conf R (threads_start b sh) rs s" "sim f s" by blast
  have "sh_io (f_sh f) = sh_io (sys_sh s)" by (subst sim_sh [OF s(2)]) simp
  then have "visible (f_sys f) = visible s"
    using f(2) simD(5,7) [OF s(2)] idle_vars [OF s(2)] owner_version [OF simD(1) [OF s(2)]]
    by (simp add: visible_def same_rest_def owner_sim_def)
  with f(3) program_state.intros [OF assms(1) s(1)] show "\<exists>s. program_state e conf R b io rs s \<and> visible s = v"
    by auto
next
  assume "\<exists>s. program_state e conf R b io rs s \<and> visible s = v"
  then obtain s sh' where s: "wineing_init e (shared_static b io) = Inr (Continue (), sh')"
      "sys_run e conf R (threads_start b sh') rs s" "visible s = v"
    by (auto elim: program_state.cases)
  with assms(1) larger_run_fine [OF s(2) threads_start_inv [OF assms(2) s(1)] assms(3)]
  have "fine_run e conf R (fine_start (threads_start b sh)) rs (fine_start s)" by simp
  with s(3) show "\<exists>f. fine_run e conf R (fine_start (threads_start b sh)) rs f \<and> (\<forall>x. f_pc f x = Idle) \<and> visible (f_sys f) = v"
    by (intro exI [of _ "fine_start s"]) simp
qed

end
