(* ===== verification/Fine_Runs.thy ===== *)
theory Fine_Runs
  imports Fine_Agreement System_Runs
begin

text \<open>
  A run of the program statement by statement in the concrete environment: the response thread
  reads the shared record while the request thread is publishing SHUTDOWN.
\<close>

subsection \<open>Executing a schedule of statements\<close>

datatype fine_sched = Other sched | Stmt user "(w_ctrl, w_ctrl) Conc_Steps.action"

fun fine_exec :: "'w env \<Rightarrow> w_conf \<Rightarrow> fine_sched \<Rightarrow> 'w fsys \<Rightarrow> (Response list \<times> 'w fsys) option" where
  "fine_exec e conf (Other y) f = (case sched_step e conf y (f_sys f) of None \<Rightarrow> None
     | Some (a, s) \<Rightarrow> if accesses a (f_sys f) \<or> f_pc f U_Callback \<noteq> Idle then None
         else Some (replied a (f_sys f), f\<lparr>f_sys := s\<rparr>))"
| "fine_exec e conf (Stmt x a) f = (if at_access x (f_sys f) \<and> permitted x a then
     (case cell_step x a f of None \<Rightarrow> None
      | Some c \<Rightarrow> let f' = with_cell x c f in
          Some ([], if f_pc f' x = Idle then f'\<lparr>f_sys := advance x NxMSG_STATUS (f_sys f')\<rparr> else f'))
     else None)"

fun fine_execs :: "'w env \<Rightarrow> w_conf \<Rightarrow> fine_sched list \<Rightarrow> 'w fsys \<Rightarrow> (Response list \<times> 'w fsys) option" where
  "fine_execs e conf [] f = Some ([], f)"
| "fine_execs e conf (y # ys) f = (case fine_exec e conf y f of None \<Rightarrow> None
     | Some (r, f') \<Rightarrow> (case fine_execs e conf ys f' of None \<Rightarrow> None
         | Some (rs, f'') \<Rightarrow> Some (r @ rs, f'')))"

lemma fine_exec_sound: "fine_exec e conf y f = Some (r, f') \<Longrightarrow> fine_step e conf R f r f'"
proof (cases y)
  case (Other z)
  assume "fine_exec e conf y f = Some (r, f')"
  with Other obtain a s where s: "sched_step e conf z (f_sys f) = Some (a, s)" "\<not> accesses a (f_sys f)"
      "f_pc f U_Callback = Idle" "r = replied a (f_sys f)" "f' = f\<lparr>f_sys := s\<rparr>"
    by (auto split: option.splits prod.splits if_splits)
  from fine_other [OF sched_step_sound [OF s(1)] s(2)] s(3-5) show ?thesis by simp
next
  case (Stmt x a)
  assume "fine_exec e conf y f = Some (r, f')"
  with Stmt obtain c where c: "at_access x (f_sys f)" "permitted x a" "cell_step x a f = Some c" "r = []"
      "f' = (if f_pc (with_cell x c f) x = Idle
         then (with_cell x c f)\<lparr>f_sys := advance x NxMSG_STATUS (f_sys (with_cell x c f))\<rparr> else with_cell x c f)"
    by (auto simp: Let_def split: option.splits if_splits)
  from fine_access [OF c(1-3) refl] c(4,5) show ?thesis by simp
qed

lemma fine_execs_sound: "fine_execs e conf ys f = Some (rs, f') \<Longrightarrow> fine_run e conf R f rs f'"
proof (induction ys arbitrary: f rs)
  case Nil
  then show ?case by (auto intro: fine_refl)
next
  case (Cons y ys)
  then obtain r f1 rs1 where st: "fine_exec e conf y f = Some (r, f1)"
      "fine_execs e conf ys f1 = Some (rs1, f')" "rs = r @ rs1"
    by (auto split: option.splits)
  from fine_run_trans [OF Cons.IH [OF st(2)] fine_run_one [OF fine_exec_sound [OF st(1)]]] st(3)
  show ?case by simp
qed

subsection \<open>A read in the middle of a publication\<close>

text \<open>The record while it is being overwritten: the new command with the size of nothing yet.\<close>

definition torn_ctrl :: w_ctrl where
  "torn_ctrl = \<lparr>w_cmd = WINEING_CTRL_CMD_SHUTDOWN, w_data = nul_buffer, w_size = 7\<rparr>"

definition torn_schedule :: "fine_sched list" where
  "torn_schedule = [Other Go_Out, Other Go_In, Other Go_In, Other Go_In, Other Go_In,
     Stmt U_In Call_Global, Stmt U_In Run, Stmt U_Out Call_Local, Stmt U_In Run, Stmt U_In (Tear torn_ctrl)]"

definition read_schedule :: "fine_sched list" where
  "read_schedule = [Stmt U_In Run, Stmt U_In Run, Stmt U_Out Run, Stmt U_Out Run, Stmt U_Out Run, Stmt U_Out Run]"

abbreviation demo_fine :: "fine_sched list \<Rightarrow> (Response list \<times> demo_world fsys) option" where
  "demo_fine ys \<equiv> fine_execs demo_quiet demo_conf ys (fine_start (threads_start demo_buffers (demo_boot [''x''])))"

lemmas fine_defs = run_defs user_simps fine_start_def cell_of_def thr_of_def with_cell_def put_cell_def
  lazy_step_def set_thr_def wf_ctrl_def

lemma torn_run:
  "\<exists>rs f. demo_fine torn_schedule = Some (rs, f) \<and> f_pc f U_In = G_Copy \<and> f_pc f U_Out = L_Lock \<and>
     f_pc f U_Market = Idle \<and> w_size (g_data (f_sh f)) = 7"
  by (simp add: torn_schedule_def torn_ctrl_def fine_defs WINEING_CTRL_DEFAULT_DATA_SIZE_def)

lemma read_run:
  "\<exists>rs f. demo_fine (torn_schedule @ read_schedule) = Some (rs, f) \<and>
     map (f_pc f) [U_In, U_Out, U_Market, U_Callback] = [Idle, Idle, Idle, Idle] \<and>
     out_version (out_vars (f_sys f)) = 1"
  by (simp add: torn_schedule_def read_schedule_def torn_ctrl_def fine_defs WINEING_CTRL_DEFAULT_DATA_SIZE_def)

theorem statements_refine_steps_witness:
  "\<exists>rs f s. fine_run demo_quiet demo_conf (\<lambda>_ _. False) (fine_start (threads_start demo_buffers (demo_boot [''x'']))) rs f \<and>
     f_pc f U_In = G_Copy \<and> w_size (g_data (f_sh f)) = 7 \<and>
     program_state demo_quiet demo_conf (\<lambda>_ _. False) demo_buffers (demo_io [''x'']) rs s \<and>
     in_at s = in_at (f_sys f) \<and> data_of U_Market s = data_of U_Market (f_sys f)"
proof -
  obtain rs f where r: "demo_fine torn_schedule = Some (rs, f)" "f_pc f U_In = G_Copy" "f_pc f U_Market = Idle"
      "w_size (g_data (f_sh f)) = 7"
    using torn_run by (elim exE conjE) (rule that)
  have run: "fine_run demo_quiet demo_conf (\<lambda>_ _. False) (fine_start (threads_start demo_buffers (demo_boot [''x'']))) rs f"
    by (rule fine_execs_sound [OF r(1)])
  have "\<exists>s. program_state demo_quiet demo_conf (\<lambda>_ _. False) demo_buffers (demo_io [''x'']) rs s \<and>
      in_at s = in_at (f_sys f) \<and> data_of U_Market s = data_of U_Market (f_sys f)"
    by (rule ex_forward [OF statements_refine_steps [OF demo_init run demo_buffers_ok demo_recv_codes]])
      (simp add: r(3))
  with run r(2,4) show ?thesis by (elim exE conjE) (intro exI conjI)
qed

theorem statements_and_steps_agree_witness:
  "\<exists>rs f s. fine_run demo_quiet demo_conf (\<lambda>_ _. False) (fine_start (threads_start demo_buffers (demo_boot [''x'']))) rs f \<and>
     program_state demo_quiet demo_conf (\<lambda>_ _. False) demo_buffers (demo_io [''x'']) rs s \<and>
     visible (f_sys f) = visible s \<and> out_version (out_vars s) = 1"
proof -
  obtain rs f where r: "demo_fine (torn_schedule @ read_schedule) = Some (rs, f)"
      "map (f_pc f) [U_In, U_Out, U_Market, U_Callback] = [Idle, Idle, Idle, Idle]" "out_version (out_vars (f_sys f)) = 1"
    using read_run by (elim exE conjE) (rule that)
  from r(2) have idle: "f_pc f x = Idle" for x by (cases x) simp_all
  have run: "fine_run demo_quiet demo_conf (\<lambda>_ _. False) (fine_start (threads_start demo_buffers (demo_boot [''x'']))) rs f"
    by (rule fine_execs_sound [OF r(1)])
  have "\<exists>s. program_state demo_quiet demo_conf (\<lambda>_ _. False) demo_buffers (demo_io [''x'']) rs s \<and> visible s = visible (f_sys f)"
    by (rule statements_and_steps_agree [OF demo_init demo_buffers_ok demo_recv_codes, THEN iffD1])
      (intro exI [of _ f] conjI allI run idle refl)
  then obtain s where s: "program_state demo_quiet demo_conf (\<lambda>_ _. False) demo_buffers (demo_io [''x'']) rs s"
      "visible s = visible (f_sys f)" by blast
  then have "out_version (out_vars s) = 1" using r(3) by (simp add: visible_def)
  with run s(1) s(2)[symmetric] show ?thesis by (intro exI conjI)
qed

end
