(* ===== verification/Buffer_Memory.thy ===== *)
theory Buffer_Memory
  imports System_Invariant Lifecycle
begin

text \<open>
  The message buffers of the threads as blocks of memory: \<open>cchan_in_thread\<close> allocates one for
  every response, \<open>cchan_out_thread\<close> one before every receive, and \<open>nxtape_process\<close> one for every
  status message. Their bytes are in the states of \<open>Wineing_System\<close>; here is which blocks are
  allocated, who has to free each, and every use and release of one, with use or release of
  memory that is not allocated as a fault. A block that was handed to ZeroMQ with \<open>_send_free\<close> may
  be freed by it at any time after.
\<close>

subsection \<open>Blocks and their owners\<close>

text \<open>
  A block belongs to the program until it is sent. It then belongs to ZeroMQ, if a free function
  was given and the send succeeded. Otherwise nobody will free it: without a free function
  ZeroMQ leaves the buffer alone, and after a failed send the message that refers to it is a local
  variable of \<open>chan_send\<close> that is never closed.
\<close>

datatype owner = Program | Zmq_Frees | Nobody

record memory =
  blocks :: "nat \<Rightarrow> owner option"
  next_block :: nat
  out_block :: "nat option"     \<comment> \<open>the variable \<open>buffer\<close> of \<open>cchan_out_thread\<close>\<close>

definition memory_start :: memory where
  "memory_start = \<lparr>blocks = (\<lambda>_. None), next_block = 0, out_block = None\<rparr>"

text \<open>
  \<open>new char[n]\<close>. A block is named by the number of its allocation: when an address is used again
  after a free, it is that of another block, and an access through an old pointer is a misuse.
\<close>

definition new_block :: "memory \<Rightarrow> nat \<times> memory" where
  "new_block m = (next_block m,
     m\<lparr>blocks := (blocks m)(next_block m \<mapsto> Program), next_block := Suc (next_block m)\<rparr>)"

text \<open>Reading or writing a block of the program's own.\<close>

definition use_block :: "nat \<Rightarrow> memory \<Rightarrow> memory res" where
  "use_block b m = (if blocks m b = Some Program then Inr m else Inl BadPointer)"

text \<open>\<open>_send_free\<close>: \<open>delete []\<close> of the buffer.\<close>

definition send_free :: "nat \<Rightarrow> memory \<Rightarrow> memory res" where
  "send_free b m = (case blocks m b of None \<Rightarrow> Inl BadPointer
     | Some _ \<Rightarrow> Inr (m\<lparr>blocks := (blocks m)(b := None)\<rparr>))"

text \<open>The part of \<open>chan_send\<close> that concerns the memory of its buffer.\<close>

definition send_block :: "bool \<Rightarrow> bool \<Rightarrow> nat \<Rightarrow> memory \<Rightarrow> memory res" where
  "send_block has_freeFn sent b m = res_bind (use_block b m) (\<lambda>m.
     Inr (m\<lparr>blocks := (blocks m)(b \<mapsto> if has_freeFn \<and> sent then Zmq_Frees else Nobody)\<rparr>))"

definition send_succeeds :: "'w env \<Rightarrow> chan \<Rightarrow> string \<Rightarrow> nat \<Rightarrow> bool \<Rightarrow> 'w io \<Rightarrow> bool" where
  "send_succeeds e c buffer n f io =
     (case chan_send e c buffer n f io of Inl _ \<Rightarrow> False | Inr (rc, _) \<Rightarrow> \<not> rc <s 0)"

subsection \<open>The memory side of each step\<close>

text \<open>\<open>buffer = new char[buf_size]\<close>, and the send to the inproc channel.\<close>

definition reply_sent :: "'w env \<Rightarrow> chan \<Rightarrow> Response \<Rightarrow> 'w sys \<Rightarrow> bool" where
  "reply_sent e o' r s = (let buffer = SerializeResponse e r in
     send_succeeds e o' buffer (length buffer) True (sh_io (sys_sh s)))"

definition in_memory :: "'w env \<Rightarrow> 'w sys \<Rightarrow> memory \<Rightarrow> memory res" where
  "in_memory e s m = (case in_at s of
       In_Reply c o' r \<Rightarrow> (let (b, m) = new_block m in send_block True (reply_sent e o' r s) b m)
     | _ \<Rightarrow> Inr m)"

text \<open>
  The response thread allocates after its test of the command, fills the block in
  \<open>_cchan_in_mem_copy\<close> and hands it to \<open>chan_send\<close>. After a failed receive it allocates again.
\<close>

definition buffer_var :: "memory \<Rightarrow> nat res" where
  "buffer_var m = (case out_block m of None \<Rightarrow> Inl UninitRead | Some b \<Rightarrow> Inr b)"

definition out_memory :: "'w env \<Rightarrow> 'w sys \<Rightarrow> memory \<Rightarrow> memory res" where
  "out_memory e s m = (case out_at s of
       O_Test c q \<Rightarrow>
         if WINEING_CTRL_CMD_SHUTDOWN = w_cmd (out_data (out_vars s)) then Inr m
         else let (b, m) = new_block m in Inr (m\<lparr>out_block := Some b\<rparr>)
     | O_Recv c q \<Rightarrow> res_bind (buffer_var m) (\<lambda>b. use_block b m)
     | O_Send c q buffer read \<Rightarrow> res_bind (buffer_var m) (\<lambda>b.
         send_block True (send_succeeds e c buffer (size_t_of_int read) True (sh_io (sys_sh s))) b m)
     | _ \<Rightarrow> Inr m)"

text \<open>The callback sends its buffer without a free function.\<close>

definition status_sent :: "'w env \<Rightarrow> 'w sys \<Rightarrow> bool" where
  "status_sent e s = (case g_mchan (mk_nx (mk_vars s)) of None \<Rightarrow> False
     | Some c \<Rightarrow> let buffer = SerializeMarketData e (MarketData_Clear\<lparr>md_type := Some STATUS\<rparr>) in
         send_succeeds e c buffer (length buffer) False (sh_io (sys_sh s)))"

definition answer_memory :: "'w env \<Rightarrow> 'w sys \<Rightarrow> memory \<Rightarrow> memory res" where
  "answer_memory e s m = (case mk_at s of
       M_Callback c o' b mt \<Rightarrow> (case mt of
           NxMSG_STATUS \<Rightarrow> (let (b, m) = new_block m in send_block False (status_sent e s) b m)
         | NxMSG_OTHER _ \<Rightarrow> Inr m)
     | _ \<Rightarrow> Inr m)"

definition memory_of :: "'w env \<Rightarrow> action \<Rightarrow> 'w sys \<Rightarrow> memory \<Rightarrow> memory res" where
  "memory_of e a s m = (case a of
       Act_In \<Rightarrow> in_memory e s m
     | Act_Out \<Rightarrow> out_memory e s m
     | Act_Answer _ \<Rightarrow> answer_memory e s m
     | _ \<Rightarrow> Inr m)"

subsection \<open>Runs\<close>

text \<open>What happens in a run: steps of the program, and blocks freed by ZeroMQ.\<close>

datatype 'w mem_event = Took action "'w sys" "'w sys" | Freed nat

inductive mem_step :: "'w env \<Rightarrow> w_conf \<Rightarrow> ('w \<Rightarrow> 'w \<Rightarrow> bool) \<Rightarrow>
    'w sys \<times> memory \<Rightarrow> 'w mem_event \<Rightarrow> 'w sys \<times> memory \<Rightarrow> bool"
  for e conf R where
  mem_took: "sys_step e conf R s a s' \<Longrightarrow> memory_of e a s m = Inr m' \<Longrightarrow>
    mem_step e conf R (s, m) (Took a s s') (s', m')"
| mem_freed: "blocks m b = Some Zmq_Frees \<Longrightarrow> send_free b m = Inr m' \<Longrightarrow>
    mem_step e conf R (s, m) (Freed b) (s, m')"

inductive mem_run :: "'w env \<Rightarrow> w_conf \<Rightarrow> ('w \<Rightarrow> 'w \<Rightarrow> bool) \<Rightarrow>
    'w sys \<Rightarrow> 'w mem_event list \<Rightarrow> 'w sys \<Rightarrow> memory \<Rightarrow> bool"
  for e conf R s0 where
  mem_refl: "mem_run e conf R s0 [] s0 memory_start"
| mem_next: "mem_run e conf R s0 tr s m \<Longrightarrow> mem_step e conf R (s, m) ev (s', m') \<Longrightarrow>
    mem_run e conf R s0 (tr @ [ev]) s' m'"

text \<open>The events that lose a block: a failed receive, a failed send, and a status message.\<close>

fun lost_receive :: "'w mem_event \<Rightarrow> bool" where
  "lost_receive (Took Act_Out s s') = (case (out_at s, out_at s') of (O_Recv _ _, O_Loop _ _) \<Rightarrow> True | _ \<Rightarrow> False)"
| "lost_receive _ = False"

fun lost_send :: "'w env \<Rightarrow> 'w mem_event \<Rightarrow> bool" where
  "lost_send e (Took Act_In s s') = (case in_at s of In_Reply c o' r \<Rightarrow> \<not> reply_sent e o' r s | _ \<Rightarrow> False)"
| "lost_send e (Took Act_Out s s') = (case out_at s of O_Send c q b n \<Rightarrow>
     \<not> send_succeeds e c b (size_t_of_int n) True (sh_io (sys_sh s)) | _ \<Rightarrow> False)"
| "lost_send e (Took (Act_Answer ret) s s') =
     (case mk_at s of M_Callback _ _ _ NxMSG_STATUS \<Rightarrow> True | _ \<Rightarrow> False)"
| "lost_send e _ = False"

definition freed :: "'w mem_event list \<Rightarrow> nat list" where
  "freed tr = concat (map (\<lambda>ev. case ev of Freed b \<Rightarrow> [b] | _ \<Rightarrow> []) tr)"

definition owned :: "owner \<Rightarrow> memory \<Rightarrow> nat set" where
  "owned x m = {b. blocks m b = Some x}"

text \<open>The response thread has a buffer in its hands.\<close>

definition holding :: "'w sys \<Rightarrow> bool" where
  "holding s \<longleftrightarrow> (case out_at s of O_Recv _ _ \<Rightarrow> True | O_Send _ _ _ _ \<Rightarrow> True | _ \<Rightarrow> False)"

subsection \<open>The response thread's buffer\<close>

lemma out_points:
  assumes "out_step e conf p l sh = Inr (p', l', sh')"
  shows "p \<noteq> O_End"
    "p = O_Start \<Longrightarrow> p' = O_End \<or> (\<exists>c q. p' = O_Loop c q)"
    "p = O_Loop c q \<Longrightarrow> p' = O_Test c q"
    "p = O_Test c q \<Longrightarrow> p' = (if WINEING_CTRL_CMD_SHUTDOWN = w_cmd (out_data l) then O_End else O_Recv c q)"
    "p = O_Recv c q \<Longrightarrow> p' = O_Loop c q \<or> (\<exists>b n. p' = O_Send c q b n)"
    "p = O_Send c q b n \<Longrightarrow> p' = O_Loop c q"
  using assms
  by (auto simp: out_step_def out_start_def out_read_def out_test_def out_recv_def out_send_def res_simps Let_def
      split: if_splits)

definition blocks_ok :: "'w sys \<Rightarrow> memory \<Rightarrow> bool" where
  "blocks_ok s m \<longleftrightarrow> (\<forall>b \<ge> next_block m. blocks m b = None) \<and>
     (holding s \<longrightarrow> (\<exists>b. out_block m = Some b \<and> blocks m b = Some Program))"

lemma new_then_send:
  "(let (b, m) = new_block m in send_block f st b m) =
     Inr (m\<lparr>blocks := (blocks m)(next_block m \<mapsto> if f \<and> st then Zmq_Frees else Nobody),
            next_block := Suc (next_block m)\<rparr>)"
  by (simp add: new_block_def send_block_def use_block_def)

text \<open>
  What a step of the program can do to the memory: nothing; allocate a block and send it;
  allocate the block of the response thread; give that block up after a failed receive; send it.
\<close>

inductive block_effect :: "'w env \<Rightarrow> 'w sys \<Rightarrow> action \<Rightarrow> 'w sys \<Rightarrow> memory \<Rightarrow> memory \<Rightarrow> bool"
  for e s a s' m where
  eff_none: "holding s' = holding s \<Longrightarrow> \<not> lost_receive (Took a s s') \<Longrightarrow> \<not> lost_send e (Took a s s') \<Longrightarrow>
    block_effect e s a s' m m"
| eff_sent: "holding s' = holding s \<Longrightarrow> \<not> lost_receive (Took a s s') \<Longrightarrow>
    x = (if lost_send e (Took a s s') then Nobody else Zmq_Frees) \<Longrightarrow>
    block_effect e s a s' m (m\<lparr>blocks := (blocks m)(next_block m \<mapsto> x), next_block := Suc (next_block m)\<rparr>)"
| eff_kept: "\<not> holding s \<Longrightarrow> holding s' \<Longrightarrow> \<not> lost_receive (Took a s s') \<Longrightarrow> \<not> lost_send e (Took a s s') \<Longrightarrow>
    block_effect e s a s' m (m\<lparr>blocks := (blocks m)(next_block m \<mapsto> Program),
      next_block := Suc (next_block m), out_block := Some (next_block m)\<rparr>)"
| eff_lost: "holding s \<Longrightarrow> \<not> holding s' \<Longrightarrow> lost_receive (Took a s s') \<Longrightarrow> \<not> lost_send e (Took a s s') \<Longrightarrow>
    block_effect e s a s' m m"
| eff_handed: "holding s \<Longrightarrow> \<not> holding s' \<Longrightarrow> \<not> lost_receive (Took a s s') \<Longrightarrow>
    x = (if lost_send e (Took a s s') then Nobody else Zmq_Frees) \<Longrightarrow>
    out_block m = Some b \<Longrightarrow> blocks m b = Some Program \<Longrightarrow>
    block_effect e s a s' m (m\<lparr>blocks := (blocks m)(b \<mapsto> x)\<rparr>)"

lemma use_block_Inr [res_simps]: "use_block b m = Inr m' \<longleftrightarrow> blocks m b = Some Program \<and> m' = m"
  by (auto simp: use_block_def)

lemma send_block_Inr [res_simps]:
  "send_block f st b m = Inr m' \<longleftrightarrow> blocks m b = Some Program \<and>
     m' = m\<lparr>blocks := (blocks m)(b \<mapsto> if f \<and> st then Zmq_Frees else Nobody)\<rparr>"
  by (auto simp: send_block_def use_block_def)

lemma buffer_var_Inr [res_simps]: "buffer_var m = Inr b \<longleftrightarrow> out_block m = Some b"
  by (simp add: buffer_var_def split: option.split)

lemma out_effect:
  assumes "out_step e conf (out_at s) (out_vars s) (sys_sh s) = Inr (p, l, sh)"
    and "memory_of e Act_Out s m = Inr m'" "s' = s\<lparr>out_at := p, out_vars := l, sys_sh := sh\<rparr>"
  shows "block_effect e s Act_Out s' m m'"
proof (cases "out_at s")
  case O_Start
  with out_points(2) [OF assms(1)] assms(2,3) show ?thesis
    by (auto simp: memory_of_def out_memory_def holding_def intro!: eff_none)
next
  case (O_Loop c q)
  with out_points(3) [OF assms(1)] assms(2,3) show ?thesis
    by (auto simp: memory_of_def out_memory_def holding_def intro!: eff_none)
next
  case (O_Test c q)
  show ?thesis
  proof (cases "WINEING_CTRL_CMD_SHUTDOWN = w_cmd (out_data (out_vars s))")
    case True
    with O_Test out_points(4) [OF assms(1)] assms(2,3) show ?thesis
      by (auto simp: memory_of_def out_memory_def holding_def intro!: eff_none)
  next
    case False
    then have "m' = m\<lparr>blocks := (blocks m)(next_block m \<mapsto> Program),
        next_block := Suc (next_block m), out_block := Some (next_block m)\<rparr>"
      using O_Test assms(2) by (simp add: memory_of_def out_memory_def new_block_def)
    with False O_Test out_points(4) [OF assms(1)] assms(3) show ?thesis
      by (auto simp: holding_def intro!: eff_kept)
  qed
next
  case (O_Recv c q)
  with assms(2) have m': "m' = m" by (auto simp: memory_of_def out_memory_def res_simps)
  from out_points(5) [OF assms(1) O_Recv] show ?thesis
  proof
    assume "p = O_Loop c q"
    with O_Recv assms(3) m' show ?thesis by (auto simp: holding_def intro!: eff_lost)
  next
    assume "\<exists>b n. p = O_Send c q b n"
    with O_Recv assms(3) m' show ?thesis by (auto simp: holding_def intro!: eff_none)
  qed
next
  case (O_Send c q buf n)
  let ?x = "if lost_send e (Took Act_Out s s') then Nobody else Zmq_Frees"
  obtain b where "out_block m = Some b" "blocks m b = Some Program" "m' = m\<lparr>blocks := (blocks m)(b \<mapsto> ?x)\<rparr>"
    using O_Send assms(2) by (auto simp: memory_of_def out_memory_def res_simps split: if_splits)
  with O_Send out_points(6) [OF assms(1) O_Send] assms(3) show ?thesis
    by (auto simp del: lost_send.simps simp: holding_def intro!: eff_handed)
next
  case O_End
  with out_points(1) [OF assms(1)] show ?thesis by simp
qed

lemma took_effect:
  assumes "sys_step e conf R s a s'" "memory_of e a s m = Inr m'"
  shows "block_effect e s a s' m m'"
  using assms(1)
proof cases
  case (step_out p l sh)
  with out_effect assms(2) show ?thesis by blast
next
  case (step_in p l sh)
  show ?thesis
  proof (cases "\<exists>c o' r. in_at s = In_Reply c o' r")
    case True
    then obtain c o' r where r: "in_at s = In_Reply c o' r" by blast
    with assms(2) step_in have "m' = m\<lparr>blocks := (blocks m)(next_block m \<mapsto>
        if lost_send e (Took a s s') then Nobody else Zmq_Frees), next_block := Suc (next_block m)\<rparr>"
      by (auto simp: memory_of_def in_memory_def new_then_send)
    with step_in show ?thesis by (auto simp: holding_def intro!: eff_sent)
  next
    case False
    with assms(2) step_in have "m' = m" "\<not> lost_send e (Took a s s')"
      by (auto simp: memory_of_def in_memory_def split: in_pc.splits)
    with step_in show ?thesis by (auto simp del: lost_send.simps simp: holding_def intro!: eff_none)
  qed
next
  case (step_answer c o' b mt ret sh)
  show ?thesis
  proof (cases mt)
    case NxMSG_STATUS
    with assms(2) step_answer have "m' = m\<lparr>blocks := (blocks m)(next_block m \<mapsto> Nobody),
        next_block := Suc (next_block m)\<rparr>"
      by (simp add: memory_of_def answer_memory_def new_then_send)
    with NxMSG_STATUS step_answer show ?thesis by (auto simp: holding_def intro!: eff_sent)
  next
    case (NxMSG_OTHER n)
    with assms(2) step_answer show ?thesis
      by (auto simp: memory_of_def answer_memory_def holding_def intro!: eff_none)
  qed
qed (use assms(2) in \<open>auto simp: memory_of_def holding_def intro!: eff_none\<close>)

subsection \<open>Counting the blocks\<close>

lemma owned_upd: "b \<notin> owned y m \<Longrightarrow> owned y (m\<lparr>blocks := (blocks m)(b \<mapsto> x), next_block := n\<rparr>) =
    (if x = y then insert b (owned y m) else owned y m)"
  by (auto simp: owned_def)

lemma owned_given: "blocks m b = Some Program \<Longrightarrow> x \<noteq> Program \<Longrightarrow>
   owned y (m\<lparr>blocks := (blocks m)(b \<mapsto> x)\<rparr>) =
     (if y = Program then owned y m - {b} else if x = y then insert b (owned y m) else owned y m)"
  by (auto simp: owned_def)

lemma owned_out_block [simp]: "owned x (m\<lparr>out_block := y\<rparr>) = owned x m"
  by (simp add: owned_def)

definition accounted :: "'w env \<Rightarrow> 'w sys \<Rightarrow> 'w mem_event list \<Rightarrow> memory \<Rightarrow> bool" where
  "accounted e s tr m \<longleftrightarrow> blocks_ok s m \<and>
     card (owned Program m) = length (filter lost_receive tr) + (if holding s then 1 else 0) \<and>
     card (owned Nobody m) = length (filter (lost_send e) tr)"

lemma owned_finite:
  assumes "blocks_ok s m"
  shows "finite (owned x m)"
proof (rule finite_subset)
  show "owned x m \<subseteq> {..<next_block m}"
    using assms by (auto simp: owned_def blocks_ok_def not_less [symmetric])
qed simp

lemma fresh_owned: "blocks_ok s m \<Longrightarrow> next_block m \<notin> owned x m"
  by (simp add: blocks_ok_def owned_def)

lemma accounted_effect:
  assumes "block_effect e s a s' m m'" "accounted e s tr m"
  shows "accounted e s' (tr @ [Took a s s']) m'"
proof -
  have ok: "blocks_ok s m" using assms(2) by (simp add: accounted_def)
  note fin = owned_finite [OF ok] and fresh = fresh_owned [OF ok]
  from assms(1) show ?thesis
  proof cases
    case eff_none
    with assms(2) show ?thesis by (simp add: accounted_def blocks_ok_def)
  next
    case (eff_sent x)
    have "blocks m b = Some Program \<Longrightarrow> blocks m' b = Some Program" for b
      using eff_sent(1) fresh [of Program] by (auto simp: owned_def)
    with ok eff_sent(1,2) have "blocks_ok s' m'" by (auto simp: blocks_ok_def)
    moreover have "card (owned Program m') = card (owned Program m)"
        "card (owned Nobody m') = card (owned Nobody m) + (if x = Nobody then 1 else 0)"
      using eff_sent(1,4) fresh fin by (simp_all add: owned_upd split: if_splits)
    ultimately show ?thesis using eff_sent(2-4) assms(2) by (simp add: accounted_def)
  next
    case eff_kept
    with assms(2) fresh fin show ?thesis
      by (auto simp: accounted_def blocks_ok_def owned_upd)
  next
    case eff_lost
    with assms(2) show ?thesis by (simp add: accounted_def blocks_ok_def)
  next
    case (eff_handed x b)
    then have "b \<in> owned Program m" "b \<notin> owned Nobody m" by (simp_all add: owned_def)
    with assms(2) fin eff_handed show ?thesis
      by (auto simp: accounted_def blocks_ok_def owned_given)
  qed
qed

lemma send_free_Inr: "send_free b m = Inr m' \<Longrightarrow> m' = m\<lparr>blocks := (blocks m)(b := None)\<rparr>"
  by (auto simp: send_free_def split: option.splits)

lemma accounted_freed:
  assumes "blocks m b = Some Zmq_Frees" "accounted e s tr m"
  shows "accounted e s (tr @ [Freed b]) (m\<lparr>blocks := (blocks m)(b := None)\<rparr>)"
proof -
  have "owned x (m\<lparr>blocks := (blocks m)(b := None)\<rparr>) = owned x m" if "x \<noteq> Zmq_Frees" for x
    using assms(1) that by (auto simp: owned_def)
  moreover have "blocks_ok s (m\<lparr>blocks := (blocks m)(b := None)\<rparr>)"
  proof -
    have "blocks m b' = Some Program \<Longrightarrow> b' \<noteq> b" for b' using assms(1) by auto
    with assms(2) show ?thesis unfolding accounted_def blocks_ok_def by auto
  qed
  ultimately show ?thesis using assms(2) by (simp add: accounted_def)
qed

text \<open>What has been freed is exactly what was allocated and is not there any more, each once.\<close>

definition freed_once :: "'w mem_event list \<Rightarrow> memory \<Rightarrow> bool" where
  "freed_once tr m \<longleftrightarrow> distinct (freed tr) \<and> set (freed tr) = {b. b < next_block m \<and> blocks m b = None}"

lemma freed_snoc [simp]: "freed (tr @ [Took a s s']) = freed tr" "freed (tr @ [Freed b]) = freed tr @ [b]"
  by (simp_all add: freed_def)

lemma freed_once_effect:
  assumes "block_effect e s a s' m m'" "blocks_ok s m" "freed_once tr m"
  shows "freed_once (tr @ [Took a s s']) m'"
  using assms by cases (auto simp: freed_once_def blocks_ok_def less_Suc_eq)

lemma mem_run_inv:
  assumes "mem_run e conf R s0 tr s m" "\<not> holding s0"
  shows "accounted e s tr m \<and> freed_once tr m"
  using assms
proof (induction rule: mem_run.induct)
  case mem_refl
  then show ?case
    by (simp add: accounted_def blocks_ok_def owned_def memory_start_def freed_once_def freed_def)
next
  case (mem_next tr s m ev s' m')
  then have inv: "accounted e s tr m" "freed_once tr m" by simp_all
  from mem_next.hyps(2) show ?case
  proof cases
    case (mem_took a)
    note eff = took_effect [OF mem_took(2,3)]
    have "blocks_ok s m" using inv(1) by (simp add: accounted_def)
    with accounted_effect [OF eff inv(1)] freed_once_effect [OF eff _ inv(2)] mem_took(1)
    show ?thesis by simp
  next
    case (mem_freed b)
    with send_free_Inr [OF mem_freed(4)] inv accounted_freed [OF mem_freed(3) inv(1)] show ?thesis
      by (auto simp: freed_once_def accounted_def blocks_ok_def not_le [symmetric])
  qed
qed

text \<open>A run with memory is a run; and every run has one, because no step misuses a block.\<close>

lemma memory_total:
  assumes "sys_step e conf R s a s'" "blocks_ok s m"
  shows "\<exists>m'. memory_of e a s m = Inr m'"
  using assms(1)
proof cases
  case (step_in p l sh)
  then show ?thesis
    by (simp add: memory_of_def in_memory_def new_then_send del: Let_def split: in_pc.split)
next
  case (step_out p l sh)
  with assms(2) show ?thesis
    by (auto simp: memory_of_def out_memory_def blocks_ok_def holding_def new_block_def buffer_var_def
        use_block_def send_block_def split: o_pc.split)
next
  case (step_answer c o' b mt ret sh)
  then show ?thesis
    by (auto simp: memory_of_def answer_memory_def new_then_send split: NxMessageType.split)
qed (simp_all add: memory_of_def)

lemma mem_run_sys:
  "mem_run e conf R s0 tr s m \<Longrightarrow> \<exists>rs. sys_run e conf R s0 rs s"
  by (induction rule: mem_run.induct) (auto elim!: mem_step.cases intro: run_refl run_step)

lemma sys_run_memory:
  assumes "sys_run e conf R s0 rs s" "\<not> holding s0"
  shows "\<exists>tr m. mem_run e conf R s0 tr s m"
  using assms
proof (induction rule: sys_run.induct)
  case (run_refl s)
  then show ?case using mem_refl by blast
next
  case (run_step s rs s' a s'')
  then obtain tr m where r: "mem_run e conf R s tr s' m" by blast
  with mem_run_inv [OF r run_step.prems] memory_total [OF run_step.hyps(2)] obtain m' where
    "memory_of e a s' m = Inr m'" by (auto simp: accounted_def)
  with mem_next [OF r mem_took [OF run_step.hyps(2)]] show ?case by blast
qed

lemma start_not_holding: "\<not> holding (threads_start b sh)"
  by (simp add: holding_def threads_start_def sys_start_def)

subsection \<open>Properties\<close>

text \<open>
  C13. Memory safety of the message buffers: every run of the program is a run in which each use,
  send and release of a buffer finds it allocated, whatever ZeroMQ has freed in between. At any
  point of such a run the next step of every thread does so too, ZeroMQ frees only what is
  allocated and its own, and the buffer the response thread is filling or sending is allocated
  and not with ZeroMQ.
\<close>
theorem buffers_never_misused:
  assumes "sys_run e conf R (threads_start b sh) rs s"
  shows "(\<exists>tr m. mem_run e conf R (threads_start b sh) tr s m) \<and>
    (\<forall>tr m. mem_run e conf R (threads_start b sh) tr s m \<longrightarrow>
      (\<forall>a s'. sys_step e conf R s a s' \<longrightarrow> (\<exists>m'. memory_of e a s m = Inr m')) \<and>
      (\<forall>x. blocks m x = Some Zmq_Frees \<longrightarrow> (\<exists>m'. send_free x m = Inr m')) \<and>
      (holding s \<longrightarrow> (\<exists>x. out_block m = Some x \<and> blocks m x = Some Program)))"
proof (intro conjI allI impI)
  show "\<exists>tr m. mem_run e conf R (threads_start b sh) tr s m"
    by (rule sys_run_memory [OF assms start_not_holding])
next
  fix tr m assume "mem_run e conf R (threads_start b sh) tr s m"
  from mem_run_inv [OF this start_not_holding] have ok: "blocks_ok s m" by (simp add: accounted_def)
  show "\<exists>m'. memory_of e a s m = Inr m'" if "sys_step e conf R s a s'" for a s'
    by (rule memory_total [OF that ok])
  show "\<exists>m'. send_free x m = Inr m'" if "blocks m x = Some Zmq_Frees" for x
    using that by (simp add: send_free_def)
  show "\<exists>x. out_block m = Some x \<and> blocks m x = Some Program" if "holding s"
    using that ok by (simp add: blocks_ok_def)
qed

text \<open>
  C16. The account of the message buffers at any point of a run. Every block ever allocated is either
  freed, and then exactly once, or still there. Of those that are there, the program's own are the
  buffers of failed receives and the one the response thread is using; those nobody will ever
  free are the buffers of failed sends and of the status messages; all others ZeroMQ will free.
\<close>
theorem buffers_accounted_for:
  assumes "mem_run e conf R (threads_start b sh) tr s m"
  shows "distinct (freed tr) \<and> set (freed tr) \<union> dom (blocks m) = {..<next_block m} \<and>
     set (freed tr) \<inter> dom (blocks m) = {} \<and>
     card (owned Program m) = length (filter lost_receive tr) + (if holding s then 1 else 0) \<and>
     card (owned Nobody m) = length (filter (lost_send e) tr)"
proof -
  from mem_run_inv [OF assms start_not_holding] have
    inv: "accounted e s tr m" "freed_once tr m" by simp_all
  then have "dom (blocks m) \<subseteq> {..<next_block m}"
    by (auto simp: accounted_def blocks_ok_def not_le [symmetric])
  with inv show ?thesis by (auto simp: accounted_def freed_once_def)
qed

end
