(* ===== verification/Memory_Runs.thy ===== *)
theory Memory_Runs
  imports Buffer_Memory Session_Runs
begin

text \<open>
  A run with memory in the concrete environment: a client starts the real-time stream, gets its
  response, and NxCore reports its status.
\<close>

subsection \<open>Executing a schedule with frees\<close>

datatype mem_sched = Prog sched | Zmq_Free nat

fun mem_exec :: "'w env \<Rightarrow> w_conf \<Rightarrow> mem_sched \<Rightarrow> 'w sys \<times> memory \<Rightarrow> ('w sys \<times> memory) option" where
  "mem_exec e conf (Prog x) (s, m) = (case sched_step e conf x s of None \<Rightarrow> None
     | Some (a, s') \<Rightarrow> (case memory_of e a s m of Inl _ \<Rightarrow> None | Inr m' \<Rightarrow> Some (s', m')))"
| "mem_exec e conf (Zmq_Free b) (s, m) = (if blocks m b = Some Zmq_Frees then
     (case send_free b m of Inl _ \<Rightarrow> None | Inr m' \<Rightarrow> Some (s, m')) else None)"

fun mem_execs :: "'w env \<Rightarrow> w_conf \<Rightarrow> mem_sched list \<Rightarrow> 'w sys \<times> memory \<Rightarrow> ('w sys \<times> memory) option" where
  "mem_execs e conf [] x = Some x"
| "mem_execs e conf (y # ys) x = (case mem_exec e conf y x of None \<Rightarrow> None | Some x' \<Rightarrow> mem_execs e conf ys x')"

lemma mem_exec_sound: "mem_exec e conf y (s, m) = Some (s', m') \<Longrightarrow> \<exists>ev. mem_step e conf R (s, m) ev (s', m')"
proof (cases y)
  case (Prog x)
  assume "mem_exec e conf y (s, m) = Some (s', m')"
  with Prog obtain a where "sched_step e conf x s = Some (a, s')" "memory_of e a s m = Inr m'"
    by (auto split: option.splits sum.splits)
  from mem_took [OF sched_step_sound [OF this(1)] this(2)] show ?thesis by blast
next
  case (Zmq_Free b)
  assume "mem_exec e conf y (s, m) = Some (s', m')"
  with Zmq_Free have "s' = s" "blocks m b = Some Zmq_Frees" "send_free b m = Inr m'"
    by (auto split: sum.splits if_splits)
  with mem_freed [OF this(2,3)] show ?thesis by blast
qed

lemma mem_execs_sound:
  "mem_execs e conf ys (s, m) = Some (s', m') \<Longrightarrow> mem_run e conf R s0 tr s m \<Longrightarrow>
   \<exists>tr'. mem_run e conf R s0 tr' s' m'"
proof (induction ys arbitrary: s m tr)
  case Nil
  then show ?case by auto
next
  case (Cons y ys)
  then obtain s1 m1 where st: "mem_exec e conf y (s, m) = Some (s1, m1)"
      "mem_execs e conf ys (s1, m1) = Some (s', m')"
    by (auto split: option.splits)
  from mem_exec_sound [OF st(1)] obtain ev where "mem_step e conf R (s, m) ev (s1, m1)" by blast
  from Cons.IH [OF st(2) mem_next [OF Cons.prems(2) this]] show ?case .
qed

definition memory_schedule :: "mem_sched list" where
  "memory_schedule = map Prog [Go_Out, Go_In, Go_In, Go_In, Go_In, Go_In, Go_In, Go_In,
     Go_Out, Go_Out, Go_Out] @ [Zmq_Free 0] @
     map Prog [Go_Market, Go_Market, Go_Market, Go_Market, Go_Callback NxMSG_STATUS, Go_Answer]"

abbreviation demo_memory :: "mem_sched list \<Rightarrow> (demo_world sys \<times> memory) option" where
  "demo_memory ys \<equiv> mem_execs demo_quiet demo_conf ys (threads_start demo_buffers (demo_boot [''r'']), memory_start)"

lemmas mem_defs = run_defs memory_of_def in_memory_def out_memory_def answer_memory_def new_block_def
  send_block_def use_block_def send_free_def buffer_var_def reply_sent_def status_sent_def send_succeeds_def
  memory_start_def log_running_def wininf_nxcore_run_def callback_read_def callback_handle_def nxtape_read_def
  nxtape_handle_def nxtape_send_status_def MarketData_Clear_def

lemma demo_quiet_market [simp]: "SerializeMarketData demo_quiet = (\<lambda>_. ''S'')"
  by (simp add: demo_quiet_def demo_env_def)

lemma memory_run:
  "\<exists>s m. demo_memory memory_schedule = Some (s, m) \<and>
     map (blocks m) [0, 1, 2] = [None, Some Program, Some Nobody] \<and> next_block m = 3 \<and> holding s"
  by (simp add: memory_schedule_def mem_defs holding_def)

abbreviation demo_threads :: "demo_world sys" where
  "demo_threads \<equiv> threads_start demo_buffers (demo_boot [''r''])"

lemma memory_reached:
  "\<exists>tr s m. mem_run demo_quiet demo_conf R demo_threads tr s m \<and>
     map (blocks m) [0, 1, 2] = [None, Some Program, Some Nobody] \<and> next_block m = 3 \<and> holding s"
proof -
  obtain s m where r: "demo_memory memory_schedule = Some (s, m)"
      "map (blocks m) [0, 1, 2] = [None, Some Program, Some Nobody] \<and> next_block m = 3 \<and> holding s"
    using memory_run by (elim exE conjE) (rule that, assumption, intro conjI)
  from mem_execs_sound [OF r(1) mem_refl [of demo_quiet demo_conf R]] obtain tr where
    "mem_run demo_quiet demo_conf R demo_threads tr s m" by (elim exE) (rule that)
  with r(2) show ?thesis by (intro exI conjI) (elim conjE, assumption)+
qed

subsection \<open>Witnesses\<close>

theorem buffers_never_misused_witness:
  "\<exists>tr s m x. mem_run demo_quiet demo_conf (\<lambda>_ _. False) demo_threads tr s m \<and>
     holding s \<and> out_block m = Some x \<and> blocks m x = Some Program"
proof -
  obtain tr s m where r: "mem_run demo_quiet demo_conf (\<lambda>_ _. False) demo_threads tr s m" "holding s"
    using memory_reached by blast
  from mem_run_sys [OF r(1)] obtain rs where
    "sys_run demo_quiet demo_conf (\<lambda>_ _. False) demo_threads rs s" by blast
  with buffers_never_misused [OF this] r show ?thesis by blast
qed

theorem buffers_accounted_for_witness:
  "\<exists>tr s m. mem_run demo_quiet demo_conf (\<lambda>_ _. False) demo_threads tr s m \<and>
     freed tr = [0] \<and> length (filter (lost_send demo_quiet) tr) = 1 \<and> filter lost_receive tr = []"
proof -
  obtain tr s m where r: "mem_run demo_quiet demo_conf (\<lambda>_ _. False) demo_threads tr s m"
      "blocks m 0 = None" "blocks m 1 = Some Program" "blocks m 2 = Some Nobody" "next_block m = 3" "holding s"
    using memory_reached [of "\<lambda>_ _. False"] by auto
  note acc = buffers_accounted_for [OF r(1)]
  have less: "{..<3} = {0, 1, 2 :: nat}" by auto
  have d: "set (freed tr) \<union> dom (blocks m) = {0, 1, 2}" "set (freed tr) \<inter> dom (blocks m) = {}"
    using acc unfolding r(5) less by simp_all
  have b: "blocks m x = None" if "x \<notin> {1, 2}" for x
  proof (rule ccontr)
    assume "blocks m x \<noteq> None"
    then have "x \<in> {0, 1, 2}" unfolding d(1) [symmetric] by (simp add: domIff)
    with that r(2) \<open>blocks m x \<noteq> None\<close> show False by simp
  qed
  have eq: "blocks m x = (if x = 1 then Some Program else if x = 2 then Some Nobody else None)" for x
    using b r(3,4) by simp
  have owned: "owned Program m = {1}" "owned Nobody m = {2}" "dom (blocks m) = {1, 2}"
    by (simp_all add: owned_def eq dom_def set_eq_iff)
  have "set (freed tr) = {0, 1, 2} - dom (blocks m)"
    using d(2) unfolding d(1) [symmetric] by (simp add: Un_Diff Diff_triv)
  moreover have "{0, 1, 2} - {1, 2} = {0 :: nat}" by (simp add: insert_Diff_if)
  ultimately have "set (freed tr) = {0}" unfolding owned(3) by (rule trans)
  moreover have "distinct (freed tr)" using acc by simp
  ultimately have "freed tr = [0]" by (cases "freed tr"; cases "tl (freed tr)") auto
  with acc owned r(1,6) show ?thesis by (intro exI [of _ tr] exI [of _ s] exI [of _ m]) simp
qed

end
