(* ===== verification/Socket_Use.thy ===== *)
theory Socket_Use
  imports System_Faults World_Frame
begin

text \<open>
  The sockets of the program: which thread holds which, and what each step does to the set of
  sockets that are open. \<open>live\<close> is a view of the world: the sockets that are open.
\<close>

subsection \<open>What ZeroMQ documents about open sockets\<close>

definition sockets_documented :: "'w env \<Rightarrow> ('w \<Rightarrow> 'w \<Rightarrow> bool) \<Rightarrow> ('w \<Rightarrow> nat set) \<Rightarrow> bool" where
  "sockets_documented e R live \<longleftrightarrow>
     (\<forall>t w. case zmq_socket e t w of (s, w') \<Rightarrow> (case s of None \<Rightarrow> live w' = live w
        | Some n \<Rightarrow> n \<notin> live w \<and> live w' = insert n (live w))) \<and>
     (\<forall>s n w. live (snd (zmq_bind e s n w)) = live w) \<and>
     (\<forall>s n w. live (snd (zmq_connect e s n w)) = live w) \<and>
     (\<forall>s d f w. live (snd (zmq_send e s d f w)) = live w) \<and>
     (\<forall>s w. case zmq_recv e s w of None \<Rightarrow> True | Some (r, d, w') \<Rightarrow> live w' = live w) \<and>
     (\<forall>n w. live (zmq_close e (Some n) w) = live w - {n}) \<and>
     (\<forall>n w. live (snd (LoadLibrary e n w)) = live w) \<and>
     (\<forall>w w'. R w w' \<longrightarrow> live w' = live w)"

subsection \<open>The sockets a thread holds\<close>

fun in_held :: "in_pc \<Rightarrow> chan list" where
  "in_held (In_Connect c o') = [c]"
| "in_held (In_Loop c o') = [c, o']"
| "in_held (In_Handle c o' _) = [c, o']"
| "in_held (In_Publish c o' _ _) = [c, o']"
| "in_held (In_Signal c o' _) = [c, o']"
| "in_held (In_Reply c o' _) = [c, o']"
| "in_held _ = []"

fun out_held :: "o_pc \<Rightarrow> chan list" where
  "out_held (O_Loop c q) = [c, q]"
| "out_held (O_Test c q) = [c, q]"
| "out_held (O_Recv c q) = [c, q]"
| "out_held (O_Send c q _ _) = [c, q]"
| "out_held _ = []"

fun mk_held :: "m_pc \<Rightarrow> chan list" where
  "mk_held (M_Connect c o') = [c]"
| "mk_held (M_Loop c o') = [c, o']"
| "mk_held (M_Test c o') = [c, o']"
| "mk_held (M_Nx c o' _) = [c, o']"
| "mk_held (M_Callback c o' _ _) = [c, o']"
| "mk_held _ = []"

text \<open>The channels \<open>cs\<close> have the sockets \<open>ns\<close>.\<close>

definition on_sockets :: "chan list \<Rightarrow> nat list \<Rightarrow> bool" where
  "on_sockets cs ns \<longleftrightarrow> map sock cs = map (\<lambda>n. Sock (Some n)) ns"

lemma on_sockets_simps [simp]:
  "on_sockets [] ns \<longleftrightarrow> ns = []"
  "on_sockets (c # cs) ns \<longleftrightarrow> (\<exists>n ns'. ns = n # ns' \<and> sock c = Sock (Some n) \<and> on_sockets cs ns')"
  by (cases ns; auto simp: on_sockets_def)+

text \<open>
  How many sockets an event can lose: a failed connect, or a failed start of the request or
  market thread, loses the one it created; a failed start of the response thread up to two.
\<close>

fun in_loss :: "in_pc \<Rightarrow> in_pc \<Rightarrow> nat" where
  "in_loss In_Start In_End = 1"
| "in_loss (In_Connect _ _) (In_Connect _ _) = 1"
| "in_loss _ _ = 0"

fun out_loss :: "o_pc \<Rightarrow> o_pc \<Rightarrow> nat" where
  "out_loss O_Start O_End = 2"
| "out_loss _ _ = 0"

fun mk_loss :: "m_pc \<Rightarrow> m_pc \<Rightarrow> nat" where
  "mk_loss M_Start M_End = 1"
| "mk_loss (M_Connect _ _) (M_Connect _ _) = 1"
| "mk_loss _ _ = 0"

subsection \<open>What a step does to the sockets of its thread\<close>

text \<open>
  A thread holds \<open>ns\<close> before and \<open>ns'\<close> after its step: the sockets of the others stay open, what
  it holds is its own or new, and at most \<open>k\<close> sockets are open that nobody holds.
\<close>

definition passes :: "nat set \<Rightarrow> nat list \<Rightarrow> nat set \<Rightarrow> nat list \<Rightarrow> nat \<Rightarrow> bool" where
  "passes L ns L' ns' k \<longleftrightarrow> distinct ns' \<and> set ns' \<subseteq> L' \<and> L - set ns \<subseteq> L' \<and>
     set ns' \<inter> (L - set ns) = {} \<and>
     (\<exists>X. finite X \<and> card X \<le> k \<and> L' \<subseteq> (L - set ns) \<union> set ns' \<union> X)"

lemma passesI:
  assumes "distinct ns'" "set ns' \<subseteq> L'" "L - set ns \<subseteq> L'" "set ns' \<inter> (L - set ns) = {}"
    and "finite X" "card X \<le> k" "L' \<subseteq> (L - set ns) \<union> set ns' \<union> X"
  shows "passes L ns L' ns' k"
  unfolding passes_def using assms by (intro conjI exI [of _ X])

lemma passes_same: "distinct ns \<Longrightarrow> set ns \<subseteq> L \<Longrightarrow> passes L ns L ns k"
  by (rule passesI [of _ _ _ _ "{}"]) auto

lemma passes_new: "distinct ns \<Longrightarrow> set ns \<subseteq> L \<Longrightarrow> n \<notin> L \<Longrightarrow> passes L ns (insert n L) (ns @ [n]) k"
  by (rule passesI [of _ _ _ _ "{}"]) auto

lemma passes_closed: "L' = L - set ns \<Longrightarrow> passes L ns L' [] k"
  by (rule passesI [of _ _ _ _ "{}"]) auto

lemma passes_setback:
  "distinct ns \<Longrightarrow> set ns \<subseteq> L \<Longrightarrow> L \<subseteq> L' \<Longrightarrow> finite X \<Longrightarrow> card X \<le> k \<Longrightarrow> L' \<subseteq> L \<union> X \<Longrightarrow> passes L ns L' ns k"
  by (rule passesI [of _ _ _ _ X]) auto

abbreviation sh_world :: "'w shared \<Rightarrow> 'w" where "sh_world sh \<equiv> world (sh_io sh)"

lemma documented_simps:
  assumes "sockets_documented e R live"
  shows "live (snd (zmq_bind e s n w)) = live w" "live (snd (zmq_connect e s n w)) = live w"
    "live (snd (zmq_send e s d f w)) = live w" "live (zmq_close e (Some k) w) = live w - {k}"
    "live (snd (LoadLibrary e n w)) = live w"
  using assms unfolding sockets_documented_def by (simp_all only: simp_thms)

lemma documented_new:
  assumes "sockets_documented e R live" "zmq_socket e t w = (s, w')"
  shows "case s of None \<Rightarrow> live w' = live w | Some n \<Rightarrow> n \<notin> live w \<and> live w' = insert n (live w)"
proof -
  have "case zmq_socket e t w of (s, w') \<Rightarrow> (case s of None \<Rightarrow> live w' = live w
      | Some n \<Rightarrow> n \<notin> live w \<and> live w' = insert n (live w))"
    using assms(1) unfolding sockets_documented_def by (elim conjE) (drule spec, drule spec, assumption)
  with assms(2) show ?thesis by simp
qed

lemma documented_receive:
  assumes "sockets_documented e R live" "zmq_recv e s w = Some (r, d, w')"
  shows "live w' = live w"
proof -
  have "case zmq_recv e s w of None \<Rightarrow> True | Some (r, d, w') \<Rightarrow> live w' = live w"
    using assms(1) unfolding sockets_documented_def by (elim conjE) (drule spec, drule spec, assumption)
  with assms(2) show ?thesis by simp
qed

lemma bind_socket:
  assumes "sockets_documented e R live" "chan_bind e c io = Inr (rc, c', io')"
    and "chan_type c \<in> {CHAN_TYPE_PUB, CHAN_TYPE_PULL_BIND, CHAN_TYPE_PUSH_CONNECT}"
  shows "(\<exists>n. sock c' = Sock (Some n) \<and> n \<notin> live (world io) \<and> live (world io') = insert n (live (world io))) \<or>
    rc <s 0 \<and> live (world io') = live (world io)"
proof -
  obtain s w where s: "zmq_socket e (to_zmq_type (chan_type c)) (world io) = (s, w)" by (metis surj_pair)
  show ?thesis
  proof (cases s)
    case None
    with assms(2) s documented_new [OF assms(1) s] show ?thesis
      by (auto simp: chan_bind_no_socket word_sless_alt)
  next
    case (Some n)
    from assms(3) have ty: "binds (chan_type c) \<or> connects (chan_type c)" "chan_type c \<noteq> CHAN_TYPE_SUB"
      by (auto simp: binds_def connects_def chan_types)
    from assms(2) s Some ty obtain name where name: "fqcn c = CStr name"
      by (cases "fqcn c") (auto simp: chan_bind_def on_world_def Let_def res_simps split: if_splits)
    obtain r v where at: "attach e (chan_type c) (Some n) name w = (r, v)" by (metis surj_pair)
    then have "live v = live w"
      using documented_simps(1,2) [OF assms(1), of "Some n" name w]
      by (auto simp: attach_def split: if_splits)
    with chan_bind_attach [OF ty(1) name s [unfolded Some] at] assms(2) ty(2) Some documented_new [OF assms(1) s]
    show ?thesis by auto
  qed
qed

lemma destroy_socket:
  "sockets_documented e R live \<Longrightarrow> sock c = Sock (Some n) \<Longrightarrow>
   \<exists>i. chan_destroy e c io = Inr i \<and> live (world i) = live (world io) - {n}"
  by (simp add: chan_destroy_def chan_sock_def documented_simps)

lemma send_socket:
  "sockets_documented e R live \<Longrightarrow> chan_send e c b k f io = Inr (rc, i) \<Longrightarrow> live (world i) = live (world io)"
  using documented_simps(3) [of e R live]
  by (auto simp: chan_send_def chan_sock_def on_world_def split: sock_field.splits if_splits prod.splits)
    (metis snd_conv)+

lemma recv_socket:
  assumes "sockets_documented e R live" "chan_recv e c fn obj io = Inr (rc, obj', i)"
    and "\<And>d k j r x j'. fn d k obj j = Inr (r, x, j') \<Longrightarrow> world j' = world j"
  shows "live (world i) = live (world io)"
proof -
  from assms(2) obtain s where s: "sock c = Sock s" by (cases "sock c") (auto simp: chan_recv_def chan_sock_def)
  with assms(2) obtain r d w where d: "zmq_recv e s (world io) = Some (r, d, w)"
    by (cases "zmq_recv e s (world io)") (auto simp: chan_recv_def chan_sock_def)
  have "world i = w"
  proof (cases "r = 0")
    case True
    let ?k = "size_t_of_int (word_of_nat (length d))"
    from True assms(2) s d obtain r' x where "fn d ?k obj (io\<lparr>world := w\<rparr>) = Inr (r', x, i)"
      by (auto simp: chan_recv_def chan_sock_def res_simps Let_def)
    from assms(3) [OF this] show ?thesis by simp
  next
    case False
    with assms(2) chan_recv_error [OF s d False, of fn obj] show ?thesis by auto
  qed
  with documented_receive [OF assms(1) d] show ?thesis by simp
qed

lemma mem_copy_world: "cchan_in_mem_copy d k b io = Inr (r, x, i) \<Longrightarrow> i = io"
  by (auto simp: cchan_in_mem_copy_def res_simps)

subsection \<open>The request thread\<close>

definition holds :: "('w \<Rightarrow> nat set) \<Rightarrow> chan list \<Rightarrow> nat list \<Rightarrow> 'w shared \<Rightarrow> bool" where
  "holds live cs ns sh \<longleftrightarrow> on_sockets cs ns \<and> distinct ns \<and> set ns \<subseteq> live (sh_world sh)"

definition moves :: "('w \<Rightarrow> nat set) \<Rightarrow> nat list \<Rightarrow> 'w shared \<Rightarrow> chan list \<Rightarrow> 'w shared \<Rightarrow> nat \<Rightarrow> bool" where
  "moves live ns sh cs' sh' k \<longleftrightarrow>
     (\<exists>ns'. on_sockets cs' ns' \<and> passes (live (sh_world sh)) ns (live (sh_world sh')) ns' k)"

lemma moves_same:
  "holds live cs ns sh \<Longrightarrow> live (sh_world sh') = live (sh_world sh) \<Longrightarrow> map sock cs' = map sock cs \<Longrightarrow>
   moves live ns sh cs' sh' k"
  by (auto simp: holds_def moves_def on_sockets_def intro: passes_same)

lemma moves_new:
  "holds live cs ns sh \<Longrightarrow> sock c = Sock (Some n) \<Longrightarrow> n \<notin> live (sh_world sh) \<Longrightarrow>
   live (sh_world sh') = insert n (live (sh_world sh)) \<Longrightarrow> moves live ns sh (cs @ [c]) sh' k"
  by (auto simp: holds_def moves_def on_sockets_def intro!: exI [of _ "ns @ [n]"] passes_new)

lemma moves_closed:
  "live (sh_world sh') = live (sh_world sh) - set ns \<Longrightarrow> moves live ns sh [] sh' k"
  by (simp add: moves_def passes_closed)

lemma moves_setback:
  "holds live cs ns sh \<Longrightarrow> live (sh_world sh) \<subseteq> live (sh_world sh') \<Longrightarrow> finite X \<Longrightarrow> card X \<le> k \<Longrightarrow>
   live (sh_world sh') \<subseteq> live (sh_world sh) \<union> X \<Longrightarrow> moves live ns sh cs sh' k"
  unfolding holds_def moves_def by (elim conjE) (intro exI [of _ ns] conjI passes_setback)

lemma moves_mono: "moves live ns sh cs sh' k \<Longrightarrow> k \<le> j \<Longrightarrow> moves live ns sh cs sh' j"
  unfolding moves_def passes_def by (elim exE conjE) (intro exI conjI; (assumption | erule (1) le_trans))

lemma bind_moves:
  assumes "sockets_documented e R live" "chan_bind e c io = Inr (rc, q, i)"
    and "chan_type c \<in> {CHAN_TYPE_PUB, CHAN_TYPE_PULL_BIND, CHAN_TYPE_PUSH_CONNECT}"
    and "holds live cs ns sh" "world io = sh_world sh" "sh_world sh' = world i"
  shows "moves live ns sh (if rc <s 0 then cs else cs @ [q]) sh' (if rc <s 0 then 1 else 0)"
proof (cases "rc <s 0")
  case True
  obtain n where "live (sh_world sh) \<subseteq> live (sh_world sh')" "live (sh_world sh') \<subseteq> live (sh_world sh) \<union> {n}"
    using bind_socket [OF assms(1-3)] assms(5,6) by auto
  with moves_setback [OF assms(4), of sh' "{n}" 1] True show ?thesis by simp
next
  case False
  then obtain n where "sock q = Sock (Some n)" "n \<notin> live (sh_world sh)"
      "live (sh_world sh') = insert n (live (sh_world sh))"
    using bind_socket [OF assms(1-3)] assms(5,6) by auto
  from moves_new [OF assms(4) this] False show ?thesis by simp
qed

lemma in_start_sockets:
  assumes "sockets_documented e R live" "in_start e conf sh = Inr (p, sh')"
  shows "moves live [] sh (in_held p) sh' (in_loss In_Start p)"
proof -
  from assms(2) obtain sh1 rc c i where st:
      "sh_log_lazy e LOG_INFO ''Initializing control_in thread (%s)'' (str_args (cchan_in_fqcn conf) []) sh = Inr sh1"
      "chan_bind e (chan_init (cchan_in_fqcn conf) CHAN_TYPE_PULL_BIND) (sh_io sh1) = Inr (rc, c, i)"
      "if rc <s 0 then p = In_End \<and> sh_world sh' = world i
       else p = In_Connect c (chan_init (CStr DEFAULTS_ICHAN_NAME) CHAN_TYPE_PUSH_CONNECT) \<and> sh_world sh' = world i"
    by (auto simp: in_start_def res_simps Let_def split: if_splits dest!: log_lazy_world)
  have "moves live [] sh (if rc <s 0 then [] else [] @ [c]) sh' (if rc <s 0 then 1 else 0)"
    by (rule bind_moves [OF assms(1) st(2)])
      (use st(3) log_lazy_world [OF st(1)] in \<open>simp_all add: chan_init_def holds_def split: if_splits\<close>)
  with st(3) show ?thesis by (simp split: if_splits)
qed

lemma in_connect_sockets:
  assumes "sockets_documented e R live" "in_connect e c o' sh = Inr (p, sh')"
    and "holds live [c] ns sh" "chan_type o' = CHAN_TYPE_PUSH_CONNECT"
  shows "moves live ns sh (in_held p) sh' (in_loss (In_Connect c o') p)"
proof -
  from assms(2) obtain rc q i where st: "chan_bind e o' (sh_io sh) = Inr (rc, q, i)"
      "p = (if rc <s 0 then In_Connect c q else In_Loop c q)" "sh_world sh' = world i"
    by (auto simp: in_connect_def res_simps Let_def split: if_splits dest!: log_world)
  have "moves live ns sh (if rc <s 0 then [c] else [c] @ [q]) sh' (if rc <s 0 then 1 else 0)"
    by (rule bind_moves [OF assms(1) st(1) _ assms(3) refl st(3)]) (simp add: assms(4))
  with st(2) show ?thesis by (simp split: if_splits)
qed

lemma closing:
  assumes "sockets_documented e R live" "chan_destroy e c io = Inr i" "chan_destroy e q i = Inr j"
    and "sock c = Sock (Some n)" "sock q = Sock (Some k)"
  shows "live (world j) = live (world io) - {n, k}"
proof -
  from destroy_socket [OF assms(1,4), of io] assms(2) have "live (world i) = live (world io) - {n}" by auto
  moreover from destroy_socket [OF assms(1,5), of i] assms(3) have "live (world j) = live (world i) - {k}" by auto
  ultimately show ?thesis by auto
qed

text \<open>Closing both sockets of a thread, in either order.\<close>

lemma moves_destroyed:
  assumes "sockets_documented e R live" "holds live [c, q] ns sh" "sh_world sh1 = sh_world sh"
    and "chan_destroy e x (sh_io sh1) = Inr i" "chan_destroy e y i = Inr j" "(x, y) = (c, q) \<or> (x, y) = (q, c)"
    and "sh_world sh' = world j"
  shows "moves live ns sh [] sh' k"
proof (rule moves_closed)
  from assms(2) obtain n k where nk: "ns = [n, k]" "sock c = Sock (Some n)" "sock q = Sock (Some k)"
    by (auto simp: holds_def)
  from assms(6) have "live (world j) = live (world (sh_io sh1)) - {n, k}"
  proof
    assume "(x, y) = (c, q)"
    then show ?thesis using closing [OF assms(1,4,5)] nk by simp
  next
    assume "(x, y) = (q, c)"
    then show ?thesis using closing [OF assms(1,4,5)] nk by (simp add: insert_commute)
  qed
  with nk(1) assms(3,7) show "live (sh_world sh') = live (sh_world sh) - set ns" by simp
qed

lemma in_turn_sockets:
  assumes "sockets_documented e R live" "in_turn e c o' l sh = Inr (p, sh')" "holds live [c, o'] ns sh"
  shows "moves live ns sh (in_held p) sh' b"
proof (cases "WINEING_CTRL_CMD_SHUTDOWN <s w_cmd (in_data l)")
  case True
  with assms(2) obtain rc req i where r: "chan_recv e c (recv_ctrl e) Request_Clear (sh_io sh) = Inr (rc, req, i)"
      "p = (if 0 <s rc then In_Handle c o' req else In_Loop c o')" "sh_world sh' = world i"
    by (auto simp: in_turn_def res_simps Let_def)
  from recv_socket [OF assms(1) r(1) recv_ctrl_world] r(3) have "live (sh_world sh') = live (sh_world sh)" by simp
  from moves_same [OF assms(3) this] r(2) show ?thesis by simp
next
  case False
  with assms(2) obtain i j sh1 where d: "chan_destroy e c (sh_io sh) = Inr i" "chan_destroy e o' i = Inr j"
      "sh_log e LOG_INFO ''Shutting down control_in thread'' [] (sh\<lparr>sh_io := j\<rparr>) = Inr sh'" "p = In_End"
    by (auto simp: in_turn_def res_simps Let_def)
  from moves_destroyed [OF assms(1,3) refl d(1,2) _, of sh'] log_world [OF d(3)] d(4) show ?thesis by simp
qed

lemma reply_sockets:
  assumes "sockets_documented e R live" "cchan_in_reply e o' res sh = Inr sh'"
  shows "live (sh_world sh') = live (sh_world sh)"
proof -
  from assms(2) obtain rc i where s: "chan_send e o' (SerializeResponse e res)
      (length (SerializeResponse e res)) True (sh_io sh) = Inr (rc, i)" "sh_world sh' = world i"
    by (auto simp: cchan_in_reply_def res_simps Let_def split: if_splits dest!: log_world)
  from send_socket [OF assms(1) s(1)] s(2) show ?thesis by simp
qed

lemma in_step_sockets:
  assumes "sockets_documented e R live" "in_step e conf p l sh = Inr (p', l', sh')"
    and "holds live (in_held p) ns sh" "in_pc_inv p c g"
  shows "moves live ns sh (in_held p') sh' (in_loss p p')"
proof (cases p)
  case In_Start
  with assms(3) have "ns = []" by (simp add: holds_def)
  with In_Start assms(2) in_start_sockets [OF assms(1)] show ?thesis by (auto simp: in_step_def res_simps)
next
  case (In_Connect c o')
  with assms in_connect_sockets [OF assms(1), where c = c and o' = o' and ns = ns and sh = sh] show ?thesis
    by (auto simp: in_step_def res_simps push_chan_def)
next
  case (In_Loop c o')
  with assms(2) obtain "in_turn e c o' l sh = Inr (p', sh')" by (auto simp: in_step_def res_simps)
  from in_turn_sockets [OF assms(1) this] assms(3) In_Loop show ?thesis by simp
next
  case (In_Handle c o' req)
  with assms(2) obtain res f where sw: "cchan_in_switch e conf req l sh = Inr (res, f, l', sh')"
      "in_held p' = [c, o']"
    by (auto simp: in_step_def in_dispatch_def res_simps split: followup.split)
  from moves_same [OF assms(3), of sh'] switch_world [OF sw(1)] sw(2) In_Handle show ?thesis by simp
next
  case (In_Publish c o' r b)
  with assms(2) have "sh_io sh' = sh_io sh" "in_held p' = [c, o']"
    by (auto simp: in_step_def res_simps dest: publish_io)
  with moves_same [OF assms(3), of sh'] In_Publish show ?thesis by simp
next
  case (In_Signal c o' r)
  with assms(2) have "sh_io sh' = sh_io sh" "in_held p' = [c, o']"
    by (auto simp: in_step_def res_simps dest: signal_io)
  with moves_same [OF assms(3), of sh'] In_Signal show ?thesis by simp
next
  case (In_Reply c o' r)
  with assms(2) have "cchan_in_reply e o' r sh = Inr sh'" "in_held p' = [c, o']"
    by (auto simp: in_step_def res_simps)
  with moves_same [OF assms(3), of sh'] reply_sockets [OF assms(1)] In_Reply show ?thesis by simp
next
  case In_End
  with assms(2) show ?thesis by (simp add: in_step_def)
qed

subsection \<open>The response thread\<close>

lemma holds_none: "holds live [] [] sh"
  by (simp add: holds_def)

lemma passes_trans:
  assumes "passes L [] L1 ns1 0" "passes L1 ns1 L2 ns2 k"
  shows "passes L [] L2 ns2 k"
proof -
  have "L1 = L \<union> set ns1" "L \<inter> set ns1 = {}" using assms(1) by (auto simp: passes_def)
  with assms(2) show ?thesis by (auto simp: passes_def)
qed

lemma out_start_sockets:
  assumes "sockets_documented e R live" "out_start e conf sh = Inr (p, sh')"
  shows "moves live [] sh (out_held p) sh' (out_loss O_Start p)"
proof -
  from assms(2) obtain sh1 rc c i where st:
      "sh_log_lazy e LOG_INFO ''Initializing control_out thread (%s)'' (str_args (cchan_out_fqcn conf) []) sh = Inr sh1"
      "chan_bind e (chan_init (cchan_out_fqcn conf) CHAN_TYPE_PUB) (sh_io sh1) = Inr (rc, c, i)"
    by (auto simp: out_start_def res_simps Let_def)
  note w = log_lazy_world [OF st(1)]
  have b1: "moves live [] sh (if rc <s 0 then [] else [] @ [c]) (sh1\<lparr>sh_io := i\<rparr>) (if rc <s 0 then 1 else 0)"
    by (rule bind_moves [OF assms(1) st(2) _ holds_none]) (simp_all add: chan_init_def w)
  show ?thesis
  proof (cases "rc <s 0")
    case True
    with assms(2) st have "p = O_End" "sh_world sh' = world i"
      by (auto simp: out_start_def res_simps Let_def dest!: log_lazy_world)
    with moves_mono [OF b1, of 2] True show ?thesis by (simp add: moves_def)
  next
    case False
    with b1 obtain n where n: "sock c = Sock (Some n)" "passes (live (sh_world sh)) [] (live (world i)) [n] 0"
      by (auto simp: moves_def)
    let ?sh = "sh1\<lparr>sh_io := i\<rparr>"
    from False assms(2) st obtain rc2 q j where q:
        "chan_bind e (chan_init (CStr DEFAULTS_ICHAN_NAME) CHAN_TYPE_PULL_BIND) i = Inr (rc2, q, j)"
        "p = (if rc2 <s 0 then O_End else O_Loop c q)" "sh_world sh' = world j"
      by (auto simp: out_start_def res_simps Let_def split: if_splits dest!: log_world)
    have h: "holds live [c] [n] ?sh" using n by (simp add: holds_def passes_def)
    have b2: "moves live [n] ?sh (if rc2 <s 0 then [c] else [c] @ [q]) sh' (if rc2 <s 0 then 1 else 0)"
      by (rule bind_moves [OF assms(1) q(1) _ h]) (simp_all add: chan_init_def q(3))
    show ?thesis
    proof (cases "rc2 <s 0")
      case True
      from n(2) have l: "live (world i) = insert n (live (sh_world sh))" by (auto simp: passes_def)
      from True b2 obtain X where X: "finite X" "card X \<le> 1" "live (sh_world sh') \<subseteq> live (world i) \<union> {n} \<union> X"
          "live (world i) - {n} \<subseteq> live (sh_world sh')" "n \<in> live (sh_world sh')"
        by (auto simp: moves_def passes_def n(1))
      have "card (insert n X) \<le> 2" using X(1,2) by (simp add: card_insert_if)
      with moves_setback [OF holds_none, of live sh sh' "insert n X" 2] X l True q(2) show ?thesis by auto
    next
      case False
      with b2 obtain k where k: "sock q = Sock (Some k)"
          "passes (live (world i)) [n] (live (sh_world sh')) [n, k] 0"
        by (auto simp: moves_def n(1))
      from passes_trans [OF n(2) k(2)] k(1) n(1) False q(2) show ?thesis by (auto simp: moves_def)
    qed
  qed
qed

lemma out_step_sockets:
  assumes "sockets_documented e R live" "out_step e conf p l sh = Inr (p', l', sh')"
    and "holds live (out_held p) ns sh"
  shows "moves live ns sh (out_held p') sh' (out_loss p p')"
proof (cases p)
  case O_Start
  with assms(3) have "ns = []" by (simp add: holds_def)
  with O_Start assms(2) out_start_sockets [OF assms(1)] show ?thesis by (auto simp: out_step_def res_simps)
next
  case (O_Loop c q)
  with assms(2) have "sh_io sh' = sh_io sh" "out_held p' = [c, q]"
    by (auto simp: out_step_def out_read_def res_simps dest: read_io)
  with moves_same [OF assms(3), of sh'] O_Loop show ?thesis by simp
next
  case (O_Test c q)
  show ?thesis
  proof (cases "WINEING_CTRL_CMD_SHUTDOWN = w_cmd (out_data l)")
    case True
    with O_Test assms(2) obtain i j where d: "chan_destroy e q (sh_io sh) = Inr i" "chan_destroy e c i = Inr j"
        "sh_log e LOG_INFO ''Shutting down control_out thread'' [] (sh\<lparr>sh_io := j\<rparr>) = Inr sh'" "p' = O_End"
      by (auto simp: out_step_def out_test_def res_simps)
    from moves_destroyed [OF assms(1) assms(3) [unfolded O_Test out_held.simps] refl d(1,2) _, of sh'] log_world [OF d(3)] d(4)
    show ?thesis by simp
  next
    case False
    with O_Test assms(2) have "sh' = sh" "p' = O_Recv c q" by (auto simp: out_step_def out_test_def res_simps)
    with moves_same [OF assms(3), of sh'] O_Test show ?thesis by simp
  qed
next
  case (O_Recv c q)
  with assms(2) obtain read buf i where r:
      "chan_recv e q cchan_in_mem_copy (replicate OUT_BUFFER_SIZE NUL) (sh_io sh) = Inr (read, buf, i)"
      "sh_world sh' = world i" "out_held p' = [c, q]"
    by (auto simp: out_step_def out_recv_def res_simps Let_def split: if_splits dest!: log_world)
  from recv_socket [OF assms(1) r(1)] have "live (world i) = live (sh_world sh)"
    by (auto dest: mem_copy_world)
  with moves_same [OF assms(3), of sh'] r(2,3) O_Recv show ?thesis by simp
next
  case (O_Send c q buf n)
  with assms(2) obtain rc i where r: "chan_send e c buf (size_t_of_int n) True (sh_io sh) = Inr (rc, i)"
      "sh_world sh' = world i" "out_held p' = [c, q]"
    by (auto simp: out_step_def out_send_def res_simps Let_def split: if_splits dest!: log_world)
  with moves_same [OF assms(3), of sh'] send_socket [OF assms(1) r(1)] O_Send show ?thesis by simp
next
  case O_End
  with assms(2) show ?thesis by (simp add: out_step_def)
qed

subsection \<open>The market thread\<close>

lemma market_start_sockets:
  assumes "sockets_documented e R live" "market_start e conf sh = Inr (p, sh')"
  shows "moves live [] sh (mk_held p) sh' (mk_loss M_Start p)"
proof -
  from assms(2) obtain sh1 rc c i where st:
      "sh_log_lazy e LOG_INFO ''Initializing market data thread (%s)'' (str_args (mchan_fqcn conf) []) sh = Inr sh1"
      "chan_bind e (chan_init (mchan_fqcn conf) CHAN_TYPE_PUB) (sh_io sh1) = Inr (rc, c, i)"
      "if rc <s 0 then p = M_End \<and> sh_world sh' = world i
       else p = M_Connect c (chan_init (CStr DEFAULTS_ICHAN_NAME) CHAN_TYPE_PUSH_CONNECT) \<and> sh_world sh' = world i"
    by (auto simp: market_start_def res_simps Let_def split: if_splits dest!: log_lazy_world)
  have "moves live [] sh (if rc <s 0 then [] else [] @ [c]) sh' (if rc <s 0 then 1 else 0)"
    by (rule bind_moves [OF assms(1) st(2) _ holds_none])
      (use st(3) log_lazy_world [OF st(1)] in \<open>simp_all add: chan_init_def split: if_splits\<close>)
  with st(3) show ?thesis by (simp split: if_splits)
qed

lemma market_connect_sockets:
  assumes "sockets_documented e R live" "market_connect e c o' l sh = Inr (p, l', sh')"
    and "holds live [c] ns sh" "chan_type o' = CHAN_TYPE_PUSH_CONNECT"
  shows "moves live ns sh (mk_held p) sh' (mk_loss (M_Connect c o') p) \<and> mk_link p (mk_nx l')"
proof -
  from assms(2) obtain rc q i where st: "chan_bind e o' (sh_io sh) = Inr (rc, q, i)"
      "p = (if rc <s 0 then M_Connect c q else M_Loop c q)" "sh_world sh' = world i"
      "rc <s 0 \<or> l' = l\<lparr>mk_nx := nxtape_init q c (mk_nx l)\<rparr>"
    by (auto simp: market_connect_def res_simps Let_def split: if_splits)
  have "moves live ns sh (if rc <s 0 then [c] else [c] @ [q]) sh' (if rc <s 0 then 1 else 0)"
    by (rule bind_moves [OF assms(1) st(1) _ assms(3) refl st(3)]) (simp add: assms(4))
  with st(2,4) show ?thesis by (auto simp: mk_link_def nxtape_init_def split: if_splits)
qed

lemma market_act_sockets:
  assumes "sockets_documented e R live" "market_act e c o' t sh = Inr (p, sh')" "holds live [c, o'] ns sh"
  shows "moves live ns sh (mk_held p) sh' b \<and>
    (p = M_End \<or> p = M_Loop c o' \<or> (\<exists>buf. p = M_Nx c o' buf))"
proof (cases "w_cmd t = WINEING_CTRL_CMD_SHUTDOWN")
  case True
  with assms(2) obtain sh1 i j where d: "sh_log e LOG_INFO ''Shutting down market data thread'' [] sh = Inr sh1"
      "chan_destroy e c (sh_io sh1) = Inr i" "chan_destroy e o' i = Inr j" "p = M_End" "sh_world sh' = world j"
    by (auto simp: market_act_def res_simps ctrl_cmds)
  from moves_destroyed [OF assms(1,3) log_world [OF d(1)] d(2,3) _ d(5)] d(4) show ?thesis by simp
next
  case False
  with assms(2) have "sh_world sh' = sh_world sh" "p = M_Loop c o' \<or> (\<exists>buf. p = M_Nx c o' buf)"
    by (auto simp: market_act_def res_simps split: if_splits
        dest!: log_world log_running_world nxcore_run_world)
  with moves_same [OF assms(3), of sh'] show ?thesis by auto
qed

lemma market_step_sockets:
  assumes "sockets_documented e R live" "market_step e conf p l sh = Inr (p', l', sh')"
    and "holds live (mk_held p) ns sh" "mk_pc_inv p n" "mk_link p (mk_nx l)"
  shows "moves live ns sh (mk_held p') sh' (mk_loss p p') \<and> mk_link p' (mk_nx l')"
proof (cases p)
  case M_Start
  with assms(3) have "ns = []" by (simp add: holds_def)
  from M_Start assms(2) have st: "market_start e conf sh = Inr (p', sh')" by (auto simp: market_step_def res_simps)
  then have "mk_link p' (mk_nx l')"
    by (auto simp: market_start_def mk_link_def res_simps Let_def split: if_splits)
  with market_start_sockets [OF assms(1) st] \<open>ns = []\<close> M_Start show ?thesis by simp
next
  case (M_Connect c o')
  with assms market_connect_sockets [OF assms(1), where c = c and o' = o' and ns = ns and sh = sh] show ?thesis
    by (auto simp: market_step_def push_chan_def)
next
  case (M_Loop c o')
  with assms(2) have "sh_io sh' = sh_io sh" "p' = M_Test c o'" "mk_nx l' = mk_nx l"
    by (auto simp: market_step_def market_read_def res_simps dest: read_io)
  with moves_same [OF assms(3), of sh'] M_Loop assms(5) show ?thesis by (simp add: mk_link_def)
next
  case (M_Test c o')
  with assms(2) have "market_act e c o' (mk_data l) sh = Inr (p', sh')" "l' = l"
    by (auto simp: market_step_def res_simps)
  moreover from market_act_sockets [OF assms(1) this(1)] assms(3) M_Test have
    "moves live ns sh (mk_held p') sh' (mk_loss p p')"
    "p' = M_End \<or> p' = M_Loop c o' \<or> (\<exists>buf. p' = M_Nx c o' buf)" by simp_all
  ultimately show ?thesis using assms(5) M_Test by (auto simp: mk_link_def)
qed (use assms(2) in \<open>simp_all add: market_step_def\<close>)

lemma callback_sockets:
  assumes "sockets_documented e R live" "callback_handle e mt l sh = Inr (ret, sh')"
  shows "live (sh_world sh') = live (sh_world sh)"
proof (cases mt)
  case NxMSG_STATUS
  with assms(2) obtain c rc i where s: "chan_send e c (SerializeMarketData e (MarketData_Clear\<lparr>md_type := Some STATUS\<rparr>))
      (length (SerializeMarketData e (MarketData_Clear\<lparr>md_type := Some STATUS\<rparr>))) False (sh_io sh) = Inr (rc, i)"
      "sh_world sh' = world i"
    by (auto simp: callback_handle_def nxtape_handle_def nxtape_send_status_def res_simps Let_def split: option.splits)
  from send_socket [OF assms(1) s(1)] s(2) show ?thesis by simp
next
  case NxMSG_OTHER
  with assms(2) show ?thesis by (auto simp: callback_handle_def nxtape_handle_def res_simps)
qed

subsection \<open>The program\<close>

definition held_chans :: "'w sys \<Rightarrow> chan list" where
  "held_chans s = in_held (in_at s) @ out_held (out_at s) @ mk_held (mk_at s)"

abbreviation open_sockets :: "('w \<Rightarrow> nat set) \<Rightarrow> 'w sys \<Rightarrow> nat set" where
  "open_sockets live s \<equiv> live (sh_world (sys_sh s))"

fun sockets_lost :: "action \<Rightarrow> 'w sys \<Rightarrow> 'w sys \<Rightarrow> nat" where
  "sockets_lost Act_In s s' = in_loss (in_at s) (in_at s')"
| "sockets_lost Act_Out s s' = out_loss (out_at s) (out_at s')"
| "sockets_lost Act_Market s s' = mk_loss (mk_at s) (mk_at s')"
| "sockets_lost _ s s' = 0"

lemma on_sockets_append:
  "on_sockets (xs @ ys) ns \<longleftrightarrow> (\<exists>n1 n2. ns = n1 @ n2 \<and> on_sockets xs n1 \<and> on_sockets ys n2)"
proof (induction xs arbitrary: ns)
  case (Cons x xs)
  then show ?case by (cases ns) (auto simp: Cons_eq_append_conv)
qed simp

text \<open>Every socket a thread holds is open, and no two are the same.\<close>

definition sockets_ok :: "('w \<Rightarrow> nat set) \<Rightarrow> 'w sys \<Rightarrow> nat list \<Rightarrow> bool" where
  "sockets_ok live s ns \<longleftrightarrow> on_sockets (held_chans s) ns \<and> distinct ns \<and> set ns \<subseteq> open_sockets live s \<and>
     mk_link (mk_at s) (mk_nx (mk_vars s))"

text \<open>One thread moves, with \<open>xs\<close> and \<open>ys\<close> the sockets of the others.\<close>

lemma passes_among:
  assumes "passes L ns L' ns' k" "distinct (xs @ ns @ ys)" "set (xs @ ns @ ys) \<subseteq> L"
  shows "distinct (xs @ ns' @ ys) \<and> set (xs @ ns' @ ys) \<subseteq> L'"
    and "L - set (xs @ ns @ ys) \<subseteq> L' - set (xs @ ns' @ ys)"
    and "finite L \<Longrightarrow> finite L' \<and> card (L' - set (xs @ ns' @ ys)) \<le> card (L - set (xs @ ns @ ys)) + k"
proof -
  show "distinct (xs @ ns' @ ys) \<and> set (xs @ ns' @ ys) \<subseteq> L'"
    "L - set (xs @ ns @ ys) \<subseteq> L' - set (xs @ ns' @ ys)"
    using assms unfolding passes_def by auto
  assume L: "finite L"
  from assms(1) obtain X where X: "finite X" "card X \<le> k" "L' \<subseteq> (L - set ns) \<union> set ns' \<union> X"
    by (auto simp: passes_def)
  let ?M = "L - set (xs @ ns @ ys)"
  have "card (L' - set (xs @ ns' @ ys)) \<le> card (?M \<union> X)"
    using X(1,3) L by (intro card_mono) auto
  also have "\<dots> \<le> card ?M + k" using X(2) card_Un_le [of ?M X] by linarith
  finally show "finite L' \<and> card (L' - set (xs @ ns' @ ys)) \<le> card ?M + k"
    using finite_subset [OF X(3)] X(1) L by simp
qed

text \<open>The open sockets that no thread holds.\<close>

abbreviation unheld :: "('w \<Rightarrow> nat set) \<Rightarrow> 'w shared \<Rightarrow> nat list \<Rightarrow> nat set" where
  "unheld live sh ns \<equiv> live (sh_world sh) - set ns"

lemma moves_among:
  assumes "holds live cs ns sh \<Longrightarrow> moves live ns sh cs' sh' k"
    and "on_sockets cs ns" "on_sockets us xs" "on_sockets vs ys"
    and "distinct (xs @ ns @ ys)" "set (xs @ ns @ ys) \<subseteq> live (sh_world sh)"
  shows "\<exists>ns'. on_sockets (us @ cs' @ vs) ns' \<and> distinct ns' \<and> set ns' \<subseteq> live (sh_world sh') \<and>
    unheld live sh (xs @ ns @ ys) \<subseteq> unheld live sh' ns' \<and>
    (finite (live (sh_world sh)) \<longrightarrow> finite (live (sh_world sh')) \<and>
       card (unheld live sh' ns') \<le> card (unheld live sh (xs @ ns @ ys)) + k)"
proof -
  have "holds live cs ns sh" using assms(2,5,6) by (simp add: holds_def)
  from assms(1) [OF this] obtain ns' where
    ns': "on_sockets cs' ns'" "passes (live (sh_world sh)) ns (live (sh_world sh')) ns' k"
    by (auto simp: moves_def)
  have "on_sockets (us @ cs' @ vs) (xs @ ns' @ ys)"
    using ns'(1) assms(3,4) by (auto simp: on_sockets_append)
  with passes_among [OF ns'(2) assms(5,6)] show ?thesis by (intro exI [of _ "xs @ ns' @ ys"]) blast
qed

lemma sockets_step:
  assumes "sockets_documented e R live" "sys_step e conf R s a s'" "sys_inv s" "sockets_ok live s ns"
  shows "\<exists>ns'. sockets_ok live s' ns' \<and> unheld live (sys_sh s) ns \<subseteq> unheld live (sys_sh s') ns' \<and>
    (finite (open_sockets live s) \<longrightarrow> finite (open_sockets live s') \<and>
       card (unheld live (sys_sh s') ns') \<le> card (unheld live (sys_sh s) ns) + sockets_lost a s s')"
proof -
  from assms(4) obtain ni no nm where n: "ns = ni @ no @ nm" "on_sockets (in_held (in_at s)) ni"
      "on_sockets (out_held (out_at s)) no" "on_sockets (mk_held (mk_at s)) nm"
    by (auto simp: sockets_ok_def held_chans_def on_sockets_append)
  have d: "distinct (ni @ no @ nm)" "set (ni @ no @ nm) \<subseteq> open_sockets live s"
    and link: "mk_link (mk_at s) (mk_nx (mk_vars s))"
    using assms(4) n(1) by (simp_all add: sockets_ok_def)
  have none: "on_sockets [] []" by simp
  from assms(2) show ?thesis
  proof cases
    case (step_in p l sh)
    have "holds live (in_held (in_at s)) ni (sys_sh s) \<Longrightarrow>
        moves live ni (sys_sh s) (in_held p) sh (in_loss (in_at s) p)"
      using in_step_sockets [OF assms(1) step_in(3)] assms(3) by (auto simp: sys_inv_def Let_def)
    from moves_among [where xs = "[]" and us = "[]" and ys = "no @ nm" and vs = "out_held (out_at s) @ mk_held (mk_at s)", OF this n(2)]
      d n link step_in(1,2) show ?thesis
      by (auto simp: sockets_ok_def held_chans_def on_sockets_append)
  next
    case (step_out p l sh)
    have "holds live (out_held (out_at s)) no (sys_sh s) \<Longrightarrow>
        moves live no (sys_sh s) (out_held p) sh (out_loss (out_at s) p)"
      using out_step_sockets [OF assms(1) step_out(3)] by blast
    from moves_among [where xs = ni and us = "in_held (in_at s)" and ys = nm and vs = "mk_held (mk_at s)", OF this n(3,2,4)]
      d n link step_out(1,2) show ?thesis
      by (auto simp: sockets_ok_def held_chans_def)
  next
    case (step_market p l sh)
    have m: "holds live (mk_held (mk_at s)) nm (sys_sh s) \<Longrightarrow>
        moves live nm (sys_sh s) (mk_held p) sh (mk_loss (mk_at s) p) \<and> mk_link p (mk_nx l)"
      using market_step_sockets [OF assms(1) step_market(3) _ _ link] assms(3) by (auto simp: sys_inv_def Let_def)
    then have link': "mk_link p (mk_nx l)" using n(4) d by (auto simp: holds_def)
    from moves_among [where xs = "ni @ no" and us = "in_held (in_at s) @ out_held (out_at s)" and ys = "[]" and vs = "[]",
        OF conjunct1 [OF m] n(4)]
      d n link' step_market(1,2) show ?thesis
      by (auto simp: sockets_ok_def held_chans_def on_sockets_append)
  next
    case (step_callback c o' b l sh mt)
    with callback_read_link [OF step_callback(4)] assms(4) show ?thesis
      by (intro exI [of _ ns]) (auto simp: sockets_ok_def held_chans_def mk_link_def)
  next
    case (step_answer c o' b mt ret sh)
    with callback_sockets [OF assms(1) step_answer(4)] assms(4) show ?thesis
      by (intro exI [of _ ns]) (auto simp: sockets_ok_def held_chans_def mk_link_def)
  next
    case (step_return c o' b)
    with assms(4) show ?thesis
      by (intro exI [of _ ns]) (auto simp: sockets_ok_def held_chans_def mk_link_def)
  next
    case (step_world w)
    with assms(1) have "live w = open_sockets live s" by (simp add: sockets_documented_def)
    with step_world assms(4) show ?thesis
      by (intro exI [of _ ns]) (auto simp: sockets_ok_def held_chans_def)
  qed
qed

end
