(* ===== verification/Socket_Safety.thy ===== *)
theory Socket_Safety
  imports Socket_Use
begin

text \<open>
  No thread ever uses a socket that is closed or was never created; and which sockets are still
  open when the threads have ended (\<open>zmq_term\<close> waits for all of them).
\<close>

subsection \<open>Only open sockets are used\<close>

text \<open>
  An environment that treats open sockets like \<open>e\<close>, and all others in any way: like \<open>x\<close>.
\<close>

definition patched :: "('w \<Rightarrow> nat set) \<Rightarrow> 'w env \<Rightarrow> 'w env \<Rightarrow> 'w env" where
  "patched live e x = e\<lparr>
     zmq_bind := (\<lambda>s n w. zmq_bind (if s \<in> Some ` live w then e else x) s n w),
     zmq_connect := (\<lambda>s n w. zmq_connect (if s \<in> Some ` live w then e else x) s n w),
     zmq_setsockopt := (\<lambda>s v n w. zmq_setsockopt (if s \<in> Some ` live w then e else x) s v n w),
     zmq_recv := (\<lambda>s w. zmq_recv (if s \<in> Some ` live w then e else x) s w),
     zmq_send := (\<lambda>s d f w. zmq_send (if s \<in> Some ` live w then e else x) s d f w),
     zmq_close := (\<lambda>s w. zmq_close (if s \<in> Some ` live w then e else x) s w)\<rparr>"

lemma patched_fields [simp]:
  "LOG_LEVEL (patched live e x) = LOG_LEVEL e" "zmq_socket (patched live e x) = zmq_socket e"
  "zmq_strerror (patched live e x) = zmq_strerror e" "ParseRequest (patched live e x) = ParseRequest e"
  "SerializeResponse (patched live e x) = SerializeResponse e"
  "SerializeMarketData (patched live e x) = SerializeMarketData e"
  "GetProcAddress (patched live e x) = GetProcAddress e"
  "GetFileAttributes (patched live e x) = GetFileAttributes e"
  "INVALID_FILE_ATTRIBUTES (patched live e x) = INVALID_FILE_ATTRIBUTES e"
  "FILE_ATTRIBUTE_DIRECTORY (patched live e x) = FILE_ATTRIBUTE_DIRECTORY e"
  by (simp_all add: patched_def)

lemma patched_open:
  "n \<in> live w \<Longrightarrow> zmq_bind (patched live e x) (Some n) nm w = zmq_bind e (Some n) nm w"
  "n \<in> live w \<Longrightarrow> zmq_connect (patched live e x) (Some n) nm w = zmq_connect e (Some n) nm w"
  "n \<in> live w \<Longrightarrow> zmq_recv (patched live e x) (Some n) w = zmq_recv e (Some n) w"
  "n \<in> live w \<Longrightarrow> zmq_send (patched live e x) (Some n) d f w = zmq_send e (Some n) d f w"
  "n \<in> live w \<Longrightarrow> zmq_close (patched live e x) (Some n) w = zmq_close e (Some n) w"
  by (simp_all add: patched_def)

lemma patched_log [simp]:
  "log (patched live e x) = log e" "sh_log (patched live e x) = sh_log e"
  "sh_log_lazy (patched live e x) = sh_log_lazy e" "chan_error (patched live e x) = chan_error e"
  "wininf_file_exists (patched live e x) = wininf_file_exists e"
  "wininf_nxcore_run (patched live e x) = wininf_nxcore_run e"
  "log_running (patched live e x) = log_running e"
  by (simp_all add: log_def sh_log_def sh_log_lazy_def chan_error_def wininf_file_exists_def
      wininf_nxcore_run_def log_running_def fun_eq_iff)

lemma patched_bind:
  assumes "sockets_documented e R live" "chan_type c \<noteq> CHAN_TYPE_SUB"
  shows "chan_bind (patched live e x) c io = chan_bind e c io"
proof -
  obtain s w where s: "zmq_socket e (to_zmq_type (chan_type c)) (world io) = (s, w)" by (metis surj_pair)
  show ?thesis
  proof (cases s)
    case None
    with s show ?thesis by (simp add: chan_bind_no_socket)
  next
    case (Some n)
    with documented_new [OF assms(1) s] have "n \<in> live w" by simp
    with s Some assms(2) show ?thesis
      by (simp add: chan_bind_def on_world_def patched_open Let_def)
  qed
qed

lemma patched_io:
  "sock c = Sock (Some n) \<Longrightarrow> n \<in> live (world io) \<Longrightarrow>
     chan_send (patched live e x) c b k f io = chan_send e c b k f io"
  "sock c = Sock (Some n) \<Longrightarrow> n \<in> live (world io) \<Longrightarrow>
     chan_recv (patched live e x) c fn obj io = chan_recv e c fn obj io"
  "sock c = Sock (Some n) \<Longrightarrow> n \<in> live (world io) \<Longrightarrow>
     chan_destroy (patched live e x) c io = chan_destroy e c io"
  by (simp_all add: chan_send_def chan_recv_def chan_destroy_def chan_sock_def on_world_def patched_open)

lemma patched_close_both:
  assumes "sockets_documented e R live" "sock c = Sock (Some n)" "sock q = Sock (Some k)" "n \<noteq> k"
    and "{n, k} \<subseteq> live (world io)"
  shows "res_bind (chan_destroy (patched live e x) c io) (\<lambda>i. res_bind (chan_destroy (patched live e x) q i) f) =
    res_bind (chan_destroy e c io) (\<lambda>i. res_bind (chan_destroy e q i) f)"
proof -
  obtain i where i: "chan_destroy e c io = Inr i" "live (world i) = live (world io) - {n}"
    using destroy_socket [OF assms(1,2)] by blast
  then have "k \<in> live (world i)" using assms(4,5) by auto
  with i(1) assms(2,3,5) show ?thesis by (simp add: patched_io)
qed

lemma patched_in_step:
  assumes "sockets_documented e R live" "holds live (in_held p) ns sh" "in_pc_inv p c g"
  shows "in_step (patched live e x) conf p l sh = in_step e conf p l sh"
proof (cases p)
  case In_Start
  with patched_bind [OF assms(1)] show ?thesis
    by (simp add: in_step_def in_start_def Let_def chan_init_def chan_types cong: if_cong option.case_cong)
next
  case (In_Connect c o')
  with patched_bind [OF assms(1), of o'] assms(3) show ?thesis
    by (simp add: in_step_def in_connect_def Let_def push_chan_def chan_types cong: if_cong option.case_cong)
next
  case (In_Loop c o')
  with assms(2) obtain n k where nk: "sock c = Sock (Some n)" "sock o' = Sock (Some k)" "n \<noteq> k"
      "{n, k} \<subseteq> live (sh_world sh)"
    by (auto simp: holds_def)
  have "recv_ctrl (patched live e x) = recv_ctrl e" by (simp add: recv_ctrl_def fun_eq_iff cong: option.case_cong)
  with In_Loop nk patched_close_both [OF assms(1) nk, where f = "\<lambda>i. res_bind (sh_log e LOG_INFO ''Shutting down control_in thread'' [] (sh\<lparr>sh_io := i\<rparr>)) (\<lambda>sh. Inr (In_End, sh))"]
  show ?thesis by (simp add: in_step_def in_turn_def Let_def patched_io cong: if_cong option.case_cong)
next
  case (In_Handle c o' req)
  have "handle_market_start (patched live e x) = handle_market_start e"
    by (simp add: handle_market_start_def Let_def fun_eq_iff cong: if_cong option.case_cong)
  with In_Handle show ?thesis by (simp only: in_step_def in_dispatch_def cchan_in_switch_def in_pc.case)
next
  case (In_Reply c o' r)
  with assms(2) obtain k where "sock o' = Sock (Some k)" "k \<in> live (sh_world sh)" by (auto simp: holds_def)
  with In_Reply show ?thesis by (simp add: in_step_def cchan_in_reply_def Let_def patched_io cong: if_cong option.case_cong)
qed (simp_all add: in_step_def)

lemma patched_out_step:
  assumes "sockets_documented e R live" "holds live (out_held p) ns sh"
  shows "out_step (patched live e x) conf p l sh = out_step e conf p l sh"
proof (cases p)
  case O_Start
  with patched_bind [OF assms(1)] show ?thesis
    by (simp add: out_step_def out_start_def Let_def chan_init_def chan_types cong: if_cong option.case_cong)
next
  case (O_Test c q)
  with assms(2) obtain n k where nk: "sock q = Sock (Some n)" "sock c = Sock (Some k)" "n \<noteq> k"
      "{n, k} \<subseteq> live (sh_world sh)"
    by (auto simp: holds_def)
  with O_Test patched_close_both [OF assms(1) nk, where f = "\<lambda>i. res_bind (sh_log e LOG_INFO ''Shutting down control_out thread'' [] (sh\<lparr>sh_io := i\<rparr>)) (\<lambda>sh. Inr (O_End, sh))"]
  show ?thesis by (simp add: out_step_def out_test_def cong: if_cong option.case_cong)
next
  case (O_Recv c q)
  with assms(2) obtain k where "sock q = Sock (Some k)" "k \<in> live (sh_world sh)" by (auto simp: holds_def)
  with O_Recv show ?thesis by (simp add: out_step_def out_recv_def Let_def patched_io cong: if_cong option.case_cong)
next
  case (O_Send c q b n)
  with assms(2) obtain k where "sock c = Sock (Some k)" "k \<in> live (sh_world sh)" by (auto simp: holds_def)
  with O_Send show ?thesis by (simp add: out_step_def out_send_def Let_def patched_io cong: if_cong option.case_cong)
qed (simp_all add: out_step_def)

lemma patched_market_step:
  assumes "sockets_documented e R live" "holds live (mk_held p) ns sh" "mk_pc_inv p m"
  shows "market_step (patched live e x) conf p l sh = market_step e conf p l sh"
proof (cases p)
  case M_Start
  with patched_bind [OF assms(1)] show ?thesis
    by (simp add: market_step_def market_start_def Let_def chan_init_def chan_types cong: if_cong option.case_cong)
next
  case (M_Connect c o')
  with patched_bind [OF assms(1), of o'] assms(3) show ?thesis
    by (simp add: market_step_def market_connect_def Let_def push_chan_def chan_types cong: if_cong option.case_cong)
next
  case (M_Test c o')
  with assms(2) obtain n k where nk: "sock c = Sock (Some n)" "sock o' = Sock (Some k)" "n \<noteq> k"
      "{n, k} \<subseteq> live (sh_world sh)"
    by (auto simp: holds_def)
  have "res_bind (chan_destroy (patched live e x) c (sh_io sh1)) (\<lambda>i. res_bind (chan_destroy (patched live e x) o' i)
        (\<lambda>i. Inr (M_End, sh1\<lparr>sh_io := i\<rparr>))) =
      res_bind (chan_destroy e c (sh_io sh1)) (\<lambda>i. res_bind (chan_destroy e o' i) (\<lambda>i. Inr (M_End, sh1\<lparr>sh_io := i\<rparr>)))"
    if "sh_world sh1 = sh_world sh" for sh1
    by (rule patched_close_both [OF assms(1) nk(1-3)]) (use nk(4) in \<open>simp add: that\<close>)
  moreover have "\<exists>sh1. sh_log e LOG_INFO ''Shutting down market data thread'' [] sh = Inr sh1 \<and> sh_world sh1 = sh_world sh"
    by (simp add: sh_log_plain)
  ultimately show ?thesis using M_Test by (auto simp: market_step_def market_act_def cong: if_cong option.case_cong)
qed (simp_all add: market_step_def)

lemma patched_callback:
  assumes "g_mchan (mk_nx l) = Some c" "sock c = Sock (Some n)" "n \<in> live (sh_world sh)"
  shows "callback_handle (patched live e x) mt l sh = callback_handle e mt l sh"
  using assms
  by (simp add: callback_handle_def nxtape_handle_def nxtape_send_status_def patched_io Let_def
      cong: NxMessageType.case_cong)

lemma patched_step:
  assumes "sockets_documented e R live" "sys_inv s" "sockets_ok live s ns"
  shows "sys_step (patched live e x) conf R s a s' \<longleftrightarrow> sys_step e conf R s a s'"
proof -
  from assms(3) obtain ni no nm where h: "holds live (in_held (in_at s)) ni (sys_sh s)"
      "holds live (out_held (out_at s)) no (sys_sh s)" "holds live (mk_held (mk_at s)) nm (sys_sh s)"
    by (auto simp: sockets_ok_def held_chans_def on_sockets_append holds_def)
  from assms(2) obtain c g m where pc: "in_pc_inv (in_at s) c g" "mk_pc_inv (mk_at s) m"
    by (auto simp: sys_inv_def Let_def)
  note eqs = patched_in_step [OF assms(1) h(1) pc(1), of x conf] patched_out_step [OF assms(1) h(2), of x conf]
    patched_market_step [OF assms(1) h(3) pc(2), of x conf]
  have cb: "callback_handle (patched live e x) mt (mk_vars s) (sys_sh s) = callback_handle e mt (mk_vars s) (sys_sh s)"
    if "mk_at s = M_Callback c o' b mt" for c o' b mt
  proof -
    from h(3) that obtain n where "sock c = Sock (Some n)" "n \<in> live (sh_world (sys_sh s))" by (auto simp: holds_def)
    moreover have "g_mchan (mk_nx (mk_vars s)) = Some c" using assms(3) that by (simp add: sockets_ok_def mk_link_def)
    ultimately show ?thesis by (intro patched_callback)
  qed
  show ?thesis
  proof
    assume "sys_step (patched live e x) conf R s a s'"
    then show "sys_step e conf R s a s'"
      by cases (auto simp: eqs cb intro: sys_step.intros)
  next
    assume "sys_step e conf R s a s'"
    then show "sys_step (patched live e x) conf R s a s'"
      by cases (auto simp: eqs cb intro: sys_step.intros)
  qed
qed

subsection \<open>Properties\<close>

lemma sockets_start: "sockets_ok live (threads_start b sh) []"
  by (simp add: sockets_ok_def held_chans_def threads_start_def sys_start_def mk_link_def)

lemma program_sockets:
  assumes "sys_run e conf R s0 rs s" "sys_inv s0" "sockets_ok live s0 ns0" "sockets_documented e R live" "recv_codes e"
  shows "\<exists>ns. sys_inv s \<and> sockets_ok live s ns"
  using assms(1-3)
proof (induction rule: sys_run.induct)
  case (run_step s rs s' a s'')
  then obtain ns where "sys_inv s'" "sockets_ok live s' ns" by blast
  with sockets_step [OF assms(4) run_step.hyps(2)] sys_inv_step [OF assms(5)] run_step.hyps(2)
  show ?case by blast
qed blast

text \<open>
  C14. No thread ever uses a socket that is closed, or that it does not have: at any point of a run
  the sockets at the threads' program points are open and different from each other, and the
  next step of the program does not depend on what ZeroMQ does when it is given any other socket
  (or the null pointer) to bind, connect, send to, receive from or close.
\<close>
theorem only_open_sockets_used:
  assumes "program_state e conf R b io rs s" "sockets_documented e R live" "buffers_ok b" "recv_codes e"
  shows "(\<exists>ns. map sock (held_chans s) = map (\<lambda>n. Sock (Some n)) ns \<and> distinct ns \<and> set ns \<subseteq> open_sockets live s) \<and>
    (\<forall>x a s'. sys_step (patched live e x) conf R s a s' \<longleftrightarrow> sys_step e conf R s a s')"
proof -
  from assms(1) obtain sh where sh: "wineing_init e (shared_static b io) = Inr (Continue (), sh)"
      "sys_run e conf R (threads_start b sh) rs s" by (auto elim: program_state.cases)
  from program_sockets [OF sh(2) threads_start_inv [OF assms(3) sh(1)] sockets_start assms(2,4)]
  obtain ns where ns: "sys_inv s" "sockets_ok live s ns" by blast
  from ns(2) have "map sock (held_chans s) = map (\<lambda>n. Sock (Some n)) ns \<and> distinct ns \<and> set ns \<subseteq> open_sockets live s"
    by (simp add: sockets_ok_def on_sockets_def)
  with patched_step [OF assms(2) ns] show ?thesis by blast
qed

text \<open>A run, with the number of sockets that its failed starts and connects can lose.\<close>

inductive losing_run :: "'w env \<Rightarrow> w_conf \<Rightarrow> ('w \<Rightarrow> 'w \<Rightarrow> bool) \<Rightarrow> 'w sys \<Rightarrow> nat \<Rightarrow> 'w sys \<Rightarrow> bool"
  for e conf R s0 where
  losing_refl: "losing_run e conf R s0 0 s0"
| losing_next: "losing_run e conf R s0 k s \<Longrightarrow> sys_step e conf R s a s' \<Longrightarrow>
    losing_run e conf R s0 (k + sockets_lost a s s') s'"

lemma losing_sockets:
  assumes "losing_run e conf R s0 k s" "sys_inv s0" "sockets_ok live s0 []" "open_sockets live s0 = {}"
    and "sockets_documented e R live" "recv_codes e"
  shows "\<exists>ns. sys_inv s \<and> sockets_ok live s ns \<and> finite (open_sockets live s) \<and>
    card (unheld live (sys_sh s) ns) \<le> k"
  using assms(1-4)
proof (induction rule: losing_run.induct)
  case losing_refl
  then show ?case by (intro exI [of _ "[]"]) simp
next
  case (losing_next k s a s')
  then obtain ns where ns: "sys_inv s" "sockets_ok live s ns" "finite (open_sockets live s)"
      "card (unheld live (sys_sh s) ns) \<le> k" by blast
  from sockets_step [OF assms(5) losing_next.hyps(2) ns(1,2)] ns(3) obtain ns' where
    ns': "sockets_ok live s' ns'" "finite (open_sockets live s')"
      "card (unheld live (sys_sh s') ns') \<le> card (unheld live (sys_sh s) ns) + sockets_lost a s s'"
    by blast
  have "sys_inv s'" using sys_inv_step [OF assms(6) ns(1) losing_next.hyps(2)] by (rule conjunct1)
  moreover have "card (unheld live (sys_sh s') ns') \<le> k + sockets_lost a s s'"
    using ns'(3) ns(4) by linarith
  ultimately show ?case using ns'(1,2) by (intro exI [of _ ns'] conjI)
qed

lemma joined_holds_none: "all_joined s \<Longrightarrow> held_chans s = []"
  by (simp add: all_joined_def held_chans_def)

lemma program_losses:
  assumes "wineing_init e (shared_static b io) = Inr (Continue (), sh)"
    and "losing_run e conf R (threads_start b sh) k s"
    and "sockets_documented e R live" "live (world io) = {}" "buffers_ok b" "recv_codes e"
  shows "\<exists>ns. map sock (held_chans s) = map (\<lambda>n. Sock (Some n)) ns \<and> distinct ns \<and>
    set ns \<subseteq> open_sockets live s \<and> finite (open_sockets live s) \<and>
    card (open_sockets live s - set ns) \<le> k \<and> (all_joined s \<longrightarrow> ns = [])"
proof -
  have "open_sockets live (threads_start b sh) = {}"
    using init_world [OF assms(1)] assms(4)
    by (simp add: threads_start_def sys_start_def shared_static_def documented_simps(5) [OF assms(3)])
  from losing_sockets [OF assms(2) threads_start_inv [OF assms(5,1)] sockets_start this assms(3,6)]
  obtain ns where ns: "sockets_ok live s ns" "finite (open_sockets live s)"
      "card (unheld live (sys_sh s) ns) \<le> k" by blast
  then have m: "map sock (held_chans s) = map (\<lambda>n. Sock (Some n)) ns" "distinct ns"
      "set ns \<subseteq> open_sockets live s"
    by (simp_all add: sockets_ok_def on_sockets_def)
  have "ns = []" if "all_joined s" using m(1) joined_holds_none [OF that] by simp
  with ns(2,3) m show ?thesis by (intro exI [of _ ns] conjI impI)
qed

text \<open>
  C15. How many sockets are ever forgotten: at any point of a run the threads hold different open
  sockets, and the open sockets that no thread holds are at most as many as the failures of the run
  can lose, one for each failed connect and each failed start of the request or market thread, two
  for a failed start of the response thread. So when the three threads have ended, at most that
  many are still open, for which \<open>zmq_term\<close> in \<open>wineing_shutdown\<close> waits (\<open>Context_End\<close>); none if nothing
  failed. (A failed connect does lose one: \<open>failed_connect_leaks_socket\<close>.)
\<close>
theorem lost_sockets_bounded:
  assumes "wineing_init e (shared_static b io) = Inr (Continue (), sh)"
    and "losing_run e conf R (threads_start b sh) k s"
    and "sockets_documented e R live" "live (world io) = {}" "buffers_ok b" "recv_codes e"
  shows "(\<exists>ns. map sock (held_chans s) = map (\<lambda>n. Sock (Some n)) ns \<and> distinct ns \<and>
       set ns \<subseteq> open_sockets live s \<and> card (open_sockets live s - set ns) \<le> k) \<and>
    finite (open_sockets live s) \<and> (all_joined s \<longrightarrow> card (open_sockets live s) \<le> k)"
proof -
  from program_losses [OF assms] obtain ns where
    "map sock (held_chans s) = map (\<lambda>n. Sock (Some n)) ns" "distinct ns" "set ns \<subseteq> open_sockets live s"
    "finite (open_sockets live s)" "card (open_sockets live s - set ns) \<le> k" "all_joined s \<longrightarrow> ns = []"
    by (elim exE conjE) (rule that)
  then show ?thesis by auto
qed

text \<open>
  In particular no socket is forgotten in a run in which nothing fails: the open sockets are
  always exactly those the threads hold, and none is open when the threads have ended.
\<close>

lemma all_sockets_closed:
  assumes "wineing_init e (shared_static b io) = Inr (Continue (), sh)"
    and "losing_run e conf R (threads_start b sh) 0 s"
    and "sockets_documented e R live" "live (world io) = {}" "buffers_ok b" "recv_codes e"
  shows "(\<exists>ns. map sock (held_chans s) = map (\<lambda>n. Sock (Some n)) ns \<and> distinct ns \<and> open_sockets live s = set ns) \<and>
    (all_joined s \<longrightarrow> open_sockets live s = {})"
proof -
  from program_losses [OF assms] obtain ns where
    "map sock (held_chans s) = map (\<lambda>n. Sock (Some n)) ns" "distinct ns" "set ns \<subseteq> open_sockets live s"
    "finite (open_sockets live s)" "card (open_sockets live s - set ns) \<le> 0" "all_joined s \<longrightarrow> ns = []"
    by (elim exE conjE) (rule that)
  then show ?thesis by auto
qed

end
