(* ===== verification/Context_End.thy ===== *)
theory Context_End
  imports Socket_Safety System_Shutdown
begin

text \<open>
  The end of the program: \<open>wineing_shutdown\<close> after the threads are joined. It terminates the ZeroMQ
  context, which waits for every socket that is still open, so that it returns when no socket
  was lost and hangs for ever when one was.
\<close>

subsection \<open>What ZeroMQ documents about zmq_term\<close>

text \<open>
  It blocks while a socket is open, and while messages of closed sockets wait to be transferred
  (the program sets no linger period); \<open>lingers\<close> is a view of the world that says they do.
\<close>

definition term_documented :: "'w env \<Rightarrow> ('w \<Rightarrow> nat set) \<Rightarrow> ('w \<Rightarrow> bool) \<Rightarrow> bool" where
  "term_documented e live lingers \<longleftrightarrow> (\<forall>w. zmq_term e w = None \<longleftrightarrow> live w \<noteq> {} \<or> lingers w)"

lemma term_blocks:
  "term_documented e live lingers \<Longrightarrow> n \<in> live w \<Longrightarrow> zmq_term e w = None"
  unfolding term_documented_def by blast

lemma state_ready: "sys_inv s \<Longrightarrow> shared_ready (sys_sh s)"
  by (simp add: sys_inv_def Let_def owner_ok_def in_inv_def)

subsection \<open>The shutdown\<close>

text \<open>
  C31. When the three threads have been joined, \<open>wineing_shutdown\<close> returns exactly if no socket
  is open any more and no message lingers; otherwise it hangs in \<open>zmq_term\<close>, and there is no
  third outcome. When it returns every mutex and the condition variable are destroyed, once,
  and the context was terminated before the NxCore library was freed. And in a run in which no
  start and no connect has failed, no socket is open.
\<close>
theorem shutdown_after_join:
  assumes "wineing_init e (shared_static b io) = Inr (Continue (), sh)"
    and "losing_run e conf R (threads_start b sh) k s" "all_joined s"
    and "sockets_documented e R live" "term_documented e live lingers" "live (world io) = {}"
    and "buffers_ok b" "recv_codes e"
  shows "(if open_sockets live s = {} \<and> \<not> lingers (world (sh_io (sys_sh s)))
      then \<exists>w sh'. zmq_term e (world (sh_io (sys_sh s))) = Some w \<and>
         wineing_shutdown e (sys_sh s) = Inr sh' \<and> g_lock (conc sh') = MDestroyed \<and>
         g_market_sync_mutex sh' = MDestroyed \<and> g_market_sync_cond sh' = CDestroyed \<and>
         world (sh_io sh') = FreeLibrary e (g_hlib (sys_sh s)) w
      else wineing_shutdown e (sys_sh s) = Inl WouldBlock) \<and>
    (k = 0 \<longrightarrow> open_sockets live s = {})"
proof
  have "open_sockets live (threads_start b sh) = {}"
    using init_world [OF assms(1)] assms(6)
    by (simp add: threads_start_def sys_start_def shared_static_def documented_simps(5) [OF assms(4)])
  from losing_sockets [OF assms(2) threads_start_inv [OF assms(7,1)] sockets_start this assms(4,8)]
  have "sys_inv s" by blast
  note ends = shutdown_releases [OF state_ready [OF this], of e]
  have t: "zmq_term e (world (sh_io (sys_sh s))) = None \<longleftrightarrow>
      \<not> (open_sockets live s = {} \<and> \<not> lingers (world (sh_io (sys_sh s))))"
    using assms(5) unfolding term_documented_def by blast
  show "if open_sockets live s = {} \<and> \<not> lingers (world (sh_io (sys_sh s)))
      then \<exists>w sh'. zmq_term e (world (sh_io (sys_sh s))) = Some w \<and>
         wineing_shutdown e (sys_sh s) = Inr sh' \<and> g_lock (conc sh') = MDestroyed \<and>
         g_market_sync_mutex sh' = MDestroyed \<and> g_market_sync_cond sh' = CDestroyed \<and>
         world (sh_io sh') = FreeLibrary e (g_hlib (sys_sh s)) w
      else wineing_shutdown e (sys_sh s) = Inl WouldBlock"
    using ends t by (cases "zmq_term e (world (sh_io (sys_sh s)))") simp_all
  show "k = 0 \<longrightarrow> open_sockets live s = {}"
    using all_sockets_closed [OF assms(1) _ assms(4,6-8)] assms(2,3) by blast
qed

subsection \<open>A lost socket is never closed\<close>

definition lost :: "('w \<Rightarrow> nat set) \<Rightarrow> nat \<Rightarrow> 'w sys \<Rightarrow> bool" where
  "lost live n s \<longleftrightarrow> sys_inv s \<and> (\<exists>ns. sockets_ok live s ns \<and> n \<in> unheld live (sys_sh s) ns)"

lemma lost_step:
  assumes "sockets_documented e R live" "recv_codes e" "sys_step e conf R s a s'" "lost live n s"
  shows "lost live n s'"
proof -
  from assms(4) obtain ns where s: "sys_inv s" "sockets_ok live s ns" "n \<in> unheld live (sys_sh s) ns"
    by (auto simp: lost_def)
  from sockets_step [OF assms(1,3) s(1,2)] s(3) sys_inv_step [OF assms(2) s(1) assms(3)] show ?thesis
    unfolding lost_def by blast
qed

lemma lost_run:
  "sys_run e conf R s rs s' \<Longrightarrow> lost live n s \<Longrightarrow> sockets_documented e R live \<Longrightarrow> recv_codes e \<Longrightarrow> lost live n s'"
  by (rule sys_run_invariant [where P = "lost live n"]) (assumption | rule lost_step)+

text \<open>
  An attempt of the request thread or of the market thread to connect to the inproc channel, for
  which ZeroMQ creates the socket \<open>n\<close>, and which fails.
\<close>

definition failed_connect :: "'w env \<Rightarrow> nat \<Rightarrow> action \<Rightarrow> 'w sys \<Rightarrow> 'w sys \<Rightarrow> bool" where
  "failed_connect e n a s s' \<longleftrightarrow> fst (zmq_socket e ZMQ_PUSH (world (sh_io (sys_sh s)))) = Some n \<and>
     (a = Act_In \<and> (\<exists>c p q. in_at s = In_Connect c p \<and> in_at s' = In_Connect c q) \<or>
      a = Act_Market \<and> (\<exists>c p q. mk_at s = M_Connect c p \<and> mk_at s' = M_Connect c q))"

lemma push_bind_open:
  assumes "sockets_documented e R live" "chan_bind e p io = Inr (rc, q, i)" "push_chan p"
    and "fst (zmq_socket e ZMQ_PUSH (world io)) = Some n"
  shows "n \<notin> live (world io) \<and> n \<in> live (world i)"
proof -
  obtain w where s: "zmq_socket e ZMQ_PUSH (world io) = (Some n, w)" using assms(4) by (metis prod.collapse)
  have t: "to_zmq_type (chan_type p) = ZMQ_PUSH" "binds (chan_type p) \<or> connects (chan_type p)"
      "chan_type p \<noteq> CHAN_TYPE_SUB" "fqcn p = CStr DEFAULTS_ICHAN_NAME"
    using assms(3) by (auto simp: push_chan_def to_zmq_type_def binds_def connects_def chan_types)
  obtain r v where at: "attach e (chan_type p) (Some n) DEFAULTS_ICHAN_NAME w = (r, v)" by (metis surj_pair)
  then have "live v = live w"
    using documented_simps(1,2) [OF assms(1), of "Some n" DEFAULTS_ICHAN_NAME w]
    by (auto simp: attach_def split: if_splits)
  moreover have "world i = v" using chan_bind_attach [OF t(2,4) _ at] s assms(2) t(1,3) by auto
  moreover have "n \<notin> live (world io)" "live w = insert n (live (world io))"
    using documented_new [OF assms(1) s] by simp_all
  ultimately show ?thesis by simp
qed

lemma failed_connect_opens:
  assumes "sockets_documented e R live" "sys_inv s" "sys_step e conf R s a s'" "failed_connect e n a s s'"
  shows "n \<notin> open_sockets live s \<and> n \<in> open_sockets live s' \<and> held_chans s' = held_chans s"
  using assms(4) unfolding failed_connect_def
proof (elim conjE disjE exE)
  fix c p q assume z: "fst (zmq_socket e ZMQ_PUSH (world (sh_io (sys_sh s)))) = Some n" "a = Act_In"
    and at: "in_at s = In_Connect c p" "in_at s' = In_Connect c q"
  from assms(3)[unfolded z(2)] obtain pc l sh where st: "in_step e conf (in_at s) (in_vars s) (sys_sh s) = Inr (pc, l, sh)"
      "s' = s\<lparr>in_at := pc, in_vars := l, sys_sh := sh\<rparr>" by cases
  from st(1) at(1) obtain rc o2 i where b: "chan_bind e p (sh_io (sys_sh s)) = Inr (rc, o2, i)" "sh_world sh = world i"
    by (auto simp: in_step_def in_connect_def res_simps Let_def split: if_splits dest!: log_world)
  have "push_chan p" using assms(2) at(1) by (simp add: sys_inv_def Let_def)
  from push_bind_open [OF assms(1) b(1) this z(1)] b(2) st(2) at show ?thesis by (simp add: held_chans_def)
next
  fix c p q assume z: "fst (zmq_socket e ZMQ_PUSH (world (sh_io (sys_sh s)))) = Some n" "a = Act_Market"
    and at: "mk_at s = M_Connect c p" "mk_at s' = M_Connect c q"
  from assms(3)[unfolded z(2)] obtain pc l sh where st: "market_step e conf (mk_at s) (mk_vars s) (sys_sh s) = Inr (pc, l, sh)"
      "s' = s\<lparr>mk_at := pc, mk_vars := l, sys_sh := sh\<rparr>" by cases
  from st(1) at(1) obtain rc o2 i where b: "chan_bind e p (sh_io (sys_sh s)) = Inr (rc, o2, i)" "sh_world sh = world i"
    by (auto simp: market_step_def market_connect_def res_simps Let_def split: if_splits)
  have "push_chan p" using assms(2) at(1) by (simp add: sys_inv_def Let_def)
  from push_bind_open [OF assms(1) b(1) this z(1)] b(2) st(2) at show ?thesis by (simp add: held_chans_def)
qed

lemma on_sockets_unique: "on_sockets cs ns \<Longrightarrow> on_sockets cs ns' \<Longrightarrow> ns = ns'"
  by (induction cs arbitrary: ns ns') auto

lemma failed_connect_loses:
  assumes "sockets_documented e R live" "recv_codes e" "sys_inv s" "sockets_ok live s ns"
    and "sys_step e conf R s a s'" "failed_connect e n a s s'"
  shows "lost live n s'"
proof -
  from sockets_step [OF assms(1,5,3,4)] obtain ns' where ns': "sockets_ok live s' ns'" by blast
  note f = failed_connect_opens [OF assms(1,3,5,6)]
  have "ns' = ns" using on_sockets_unique ns' assms(4) f by (auto simp: sockets_ok_def)
  with f ns' assms(4) sys_inv_step [OF assms(2,3,5)] show ?thesis by (auto simp: lost_def sockets_ok_def)
qed

text \<open>
  C40. One failed connect hangs the program at its end: if ever in a run of the program an attempt
  of the request thread or of the market thread to connect to the inproc channel fails, after
  ZeroMQ has created a socket for it, then this socket stays open for ever; and should all three
  threads end, \<open>wineing_shutdown\<close> never returns from \<open>zmq_term\<close>, whatever happened in between.
  (Such a failure only needs one of these threads to be faster than the response thread,
  which binds the channel.)
\<close>
theorem failed_connect_hangs_shutdown:
  assumes "program_state e conf R b io rs s" "buffers_ok b" "recv_codes e"
    and "sockets_documented e R live" "term_documented e live lingers"
    and "sys_step e conf R s a s1" "failed_connect e n a s s1"
    and "sys_run e conf R s1 rs2 s2"
  shows "n \<in> open_sockets live s2 \<and> (all_joined s2 \<longrightarrow> wineing_shutdown e (sys_sh s2) = Inl WouldBlock)"
proof -
  from assms(1) obtain sh where sh: "wineing_init e (shared_static b io) = Inr (Continue (), sh)"
      "sys_run e conf R (threads_start b sh) rs s" by (auto elim: program_state.cases)
  from program_sockets [OF sh(2) threads_start_inv [OF assms(2) sh(1)] sockets_start assms(4,3)]
  obtain ns where "sys_inv s" "sockets_ok live s ns" by blast
  from lost_run [OF assms(8) failed_connect_loses [OF assms(4,3) this assms(6,7)] assms(4,3)]
  have s2: "sys_inv s2" "n \<in> open_sockets live s2" by (auto simp: lost_def)
  with shutdown_releases [OF state_ready [OF s2(1)], of e] term_blocks [OF assms(5) s2(2)] show ?thesis by simp
qed

end
