(* ===== verification/Socket_Runs.thy ===== *)
theory Socket_Runs
  imports Context_End System_Runs
begin

text \<open>
  The properties of the sockets, applied in the concrete environment.
\<close>

lemma demo_live_simps [simp]:
  "demo_live (w\<lparr>dw_queue := q\<rparr>) = demo_live w" "demo_live (w\<lparr>dw_endpoint := p\<rparr>) = demo_live w"
  "demo_live (w\<lparr>dw_bound := b\<rparr>) = demo_live w"
  by (simp_all add: demo_live_def)

lemma demo_sockets: "sockets_documented demo_quiet (\<lambda>_ _. False) demo_live"
proof -
  have attach: "demo_live (snd (demo_attach s n w)) = demo_live w" for s n w
    by (simp add: demo_attach_def split: option.split)
  then have "demo_live (snd (demo_bind s n w)) = demo_live w" for s n w
    by (simp add: demo_bind_def)
  moreover have "demo_live (snd (demo_connect s n w)) = demo_live w" for s n w
    by (simp add: demo_connect_def attach)
  moreover have "demo_live (snd (demo_send s d f w)) = demo_live w" for s d f w
    by (simp add: demo_send_def demo_put_def split: option.split)
  moreover have "case demo_recv s w of None \<Rightarrow> True | Some (r, d, w') \<Rightarrow> demo_live w' = demo_live w" for s w
    by (simp add: demo_recv_def demo_put_def split: option.split list.split)
  moreover have "demo_live (demo_close (Some n) w) = demo_live w - {n}" for n w
    by (auto simp: demo_close_def demo_live_def)
  moreover have "case demo_socket t w of (s, w') \<Rightarrow> (case s of None \<Rightarrow> demo_live w' = demo_live w
      | Some n \<Rightarrow> n \<notin> demo_live w \<and> demo_live w' = insert n (demo_live w))" for t w
    by (auto simp: demo_socket_def demo_live_def)
  ultimately show ?thesis by (simp add: sockets_documented_def)
qed

text \<open>An environment that answers wrong calls in its own way: it forgets everything on a close.\<close>

definition demo_strange :: "demo_world env" where
  "demo_strange = demo_quiet\<lparr>zmq_close := (\<lambda>_ _. demo_world0), zmq_recv := (\<lambda>_ _. None)\<rparr>"

theorem only_open_sockets_used_witness:
  "\<exists>rs s s'. program_state demo_quiet demo_conf (\<lambda>_ _. False) demo_buffers (demo_io [''x'']) rs s \<and>
     sys_step (patched demo_live demo_quiet demo_strange) demo_conf (\<lambda>_ _. False) s Act_Out s'"
proof -
  obtain rs s s' where r: "demo_run [''x''] published_schedule = Some (rs, s)"
      "sched_step demo_quiet demo_conf Go_Out s = Some (Act_Out, s')"
    using shutdown_out_step by (elim exE conjE) (rule that)
  have "sys_step (patched demo_live demo_quiet demo_strange) demo_conf (\<lambda>_ _. False) s Act_Out s'"
    using only_open_sockets_used [OF demo_program [OF r(1)] demo_sockets demo_buffers_ok demo_recv_codes]
      sched_step_sound [OF r(2)] by blast
  with demo_program [OF r(1)] show ?thesis by (intro exI conjI)
qed

text \<open>Complete runs, with the sockets their failures can lose.\<close>

fun losing_exec :: "'w env \<Rightarrow> w_conf \<Rightarrow> sched list \<Rightarrow> 'w sys \<Rightarrow> (nat \<times> 'w sys) option" where
  "losing_exec e conf [] s = Some (0, s)"
| "losing_exec e conf (x # xs) s = (case sched_step e conf x s of None \<Rightarrow> None
     | Some (a, s') \<Rightarrow> (case losing_exec e conf xs s' of None \<Rightarrow> None
         | Some (k, s'') \<Rightarrow> Some (sockets_lost a s s' + k, s'')))"

lemma losing_exec_sound:
  "losing_exec e conf xs s = Some (j, s') \<Longrightarrow> losing_run e conf R s0 k s \<Longrightarrow> losing_run e conf R s0 (k + j) s'"
proof (induction xs arbitrary: s k j)
  case (Cons x xs)
  then obtain a s1 i where st: "sched_step e conf x s = Some (a, s1)" "losing_exec e conf xs s1 = Some (i, s')"
      "j = sockets_lost a s s1 + i"
    by (auto split: option.splits)
  from Cons.IH [OF st(2) losing_next [OF Cons.prems(2) sched_step_sound [OF st(1)]]] st(3)
  show ?case by (simp add: add.assoc)
qed simp

abbreviation demo_losing :: "sched list \<Rightarrow> (nat \<times> demo_world sys) option" where
  "demo_losing xs \<equiv> losing_exec demo_quiet demo_conf xs (threads_start demo_buffers (demo_boot [''x'']))"

lemma demo_no_sockets: "demo_live (world (demo_io [''x''])) = {}"
  by (simp add: demo_live_def demo_io_def demo_put_def demo_world0_def)

lemma good_run_loses_none:
  "\<exists>s. demo_losing good_schedule = Some (0, s) \<and> all_joined s \<and> dw_next (world (sh_io (sys_sh s))) = 7"
  by (simp add: good_schedule_def run_defs all_joined_def)

lemma all_sockets_closed_example:
  "\<exists>s. losing_run demo_quiet demo_conf (\<lambda>_ _. False) (threads_start demo_buffers (demo_boot [''x''])) 0 s \<and>
     all_joined s \<and> dw_next (world (sh_io (sys_sh s))) = 7 \<and> open_sockets demo_live s = {}"
proof -
  obtain s where s: "demo_losing good_schedule = Some (0, s)"
      "all_joined s" "dw_next (world (sh_io (sys_sh s))) = 7"
    using good_run_loses_none by (elim exE conjE) (rule that)
  have run: "losing_run demo_quiet demo_conf (\<lambda>_ _. False) (threads_start demo_buffers (demo_boot [''x''])) 0 s"
    using losing_exec_sound [OF s(1) losing_refl] by simp
  with all_sockets_closed [OF demo_init run demo_sockets demo_no_sockets demo_buffers_ok demo_recv_codes] s(2)
  have "open_sockets demo_live s = {}" by blast
  with run s(2,3) show ?thesis by (intro exI conjI)
qed

text \<open>
  The request thread tries to connect twice before the response thread has bound the inproc
  channel: two sockets are lost, and are open after all threads have ended.
\<close>

definition hasty_schedule :: "sched list" where
  "hasty_schedule = [Go_In, Go_In, Go_In] @ [Go_Out, Go_In, Go_Out, Go_Out, Go_In, Go_In, Go_In, Go_In, Go_In, Go_In,
     Go_Out, Go_Out, Go_Out, Go_Out, Go_Market, Go_Market, Go_Market, Go_Market]"

lemma hasty_run:
  "\<exists>s. demo_losing hasty_schedule = Some (2, s) \<and> all_joined s \<and>
     dw_open (world (sh_io (sys_sh s))) = [3, 2] \<and> dw_next (world (sh_io (sys_sh s))) = 9"
  by (simp add: hasty_schedule_def run_defs all_joined_def)

theorem lost_sockets_bounded_witness:
  "\<exists>s. losing_run demo_quiet demo_conf (\<lambda>_ _. False) (threads_start demo_buffers (demo_boot [''x''])) 2 s \<and>
     all_joined s \<and> card (open_sockets demo_live s) \<le> 2 \<and> 2 \<in> open_sockets demo_live s"
proof -
  obtain s where s: "demo_losing hasty_schedule = Some (2, s)" "all_joined s"
      "dw_open (world (sh_io (sys_sh s))) = [3, 2]" "dw_next (world (sh_io (sys_sh s))) = 9"
    using hasty_run by (elim exE conjE) (rule that)
  have run: "losing_run demo_quiet demo_conf (\<lambda>_ _. False) (threads_start demo_buffers (demo_boot [''x''])) 2 s"
    by (rule losing_exec_sound [OF s(1) losing_refl, unfolded add_0])
  have "card (open_sockets demo_live s) \<le> 2"
    using lost_sockets_bounded [OF demo_init run demo_sockets demo_no_sockets demo_buffers_ok demo_recv_codes] s(2)
    by blast
  moreover have "2 \<in> open_sockets demo_live s" using s(3,4) by (simp add: demo_live_def)
  ultimately show ?thesis using run s(2) by (intro exI conjI)
qed

subsection \<open>The end of the program\<close>

text \<open>Nothing lingers here: what is sent is delivered at once.\<close>

lemma demo_term_documented: "term_documented demo_quiet demo_live (\<lambda>_. False)"
  by (simp add: term_documented_def demo_term_live)

theorem shutdown_after_join_witness:
  "(\<exists>s sh'. losing_run demo_quiet demo_conf (\<lambda>_ _. False) (threads_start demo_buffers (demo_boot [''x''])) 0 s \<and>
      all_joined s \<and> wineing_shutdown demo_quiet (sys_sh s) = Inr sh' \<and> g_lock (conc sh') = MDestroyed) \<and>
   (\<exists>s. losing_run demo_quiet demo_conf (\<lambda>_ _. False) (threads_start demo_buffers (demo_boot [''x''])) 2 s \<and>
      all_joined s \<and> wineing_shutdown demo_quiet (sys_sh s) = Inl WouldBlock)"
proof
  obtain s where s: "demo_losing good_schedule = Some (0, s)" "all_joined s"
    using good_run_loses_none by (elim exE conjE) (rule that)
  have run: "losing_run demo_quiet demo_conf (\<lambda>_ _. False) (threads_start demo_buffers (demo_boot [''x''])) 0 s"
    using losing_exec_sound [OF s(1) losing_refl] by simp
  from shutdown_after_join [OF demo_init run s(2) demo_sockets demo_term_documented demo_no_sockets demo_buffers_ok demo_recv_codes]
  obtain sh' where "wineing_shutdown demo_quiet (sys_sh s) = Inr sh'" "g_lock (conc sh') = MDestroyed"
    by (auto split: if_splits)
  with run s(2) show "\<exists>s sh'. losing_run demo_quiet demo_conf (\<lambda>_ _. False)
      (threads_start demo_buffers (demo_boot [''x''])) 0 s \<and> all_joined s \<and>
      wineing_shutdown demo_quiet (sys_sh s) = Inr sh' \<and> g_lock (conc sh') = MDestroyed"
    by (intro exI conjI)
next
  obtain s where s: "demo_losing hasty_schedule = Some (2, s)" "all_joined s"
      "dw_open (world (sh_io (sys_sh s))) = [3, 2]" "dw_next (world (sh_io (sys_sh s))) = 9"
    using hasty_run by (elim exE conjE) (rule that)
  have run: "losing_run demo_quiet demo_conf (\<lambda>_ _. False) (threads_start demo_buffers (demo_boot [''x''])) 2 s"
    by (rule losing_exec_sound [OF s(1) losing_refl, unfolded add_0])
  have "2 \<in> open_sockets demo_live s" using s(3,4) by (simp add: demo_live_def)
  with shutdown_after_join [OF demo_init run s(2) demo_sockets demo_term_documented demo_no_sockets demo_buffers_ok demo_recv_codes]
  have "wineing_shutdown demo_quiet (sys_sh s) = Inl WouldBlock" by (auto split: if_splits)
  with run s(2) show "\<exists>s. losing_run demo_quiet demo_conf (\<lambda>_ _. False)
      (threads_start demo_buffers (demo_boot [''x''])) 2 s \<and> all_joined s \<and>
      wineing_shutdown demo_quiet (sys_sh s) = Inl WouldBlock"
    by (intro exI conjI)
qed

text \<open>The run above from the first failed connect, the second step of the request thread.\<close>

lemma hasty_connect:
  "\<exists>rs s s1 rs2 s2. demo_run [''x''] [Go_In] = Some (rs, s) \<and>
     sched_step demo_quiet demo_conf Go_In s = Some (Act_In, s1) \<and> failed_connect demo_quiet 2 Act_In s s1 \<and>
     sched_run demo_quiet demo_conf (drop 2 hasty_schedule) s1 = Some (rs2, s2) \<and> all_joined s2"
  by (simp add: hasty_schedule_def run_defs all_joined_def failed_connect_def)

theorem failed_connect_hangs_shutdown_witness:
  "\<exists>rs s s1 rs2 s2. program_state demo_quiet demo_conf (\<lambda>_ _. False) demo_buffers (demo_io [''x'']) rs s \<and>
     failed_connect demo_quiet 2 Act_In s s1 \<and> sys_run demo_quiet demo_conf (\<lambda>_ _. False) s1 rs2 s2 \<and>
     all_joined s2 \<and> 2 \<in> open_sockets demo_live s2 \<and> wineing_shutdown demo_quiet (sys_sh s2) = Inl WouldBlock"
proof -
  obtain rs s s1 rs2 s2 where r: "demo_run [''x''] [Go_In] = Some (rs, s)"
     "sched_step demo_quiet demo_conf Go_In s = Some (Act_In, s1)" "failed_connect demo_quiet 2 Act_In s s1"
     "sched_run demo_quiet demo_conf (drop 2 hasty_schedule) s1 = Some (rs2, s2)" "all_joined s2"
    using hasty_connect by (elim exE conjE) (rule that)
  note p = demo_program [OF r(1)] and run = sched_run_sound [OF r(4)]
  from failed_connect_hangs_shutdown [OF p demo_buffers_ok demo_recv_codes demo_sockets demo_term_documented
      sched_step_sound [OF r(2)] r(3) run] p run r(3,5)
  show ?thesis by blast
qed

end
