(* ===== verification/Market_Order.thy ===== *)
theory Market_Order
  imports Response_Order
begin

text \<open>
  The way of the market data: from the status messages NxCore calls back with to the messages
  on the market channel, over whole runs of the program.
\<close>

subsection \<open>Calls of NxCore\<close>

definition called :: "action \<Rightarrow> NxMessageType list" where
  "called a = (case a of Act_Callback mt \<Rightarrow> [mt] | _ \<Rightarrow> [])"

text \<open>The message whose callback has begun and is not yet answered.\<close>

definition handling :: "'w sys \<Rightarrow> NxMessageType list" where
  "handling s = (case mk_at s of M_Callback _ _ _ mt \<Rightarrow> [mt] | _ \<Rightarrow> [])"

text \<open>A run, with the messages NxCore has called back with in its course.\<close>

inductive market_run :: "'w env \<Rightarrow> w_conf \<Rightarrow> ('w \<Rightarrow> 'w \<Rightarrow> bool) \<Rightarrow> 'w sys \<Rightarrow> NxMessageType list \<Rightarrow> 'w sys \<Rightarrow> bool"
  for e conf R s0 where
  market_refl: "market_run e conf R s0 [] s0"
| market_next: "market_run e conf R s0 mts s \<Longrightarrow> sys_step e conf R s a s' \<Longrightarrow>
    market_run e conf R s0 (mts @ called a) s'"

text \<open>A callback ends before the next one begins.\<close>

lemma handling_step:
  assumes "sys_step e conf R s a s'"
  shows "handling s @ called a = answered a s @ handling s'"
  using assms
proof cases
  case (step_market p l sh)
  then have "handling s = []" "p = M_End \<or> handling s' = []"
    by (cases "mk_at s"; auto simp: handling_def market_step_def market_start_def market_connect_def
        market_act_def res_simps Let_def split: if_splits m_pc.splits)+
  with step_market show ?thesis by (auto simp: handling_def called_def answered_def)
qed (simp_all add: handling_def called_def answered_def)

subsection \<open>The market channel\<close>

definition market_sent :: "'w env \<Rightarrow> 'w wire \<Rightarrow> string \<Rightarrow> string \<Rightarrow> string \<Rightarrow> NxMessageType list \<Rightarrow> 'w sys \<Rightarrow> bool" where
  "market_sent e W i out md mts s \<longleftrightarrow> connected W i out md s \<and>
     queue_of W s md @ concat (map (market_bytes e) (handling s)) = concat (map (market_bytes e) mts)"

lemma market_sent_step:
  assumes "sys_step e conf R s a s'" "market_sent e W i out md mts s" "zmq_documented e R W out"
    and "names_ok conf i out md" "md \<noteq> i" "world_leaves R W md"
  shows "market_sent e W i out md (mts @ called a) s'"
proof -
  have c: "connected W i out md s"
      "queue_of W s md @ concat (map (market_bytes e) (handling s)) = concat (map (market_bytes e) mts)"
    using assms(2) by (simp_all add: market_sent_def)
  have "queue_of W s' md = queue_of W s md @ concat (map (market_bytes e) (answered a s))"
    using connected_step [OF assms(1) c(1) assms(3,4)] assms(4-6) by (simp add: names_ok_def)
  then have "queue_of W s' md @ concat (map (market_bytes e) (handling s')) =
      queue_of W s md @ concat (map (market_bytes e) (answered a s @ handling s'))"
    by simp
  also have "\<dots> = queue_of W s md @ concat (map (market_bytes e) (handling s @ called a))"
    by (simp only: handling_step [OF assms(1)])
  also have "\<dots> = concat (map (market_bytes e) (mts @ called a))"
    using c(2) by simp
  finally show ?thesis
    using connected_step [OF assms(1) c(1) assms(3,4)] by (simp add: market_sent_def)
qed

lemma market_sent_run:
  assumes "market_run e conf R s0 mts s" "market_sent e W i out md [] s0" "zmq_documented e R W out"
    and "names_ok conf i out md" "md \<noteq> i" "world_leaves R W md"
  shows "market_sent e W i out md mts s"
  using assms(1,2)
proof (induction rule: market_run.induct)
  case (market_next mts s a s')
  then show ?case using market_sent_step [OF market_next(2) _ assms(3-6)] by blast
qed

lemma market_bytes_status:
  "concat (map (market_bytes e) mts) =
   replicate (count_list mts NxMSG_STATUS) (SerializeMarketData e \<lparr>md_type = Some STATUS\<rparr>)"
proof (induction mts)
  case (Cons mt mts)
  then show ?case by (cases mt) (simp_all add: market_bytes_def)
qed simp

text \<open>
  C4. Market data, end to end: if ZeroMQ behaves as documented and the configured endpoints are
  different, then in every state the program can be in, under every schedule and however often
  NxCore is started and stopped, what was sent on the market channel is exactly one message of
  type STATUS for each status message NxCore has called back with, the one being handled not
  counted. No other message of NxCore is passed on, nothing is lost or sent twice, and neither
  requests nor responses ever get onto that channel.
\<close>
theorem market_messages_conserved:
  assumes "wineing_init e (shared_static b io) = Inr (Continue (), sh)"
    and "market_run e conf R (threads_start b sh) mts s" "buffers_ok b"
    and "zmq_documented e R W out" "names_ok conf i out md" "md \<noteq> i" "world_leaves R W md"
    and "wr_queue W (snd (LoadLibrary e ''lib/NxCoreAPI64.dll'' (world io))) md = []"
  shows "wr_queue W (world (sh_io (sys_sh s))) md @
       concat (map (market_bytes e) (handling s)) =
     replicate (count_list mts NxMSG_STATUS) (SerializeMarketData e \<lparr>md_type = Some STATUS\<rparr>)"
proof -
  note st = connected_start [OF assms(1,3)]
  have "handling (threads_start b sh) = []" by (simp add: handling_def threads_start_def sys_start_def)
  with st(1) assms(8) have "market_sent e W i out md [] (threads_start b sh)"
    by (simp add: market_sent_def st(2))
  from market_sent_run [OF assms(2) this assms(4-7)] show ?thesis
    unfolding market_sent_def market_bytes_status by (rule conjunct2)
qed

end
