(* ===== verification/Response_Delivery.thy ===== *)
theory Response_Delivery
  imports Response_Order
begin

text \<open>
  Until SHUTDOWN no response gets stuck: whatever point the response thread is at, its own steps
  deliver everything the request thread has replied.
\<close>

text \<open>What ZeroMQ promises beyond \<open>zmq_documented\<close>: a message that is there is received.\<close>

definition zmq_delivers :: "'w env \<Rightarrow> 'w wire \<Rightarrow> bool" where
  "zmq_delivers e W \<longleftrightarrow> (\<forall>w s n. wr_at W w s = Some n \<and> wr_queue W w n \<noteq> [] \<longrightarrow>
     (case zmq_recv e s w of Some (r, _, _) \<Rightarrow> r = 0 | None \<Rightarrow> False))"

text \<open>The response thread is in its loop, and SHUTDOWN is neither published nor read by it.\<close>

definition forwarding :: "'w sys \<Rightarrow> bool" where
  "forwarding s \<longleftrightarrow> out_at s \<notin> {O_Start, O_End} \<and> w_cmd (g_data (sys_sh s)) \<noteq> WINEING_CTRL_CMD_SHUTDOWN \<and>
     w_cmd (out_data (out_vars s)) \<noteq> WINEING_CTRL_CMD_SHUTDOWN"

definition fitting :: "'w env \<Rightarrow> Response list \<Rightarrow> bool" where
  "fitting e rs \<longleftrightarrow> (\<forall>r \<in> set rs. length (SerializeResponse e r) \<le> OUT_BUFFER_SIZE)"

lemma fitting_small: "fitting e rs \<Longrightarrow> small_responses e rs"
  by (force simp: fitting_def small_responses_def OUT_BUFFER_SIZE_def)

definition all_sent :: "'w wire \<Rightarrow> 'w sys \<Rightarrow> bool" where
  "all_sent W s \<longleftrightarrow> held (out_at s) = [] \<and> queue_of W s DEFAULTS_ICHAN_NAME = []"

text \<open>The steps left: four for each message, and those of the turn the thread is in.\<close>

fun turn_rank :: "o_pc \<Rightarrow> nat" where
  "turn_rank (O_Send _ _ _ _) = 3"
| "turn_rank (O_Loop _ _) = 2"
| "turn_rank (O_Test _ _) = 1"
| "turn_rank _ = 0"

definition steps_left :: "'w wire \<Rightarrow> 'w sys \<Rightarrow> nat" where
  "steps_left W s = 4 * length (queue_of W s DEFAULTS_ICHAN_NAME) + turn_rank (out_at s)"

subsection \<open>One step of the response thread\<close>

lemma receive_head:
  assumes "zmq_documented e R W out" "zmq_delivers e W" "wr_at W w z = Some n" "wr_queue W w n \<noteq> []"
  shows "\<exists>d ds w'. zmq_recv e z w = Some (0, d, w') \<and> wr_queue W w n = d # ds \<and>
    wr_queue W w' = (wr_queue W w)(n := ds)"
proof -
  have "case zmq_recv e z w of Some (r, _, _) \<Rightarrow> r = 0 | None \<Rightarrow> False"
    using assms(2-4) unfolding zmq_delivers_def by blast
  then obtain d w' where r: "zmq_recv e z w = Some (0, d, w')" by (auto split: option.splits)
  from documented_recv(2) [OF assms(1) r refl] assms(3) r show ?thesis by auto
qed

text \<open>Unless everything is sent, the thread can take a step, and comes closer.\<close>

lemma forwards_step:
  assumes "zmq_documented e R W out" "zmq_delivers e W" "out \<noteq> DEFAULTS_ICHAN_NAME"
    and "sys_inv s" "wired W (world (sh_io (sys_sh s))) (out_chans out (out_at s))" "forwarding s" "\<not> all_sent W s"
    and "\<forall>d \<in> set (queue_of W s DEFAULTS_ICHAN_NAME). length d \<le> OUT_BUFFER_SIZE"
  shows "\<exists>s'. sys_step e conf R s Act_Out s' \<and> forwarding s' \<and> steps_left W s' < steps_left W s"
proof -
  let ?sh = "sys_sh s" and ?l = "out_vars s"
  have inv: "cell_ready ?sh" "copy_ok (out_version ?l) (out_data ?l) ?sh"
    using assms(4) by (auto simp: sys_inv_def Let_def owner_ready reader_ok_def)
  have cmd: "w_cmd (g_data ?sh) \<noteq> WINEING_CTRL_CMD_SHUTDOWN" "w_cmd (out_data ?l) \<noteq> WINEING_CTRL_CMD_SHUTDOWN"
    using assms(6) by (simp_all add: forwarding_def)
  have move: ?thesis
    if "out_step e conf (out_at s) ?l ?sh = Inr (p, l, sh)" "p \<notin> {O_Start, O_End}" "g_data sh = g_data ?sh"
      "w_cmd (out_data l) \<noteq> WINEING_CTRL_CMD_SHUTDOWN"
      "4 * length (wr_queue W (world (sh_io sh)) DEFAULTS_ICHAN_NAME) + turn_rank p < steps_left W s" for p l sh
    using step_out [OF that(1)] that(2-5) cmd(1)
    by (intro exI [of _ "s\<lparr>out_at := p, out_vars := l, sys_sh := sh\<rparr>"]) (simp add: forwarding_def steps_left_def)
  show ?thesis
  proof (cases "out_at s")
    case (O_Loop c m)
    obtain t where t: "read_g_data (out_version ?l) (out_data ?l) ?sh = Inr (g_version (conc ?sh), t, ?sh)"
        "ctrl_view t = ctrl_view (g_data ?sh)"
      using read_g_data_ok [OF inv] by blast
    then have "w_cmd t = w_cmd (g_data ?sh)" by (auto dest: ctrl_view_eqD)
    with t(1) cmd(1) O_Loop show ?thesis
      by (intro move) (auto simp: out_step_def out_read_def steps_left_def)
  next
    case (O_Test c m)
    with cmd show ?thesis by (intro move) (auto simp: out_step_def out_test_def steps_left_def)
  next
    case (O_Recv c m)
    with assms(7) have q: "queue_of W s DEFAULTS_ICHAN_NAME \<noteq> []" by (simp add: all_sent_def held_def)
    obtain z where z: "sock m = Sock z" "wr_at W (world (sh_io ?sh)) z = Some DEFAULTS_ICHAN_NAME"
      using wiredD [OF assms(5), of m] O_Recv by auto
    from receive_head [OF assms(1,2) z(2) q] obtain d ds w where d:
      "zmq_recv e z (world (sh_io ?sh)) = Some (0, d, w)" "queue_of W s DEFAULTS_ICHAN_NAME = d # ds"
      "wr_queue W w = (wr_queue W (world (sh_io ?sh)))(DEFAULTS_ICHAN_NAME := ds)"
      by blast
    then have "length d \<le> OUT_BUFFER_SIZE" using assms(8) by simp
    from out_recv_message [OF z(1) d(1) this, of c] O_Recv
    have "out_step e conf (out_at s) ?l ?sh = Inr (O_Send c m (d @ replicate (OUT_BUFFER_SIZE - length d) NUL)
        (word_of_nat (length d)), ?l, ?sh\<lparr>sh_io := (sh_io ?sh)\<lparr>world := w\<rparr>\<rparr>)"
      by (simp add: out_step_def)
    then show ?thesis by (rule move) (use O_Recv d(2,3) cmd in \<open>simp_all add: steps_left_def\<close>)
  next
    case (O_Send c m b n)
    obtain z where z: "sock c = Sock z" "wr_at W (world (sh_io ?sh)) z = Some out"
      using wiredD [OF assms(5), of c] O_Send by auto
    obtain rc i where sent: "chan_send e c b (size_t_of_int n) True (sh_io ?sh) = Inr (rc, i)"
    proof -
      have "0 \<le> sint n" "nat (sint n) \<le> length b" using assms(4) O_Send by (simp_all add: sys_inv_def Let_def)
      then have "size_t_of_int n \<le> length b" by (simp add: size_t_of_int_nonneg)
      with z(1) that show thesis
        by (cases "zmq_send e z (take (size_t_of_int n) b) True (world (sh_io ?sh))")
          (simp add: chan_send_def chan_sock_def on_world_def)
    qed
    note w = chan_send_wired [OF sent assms(1) z]
    with sent O_Send have "out_step e conf (out_at s) ?l ?sh = Inr (O_Loop c m, ?l, ?sh\<lparr>sh_io := i\<rparr>)"
      by (simp add: out_step_def out_send_def Let_def)
    then show ?thesis by (rule move) (use O_Send w cmd assms(3) in \<open>simp_all add: steps_left_def\<close>)
  qed (use assms(6) in \<open>simp_all add: forwarding_def\<close>)
qed

subsection \<open>All steps of the response thread\<close>

lemma delivery_small:
  assumes "delivery e W i out md rs s" "fitting e rs"
  shows "\<forall>d \<in> set (queue_of W s DEFAULTS_ICHAN_NAME). length d \<le> OUT_BUFFER_SIZE"
proof
  fix d assume "d \<in> set (queue_of W s DEFAULTS_ICHAN_NAME)"
  then have "d \<in> set (map (SerializeResponse e) rs)"
    using assms(1) unfolding delivery_def in_flight_def by (elim conjE) simp
  with assms(2) show "length d \<le> OUT_BUFFER_SIZE" by (auto simp: fitting_def)
qed

lemma wired_part: "wired W w (xs @ ys @ zs) \<Longrightarrow> wired W w ys"
  unfolding wired_def by auto

lemma delivers_all:
  assumes "delivery e W i out md rs s" "forwarding s" "fitting e rs"
    and "zmq_documented e R W out" "zmq_delivers e W" "names_ok conf i out md"
  shows "\<exists>k s'. ((\<lambda>s s'. sys_step e conf R s Act_Out s') ^^ k) s s' \<and> k \<le> steps_left W s \<and>
    delivery e W i out md rs s' \<and> all_sent W s'"
  using assms(1,2)
proof (induction "steps_left W s" arbitrary: s rule: less_induct)
  case less
  show ?case
  proof (cases "all_sent W s")
    case True
    with less.prems show ?thesis by (intro exI [of _ 0] exI [of _ s]) simp
  next
    case False
    have s: "sys_inv s" "wired W (world (sh_io (sys_sh s))) (out_chans out (out_at s))"
      using less.prems(1) by (auto simp: delivery_def connected_def sys_chans_def intro: wired_part)
    have "out \<noteq> DEFAULTS_ICHAN_NAME" using assms(6) by (auto simp: names_ok_def)
    from forwards_step [OF assms(4,5) this s less.prems(2) False delivery_small [OF less.prems(1) assms(3)]]
    obtain s1 where s1: "sys_step e conf R s Act_Out s1" "forwarding s1" "steps_left W s1 < steps_left W s"
      by blast
    have "replied Act_Out s = []" by (simp add: replied_def)
    with delivery_step [OF s1(1) less.prems(1) assms(4,6) fitting_small [OF assms(3)]]
    have "delivery e W i out md rs s1" by simp
    from less.hyps [OF s1(3) this s1(2)] obtain k s' where
      k: "((\<lambda>s s'. sys_step e conf R s Act_Out s') ^^ k) s1 s'" "k \<le> steps_left W s1"
        "delivery e W i out md rs s'" "all_sent W s'"
      by blast
    have "((\<lambda>s s'. sys_step e conf R s Act_Out s') ^^ Suc k) s s'"
      by (rule relpowp_Suc_I2) (fact s1(1), fact k(1))
    with k s1(3) show ?thesis by (intro exI [of _ "Suc k"] exI [of _ s'] conjI) simp_all
  qed
qed

text \<open>
  Until SHUTDOWN no response gets stuck: if ZeroMQ behaves as documented and every response so
  far fits into 1024 bytes, then from every state of the program in which the response thread has
  started and SHUTDOWN is neither published nor read, the steps of the response thread alone, at
  most four for each message in the inproc queue and three more, bring the program into a state in which the
  clients' channel has got every response the request thread has sent, in order, and the inproc
  queue is empty.
\<close>
lemma responses_get_delivered:
  assumes "program_state e conf R b io rs s" "buffers_ok b" "zmq_documented e R W out" "zmq_delivers e W"
    and "names_ok conf i out md" "fitting e rs" "forwarding s"
    and "\<forall>n \<in> {out, DEFAULTS_ICHAN_NAME}.
           wr_queue W (snd (LoadLibrary e ''lib/NxCoreAPI64.dll'' (world io))) n = []"
  shows "\<exists>k s'. ((\<lambda>s s'. sys_step e conf R s Act_Out s') ^^ k) s s' \<and>
    k \<le> 4 * length (wr_queue W (world (sh_io (sys_sh s))) DEFAULTS_ICHAN_NAME) + 3 \<and>
    wr_queue W (world (sh_io (sys_sh s'))) out = map (SerializeResponse e) rs \<and>
    wr_queue W (world (sh_io (sys_sh s'))) DEFAULTS_ICHAN_NAME = []"
proof -
  note d = program_delivery [OF assms(1-3,5) fitting_small [OF assms(6)] assms(8)]
  from delivers_all [OF d assms(7,6,3,4,5)] obtain k s' where
    k: "((\<lambda>s s'. sys_step e conf R s Act_Out s') ^^ k) s s'" "k \<le> steps_left W s"
      "delivery e W i out md rs s'" "all_sent W s'" by blast
  have "turn_rank (out_at s) \<le> 3" by (cases "out_at s") simp_all
  with k(2) have "k \<le> 4 * length (queue_of W s DEFAULTS_ICHAN_NAME) + 3" by (simp add: steps_left_def)
  with k show ?thesis
    by (intro exI [of _ k] exI [of _ s'] conjI) (simp_all add: delivery_def in_flight_def all_sent_def)
qed

end
