(* ===== verification/Service.thy ===== *)
theory Service
  imports Response_Delivery Request_Session
begin

text \<open>
  The service the clients see: every request that was taken up is answered on the clients'
  channel, with the answer the session gives, as long as nobody asks for a SHUTDOWN.
\<close>

subsection \<open>Without a SHUTDOWN request the command is never SHUTDOWN\<close>

definition no_shutdown :: "received_request list \<Rightarrow> bool" where
  "no_shutdown evs \<longleftrightarrow> (\<forall>ev \<in> set evs. req_type (fst ev) \<noteq> SHUTDOWN)"

lemma session_turn_command:
  assumes "session_turn base ev \<sigma> = (r, \<sigma>')" "req_type (fst ev) \<noteq> SHUTDOWN"
    and "fst (fst \<sigma>) \<noteq> WINEING_CTRL_CMD_SHUTDOWN" "fst (snd \<sigma>) \<noteq> WINEING_CTRL_CMD_SHUTDOWN"
  shows "fst (fst \<sigma>') \<noteq> WINEING_CTRL_CMD_SHUTDOWN \<and> fst (snd \<sigma>') \<noteq> WINEING_CTRL_CMD_SHUTDOWN"
proof -
  obtain c t pub where \<sigma>: "\<sigma> = ((c, t), pub)" by (metis prod.collapse)
  show ?thesis
    using assms by (cases "req_type (fst ev)")
      (auto simp: \<sigma> session_turn_def Let_def ctrl_cmds split: if_splits option.splits)
qed

lemma session_command:
  assumes "no_shutdown evs" "session base evs session_start = (rs, \<sigma>)"
  shows "fst (fst \<sigma>) \<noteq> WINEING_CTRL_CMD_SHUTDOWN \<and> fst (snd \<sigma>) \<noteq> WINEING_CTRL_CMD_SHUTDOWN"
  using assms
proof (induction evs arbitrary: rs \<sigma> rule: rev_induct)
  case Nil
  then show ?case by (auto simp: session_start_def ctrl_cmds)
next
  case (snoc ev evs)
  obtain rs1 \<sigma>1 where s1: "session base evs session_start = (rs1, \<sigma>1)" by (cases "session base evs session_start")
  obtain r \<sigma>2 where s2: "session_turn base ev \<sigma>1 = (r, \<sigma>2)" by (cases "session_turn base ev \<sigma>1")
  have "\<sigma> = \<sigma>2" using session_snoc [OF s1 s2] snoc.prems by simp
  with session_turn_command [OF s2] snoc.IH [OF _ s1] snoc.prems(1) show ?case
    by (simp add: no_shutdown_def)
qed

lemma in_session_command:
  assumes "in_session base evs rs s" "no_shutdown evs"
  shows "w_cmd (in_data (in_vars s)) \<noteq> WINEING_CTRL_CMD_SHUTDOWN" "fst (to_be_published s) \<noteq> WINEING_CTRL_CMD_SHUTDOWN"
  using session_command [OF assms(2), of base] assms(1) by (auto simp: in_session_def ctrl_view_def)

text \<open>Neither is it published, nor does the response thread read it.\<close>

definition not_shutting :: "'w sys \<Rightarrow> bool" where
  "not_shutting s \<longleftrightarrow> w_cmd (g_data (sys_sh s)) \<noteq> WINEING_CTRL_CMD_SHUTDOWN \<and>
     w_cmd (out_data (out_vars s)) \<noteq> WINEING_CTRL_CMD_SHUTDOWN"

lemma out_data_step:
  assumes "sys_step e conf R s a s'" "sys_inv s"
  shows "out_data (out_vars s') = out_data (out_vars s) \<or>
    ctrl_view (out_data (out_vars s')) = ctrl_view (g_data (sys_sh s))"
  using assms(1)
proof cases
  case (step_out p l sh)
  have inv: "cell_good (sys_sh s)" "reader_ok (out_version (out_vars s)) (out_data (out_vars s)) (sys_sh s)"
    using assms(2) sys_inv_cell [OF assms(2)] by (simp_all add: sys_inv_def Let_def)
  from step_out(3) have "l = out_vars s \<or> (\<exists>sh'. out_read (out_vars s) (sys_sh s) = Inr (l, sh'))"
    by (auto simp: out_step_def res_simps split: o_pc.splits)
  with out_read_Inr [OF _ inv] step_out(2) show ?thesis by auto
qed simp_all

lemma not_shutting_step:
  assumes "sys_step e conf R s a s'" "sys_inv s" "recv_codes e" "in_session base evs rs s'" "no_shutdown evs"
    and "not_shutting s"
  shows "not_shutting s'"
proof -
  have "w_cmd (g_data (sys_sh s')) \<noteq> WINEING_CTRL_CMD_SHUTDOWN"
    using publication_source [OF assms(1-3)]
  proof
    assume "ctrl_view (g_data (sys_sh s')) = to_be_published s'"
    with in_session_command(2) [OF assms(4,5)] show ?thesis by (metis ctrl_view_def fst_conv)
  qed (use assms(6) in \<open>simp add: not_shutting_def\<close>)
  moreover have "w_cmd (out_data (out_vars s')) \<noteq> WINEING_CTRL_CMD_SHUTDOWN"
    using out_data_step [OF assms(1,2)] assms(6) by (auto simp: not_shutting_def dest: ctrl_view_eqD)
  ultimately show ?thesis by (simp add: not_shutting_def)
qed

lemma not_shutting_run:
  assumes "session_run e conf R base s0 evs rs s" "sys_inv s0" "in_session base [] [] s0" "not_shutting s0"
    and "recv_codes e" "tape_basedir conf = CStr base" "no_shutdown evs"
  shows "not_shutting s"
  using assms(1-4,7)
proof (induction rule: session_run.induct)
  case (session_step s evs rs s' a s'')
  have inv: "sys_inv s'" "in_session base evs rs s'"
    using session_run_inv [OF session_step.hyps(1) session_step.prems(1,2) assms(5,6)] by blast+
  have "not_shutting s'" using session_step by (simp add: no_shutdown_def)
  from not_shutting_step [OF session_step.hyps(2) inv(1) assms(5)
      sys_step_session [OF session_step.hyps(2) inv(1) assms(5,6) inv(2)] session_step.prems(4) this]
  show ?case .
qed simp

subsection \<open>The request thread finishes its reply\<close>

text \<open>The steps of the request thread until its response is sent.\<close>

fun reply_rank :: "in_pc \<Rightarrow> nat" where
  "reply_rank (In_Publish _ _ _ _) = 3"
| "reply_rank (In_Signal _ _ _) = 2"
| "reply_rank (In_Reply _ _ _) = 1"
| "reply_rank _ = 0"

lemma replied_nothing_left: "reply_rank (in_at s) = 0 \<Longrightarrow> unsent s = []"
  by (cases "in_at s") (simp_all add: unsent_def)

definition can_publish :: "'w sys \<Rightarrow> bool" where
  "can_publish s \<longleftrightarrow> (reply_rank (in_at s) = 3 \<longrightarrow> g_version (conc (sys_sh s)) \<noteq> INT_MAX)"

lemma reply_step:
  assumes "sys_inv s" "cchan_in_fqcn conf = CStr name" "tape_basedir conf = CStr base"
    and "0 < reply_rank (in_at s)" "can_publish s"
  shows "\<exists>s'. sys_step e conf R s Act_In s' \<and> reply_rank (in_at s') < reply_rank (in_at s) \<and>
    can_publish s' \<and> out_at s' = out_at s \<and> received e base Act_In s = []"
proof (cases "in_step e conf (in_at s) (in_vars s) (sys_sh s)")
  case (Inl f)
  have "in_at s \<noteq> In_End" using assms(4) by auto
  from request_thread_total [OF assms(1-3) this Inl] assms(4,5) show ?thesis
    by (cases "in_at s") (simp_all add: request_fault_def can_publish_def)
next
  case (Inr x)
  obtain p l sh where x: "x = (p, l, sh)" by (metis prod_cases3)
  have "reply_rank p < reply_rank (in_at s) \<and> reply_rank p \<noteq> 3"
    using Inr [unfolded x] assms(4) by (cases "in_at s") (auto simp: in_step_def res_simps split: if_splits)
  moreover have "received e base Act_In s = []"
    using assms(4) by (cases "in_at s") (simp_all add: received_def)
  ultimately show ?thesis using step_in [OF Inr [unfolded x]]
    by (intro exI [of _ "s\<lparr>in_at := p, in_vars := l, sys_sh := sh\<rparr>"]) (simp add: can_publish_def)
qed

text \<open>The states the theorem is about, and what its steps keep.\<close>

definition serving :: "'w env \<Rightarrow> 'w wire \<Rightarrow> string \<Rightarrow> string \<Rightarrow> string \<Rightarrow> string \<Rightarrow> received_request list \<Rightarrow>
    Response list \<Rightarrow> 'w sys \<Rightarrow> bool" where
  "serving e W base i out md evs rs s \<longleftrightarrow> delivery e W i out md rs s \<and> in_session base evs rs s \<and>
     not_shutting s \<and> out_at s \<notin> {O_Start, O_End}"

lemma serving_forwarding: "serving e W base i out md evs rs s \<Longrightarrow> forwarding s"
  by (simp add: serving_def forwarding_def not_shutting_def)

lemma serving_fitting:
  "serving e W base i out md evs rs s \<Longrightarrow> fitting e (fst (session base evs session_start)) \<Longrightarrow> fitting e rs"
  by (auto simp: serving_def in_session_def fitting_def)

lemma serving_step:
  assumes "serving e W base i out md evs rs s" "sys_step e conf R s Act_In s'" "out_at s' = out_at s"
    and "received e base Act_In s = []" "zmq_documented e R W out" "names_ok conf i out md"
    and "tape_basedir conf = CStr base" "no_shutdown evs" "fitting e (fst (session base evs session_start))"
  shows "serving e W base i out md evs (rs @ replied Act_In s) s'"
proof -
  have s: "delivery e W i out md rs s" "in_session base evs rs s" "not_shutting s" "sys_inv s"
    using assms(1) by (simp_all add: serving_def delivery_def connected_def)
  note codes = documented_codes [OF assms(5)]
  note small = fitting_small [OF serving_fitting [OF assms(1,9)]]
  have ses: "in_session base evs (rs @ replied Act_In s) s'"
    using sys_step_session [OF assms(2) s(4) codes assms(7) s(2)] assms(4) by simp
  with delivery_step [OF assms(2) s(1) assms(5,6) small] not_shutting_step [OF assms(2) s(4) codes ses assms(8) s(3)]
    assms(1,3) show ?thesis by (simp add: serving_def)
qed

lemma finishes_reply:
  assumes "serving e W base i out md evs rs s" "can_publish s" "zmq_documented e R W out" "names_ok conf i out md"
    and "tape_basedir conf = CStr base" "no_shutdown evs" "fitting e (fst (session base evs session_start))"
  shows "\<exists>k s' rs'. ((\<lambda>s s'. sys_step e conf R s Act_In s') ^^ k) s s' \<and> k \<le> reply_rank (in_at s) \<and>
    serving e W base i out md evs rs' s' \<and> unsent s' = []"
  using assms(1,2)
proof (induction "reply_rank (in_at s)" arbitrary: s rs rule: less_induct)
  case less
  show ?case
  proof (cases "reply_rank (in_at s) = 0")
    case True
    with less.prems(1) replied_nothing_left [OF True] show ?thesis
      by (intro exI [of _ 0] exI [of _ s] exI [of _ rs]) simp
  next
    case False
    have "sys_inv s" using less.prems(1) by (simp add: serving_def delivery_def connected_def)
    moreover have "cchan_in_fqcn conf = CStr i" using assms(4) by (simp add: names_ok_def)
    ultimately obtain s1 where s1: "sys_step e conf R s Act_In s1" "reply_rank (in_at s1) < reply_rank (in_at s)"
        "can_publish s1" "out_at s1 = out_at s" "received e base Act_In s = []"
      using reply_step [OF _ _ assms(5) _ less.prems(2)] False by blast
    note sv = serving_step [OF less.prems(1) s1(1,4,5) assms(3-7)]
    from less.hyps [OF s1(2) sv s1(3)] obtain k s' rs' where
      k: "((\<lambda>s s'. sys_step e conf R s Act_In s') ^^ k) s1 s'" "k \<le> reply_rank (in_at s1)"
        "serving e W base i out md evs rs' s'" "unsent s' = []" by blast
    have "((\<lambda>s s'. sys_step e conf R s Act_In s') ^^ Suc k) s s'"
      by (rule relpowp_Suc_I2) (fact s1(1), fact k(1))
    with k s1(2) show ?thesis by (intro exI [of _ "Suc k"] exI [of _ s'] exI [of _ rs']) simp
  qed
qed

subsection \<open>The service\<close>

text \<open>A step of the request thread or of the response thread.\<close>

definition serves :: "'w env \<Rightarrow> w_conf \<Rightarrow> ('w \<Rightarrow> 'w \<Rightarrow> bool) \<Rightarrow> 'w sys \<Rightarrow> 'w sys \<Rightarrow> bool" where
  "serves e conf R s s' \<longleftrightarrow> sys_step e conf R s Act_In s' \<or> sys_step e conf R s Act_Out s'"

lemma serves_steps:
  assumes "((\<lambda>s s'. sys_step e conf R s Act_In s') ^^ j) s s1" "((\<lambda>s s'. sys_step e conf R s Act_Out s') ^^ k) s1 s2"
  shows "(serves e conf R ^^ (j + k)) s s2"
proof -
  have "(serves e conf R ^^ j) s s1" by (rule relpowp_mono [OF _ assms(1)]) (simp add: serves_def)
  moreover have "(serves e conf R ^^ k) s1 s2" by (rule relpowp_mono [OF _ assms(2)]) (simp add: serves_def)
  ultimately show ?thesis by (auto simp: relpowp_add)
qed

lemma serving_queue:
  assumes "serving e W base i out md evs rs s"
  shows "length (queue_of W s DEFAULTS_ICHAN_NAME) \<le> length evs"
proof -
  have "map (SerializeResponse e) rs = in_flight W out (out_at s) (world (sh_io (sys_sh s)))"
    using assms by (simp add: serving_def delivery_def)
  from arg_cong [OF this, of length] have "length (queue_of W s DEFAULTS_ICHAN_NAME) \<le> length rs"
    by (simp add: in_flight_def)
  also have "\<dots> \<le> length (rs @ unsent s)" by simp
  also have "\<dots> = length evs"
    using assms session_length [of base evs session_start] by (simp add: serving_def in_session_def)
  finally show ?thesis .
qed

lemma serving_answers:
  assumes "serving e W base i out md evs rs s" "can_publish s" "zmq_documented e R W out" "zmq_delivers e W"
    and "names_ok conf i out md" "tape_basedir conf = CStr base" "no_shutdown evs"
    and "fitting e (fst (session base evs session_start))"
  shows "\<exists>k s'. (serves e conf R ^^ k) s s' \<and> k \<le> 4 * length evs + 6 \<and>
    queue_of W s' out = map (SerializeResponse e) (fst (session base evs session_start)) \<and>
    queue_of W s' DEFAULTS_ICHAN_NAME = []"
proof -
  from finishes_reply [OF assms(1-3,5-8)] obtain j s1 rs1 where
    j: "((\<lambda>s s'. sys_step e conf R s Act_In s') ^^ j) s s1" "j \<le> reply_rank (in_at s)"
      "serving e W base i out md evs rs1 s1" "unsent s1 = []"
    by (elim exE conjE) (rule that)
  have d1: "delivery e W i out md rs1 s1" using j(3) by (simp add: serving_def)
  have rs1: "fst (session base evs session_start) = rs1"
    using j(3,4) by (simp add: serving_def in_session_def)
  from delivers_all [OF d1 serving_forwarding [OF j(3)] serving_fitting [OF j(3) assms(8)] assms(3-5)]
  obtain k s2 where k: "((\<lambda>s s'. sys_step e conf R s Act_Out s') ^^ k) s1 s2" "k \<le> steps_left W s1"
      "delivery e W i out md rs1 s2" "all_sent W s2"
    by (elim exE conjE) (rule that)
  have "turn_rank (out_at s1) \<le> 3" "reply_rank (in_at s) \<le> 3"
    by (cases "out_at s1"; simp) (cases "in_at s"; simp)
  with j(2) k(2) serving_queue [OF j(3)] have "j + k \<le> 4 * length evs + 6" by (simp add: steps_left_def)
  with serves_steps [OF j(1) k(1)] k(3,4) rs1 show ?thesis
    by (intro exI [of _ "j + k"] exI [of _ s2] conjI) (simp_all add: delivery_def in_flight_def all_sent_def)
qed

text \<open>
  C1. The service the clients see. Let \<open>evs\<close> be the requests the request thread has taken up so
  far, in any run of the program and under any schedule, none of them a SHUTDOWN; let ZeroMQ
  behave as documented and the responses fit into 1024 bytes. Then, once the response thread has
  started, a few steps of the request thread and the response thread (at most four for each request
  and six more), without any further request, lead to a state in which what was sent on the clients'
  channel is byte for byte the responses of the session \<open>evs\<close>: one for each request, in their order,
  as the state machine of the protocol gives them; and nothing is left in the program.
\<close>
theorem requests_get_answered:
  assumes "wineing_init e (shared_static b io) = Inr (Continue (), sh)"
    and "session_run e conf R base (threads_start b sh) evs rs s" "no_shutdown evs"
    and "buffers_ok b" "zmq_documented e R W out" "zmq_delivers e W" "names_ok conf i out md"
    and "tape_basedir conf = CStr base" "fitting e (fst (session base evs session_start))"
    and "out_at s \<notin> {O_Start, O_End}" "g_version (conc (sys_sh s)) \<noteq> INT_MAX"
    and "\<forall>n \<in> {out, DEFAULTS_ICHAN_NAME}.
           wr_queue W (snd (LoadLibrary e ''lib/NxCoreAPI64.dll'' (world io))) n = []"
  shows "\<exists>k s'. (serves e conf R ^^ k) s s' \<and> k \<le> 4 * length evs + 6 \<and>
    wr_queue W (world (sh_io (sys_sh s'))) out =
      map (SerializeResponse e) (fst (session base evs session_start)) \<and>
    wr_queue W (world (sh_io (sys_sh s'))) DEFAULTS_ICHAN_NAME = []"
proof -
  let ?s0 = "threads_start b sh"
  note codes = documented_codes [OF assms(5)] and start = threads_start_inv [OF assms(4,1)]
  note ses0 = threads_start_session [OF assms(1), of base]
  have "not_shutting ?s0"
    using init_Inr [OF assms(1)]
    by (simp add: not_shutting_def threads_start_def sys_start_def out_static_def shared_static_def ctrl_init_def
        ctrl_cmds)
  then have ns: "not_shutting s"
    by (rule not_shutting_run [OF assms(2) start ses0 _ codes assms(8,3)])
  have ses: "in_session base evs rs s"
    using session_run_inv [OF assms(2) start ses0 codes assms(8)] by (rule conjunct2)
  then have "fitting e rs" using assms(9) by (auto simp: in_session_def fitting_def)
  note small = fitting_small [OF this]
  have "program_state e conf R b io rs s"
    by (rule program_state.intros [OF assms(1) session_run_sys [OF assms(2)]])
  from program_delivery [OF this assms(4,5,7) small assms(12)]
  have "serving e W base i out md evs rs s" using ses ns assms(10) by (simp add: serving_def)
  moreover have "can_publish s" using assms(11) by (simp add: can_publish_def)
  ultimately show ?thesis by (rule serving_answers [OF _ _ assms(5-8,3,9)])
qed

end
