(* ===== verification/Delivery_Runs.thy ===== *)
theory Delivery_Runs
  imports Market_Order Service Memory_Runs
begin

text \<open>
  Runs in the concrete environment for the delivery of market data and of responses.
\<close>

subsection \<open>Market data\<close>

text \<open>
  A client starts the real-time stream; NxCore reports its status, a trade, and its status again.
\<close>

fun market_exec :: "'w env \<Rightarrow> w_conf \<Rightarrow> sched list \<Rightarrow> 'w sys \<Rightarrow> (NxMessageType list \<times> 'w sys) option" where
  "market_exec e conf [] s = Some ([], s)"
| "market_exec e conf (x # xs) s = (case sched_step e conf x s of None \<Rightarrow> None
     | Some (a, s') \<Rightarrow> (case market_exec e conf xs s' of None \<Rightarrow> None
         | Some (mts, s'') \<Rightarrow> Some (called a @ mts, s'')))"

lemma market_exec_sound:
  "market_exec e conf xs s = Some (mts', s') \<Longrightarrow> market_run e conf R s0 mts s \<Longrightarrow>
   market_run e conf R s0 (mts @ mts') s'"
proof (induction xs arbitrary: s mts mts')
  case (Cons x xs)
  then obtain a s1 ys where st: "sched_step e conf x s = Some (a, s1)"
      "market_exec e conf xs s1 = Some (ys, s')" "mts' = called a @ ys"
    by (auto split: option.splits)
  from Cons.IH [OF st(2) market_next [OF Cons.prems(2) sched_step_sound [OF st(1)]]] st(3)
  show ?case by simp
qed simp

definition stream_schedule :: "sched list" where
  "stream_schedule = [Go_Out, Go_In, Go_In, Go_In, Go_In, Go_In, Go_Market, Go_Market, Go_Market, Go_Market,
     Go_Callback NxMSG_STATUS, Go_Answer, Go_Callback (NxMSG_OTHER 5), Go_Answer, Go_Callback NxMSG_STATUS]"

lemma stream_run:
  "\<exists>mts s. market_exec demo_quiet demo_conf stream_schedule demo_threads = Some (mts, s) \<and>
     mts = [NxMSG_STATUS, NxMSG_OTHER 5, NxMSG_STATUS] \<and> handling s = [NxMSG_STATUS]"
  by (simp add: stream_schedule_def mem_defs called_def handling_def)

theorem market_messages_conserved_witness:
  "\<exists>mts s. market_run demo_quiet demo_conf (\<lambda>_ _. False) demo_threads mts s \<and>
     mts = [NxMSG_STATUS, NxMSG_OTHER 5, NxMSG_STATUS] \<and>
     dw_queue (world (sh_io (sys_sh s))) ''md'' = [''S'']"
proof -
  obtain mts s where r: "market_exec demo_quiet demo_conf stream_schedule demo_threads = Some (mts, s)"
      "mts = [NxMSG_STATUS, NxMSG_OTHER 5, NxMSG_STATUS]" "handling s = [NxMSG_STATUS]"
    using stream_run by (elim exE conjE) (rule that)
  have run: "market_run demo_quiet demo_conf (\<lambda>_ _. False) demo_threads mts s"
    using market_exec_sound [OF r(1) market_refl] by simp
  have n: "names_ok demo_conf ''in'' ''out'' ''md''" "''md'' \<noteq> ''in''"
    by (simp_all add: names_ok_def demo_conf_def DEFAULTS_ICHAN_NAME_def)
  have "world_leaves (\<lambda>_ _. False) demo_wire ''md''" by (simp add: world_leaves_def)
  moreover have "wr_queue demo_wire (snd (LoadLibrary demo_quiet ''lib/NxCoreAPI64.dll'' (world (demo_io [''r''])))) ''md'' = []"
    by (simp add: demo_wire_def demo_io_def demo_put_def demo_world0_def)
  ultimately have "dw_queue (world (sh_io (sys_sh s))) ''md'' @ [''S''] = replicate 2 ''S''"
    using market_messages_conserved [OF demo_init run demo_buffers_ok demo_documented n] r(2,3)
    by (simp add: demo_wire_def market_bytes_def eval_nat_numeral)
  then have "dw_queue (world (sh_io (sys_sh s))) ''md'' = [''S'']"
    by (simp add: eval_nat_numeral)
  with run r(2) show ?thesis by (intro exI conjI)
qed

subsection \<open>The service\<close>

text \<open>
  A client has asked twice for the real-time stream: the first response waits in the inproc queue,
  the second one is not sent yet, and the response thread is at the head of its loop.
\<close>

definition waiting_schedule :: "sched list" where
  "waiting_schedule = [Go_Out, Go_In, Go_In, Go_In, Go_In, Go_In, Go_In, Go_In, Go_In, Go_In]"

abbreviation demo_threads2 :: "demo_world sys" where
  "demo_threads2 \<equiv> threads_start demo_buffers (demo_boot [''r'', ''r''])"

definition start_request :: Request where
  "start_request = \<lparr>requestId = 7, req_type = MARKET_START, tape_file = None\<rparr>"

lemma waiting_run:
  "\<exists>rs s. demo_run [''r'', ''r''] waiting_schedule = Some (rs, s) \<and> length (pending s) = 1 \<and> length (unsent s) = 1 \<and>
     out_at s \<notin> {O_Start, O_End} \<and> g_version (conc (sys_sh s)) \<noteq> INT_MAX"
  by (simp add: waiting_schedule_def run_defs unsent_def)

lemma waiting_events:
  "demo_events [''r'', ''r''] waiting_schedule = [(start_request, False), (start_request, False)]"
  by (simp add: waiting_schedule_def run_defs event_defs start_request_def as_cstr_def c_str_def NUL_def)

lemma waiting_answers:
  "map demo_serialize (fst (session ''C:'' [(start_request, False), (start_request, False)] session_start)) =
     [''+'', ''#Already in RUNNING state.'']"
  by (simp add: start_request_def session_start_def session_turn_def response_of_def Let_def ctrl_cmds demo_serialize_def)

lemma demo_delivers: "zmq_delivers demo_quiet demo_wire"
  by (auto simp: zmq_delivers_def demo_wire_def demo_recv_def split: option.splits list.splits)

theorem requests_get_answered_witness:
  "\<exists>evs rs s k s'. session_run demo_quiet demo_conf (\<lambda>_ _. False) ''C:'' demo_threads2 evs rs s \<and>
     length evs = 2 \<and> length (pending s) = 1 \<and> length (unsent s) = 1 \<and>
     (serves demo_quiet demo_conf (\<lambda>_ _. False) ^^ k) s s' \<and>
     sent s' = [''+'', ''#Already in RUNNING state.''] \<and> pending s' = []"
proof -
  let ?evs = "[(start_request, False), (start_request, False)]"
  obtain rs s where r: "demo_run [''r'', ''r''] waiting_schedule = Some (rs, s)"
     "length (pending s) = 1" "length (unsent s) = 1" "out_at s \<notin> {O_Start, O_End}"
     "g_version (conc (sys_sh s)) \<noteq> INT_MAX"
    using waiting_run by (elim exE conjE) (rule that)
  have run: "session_run demo_quiet demo_conf (\<lambda>_ _. False) ''C:'' demo_threads2 ?evs rs s"
    using sched_session_sound [OF r(1), where base = "''C:''"] unfolding waiting_events .
  have n: "names_ok demo_conf ''in'' ''out'' ''md''"
    by (simp add: names_ok_def demo_conf_def DEFAULTS_ICHAN_NAME_def)
  have "no_shutdown ?evs" by (simp add: no_shutdown_def start_request_def)
  moreover have "fitting demo_quiet (fst (session ''C:'' ?evs session_start))"
    using waiting_answers by (auto simp: map_eq_Cons_conv fitting_def OUT_BUFFER_SIZE_def)
  moreover have "\<forall>n \<in> {''out'', DEFAULTS_ICHAN_NAME}.
       wr_queue demo_wire (snd (LoadLibrary demo_quiet ''lib/NxCoreAPI64.dll'' (world (demo_io [''r'', ''r''])))) n = []"
    by (simp add: demo_wire_def demo_io_def demo_put_def demo_world0_def DEFAULTS_ICHAN_NAME_def)
  ultimately obtain k s' where k: "(serves demo_quiet demo_conf (\<lambda>_ _. False) ^^ k) s s'"
    "sent s' = map demo_serialize (fst (session ''C:'' ?evs session_start))" "pending s' = []"
    using requests_get_answered [OF demo_init run _ demo_buffers_ok demo_documented demo_delivers n demo_names(4) _ r(4,5)]
    by (auto simp: demo_wire_def)
  from run r(2,3) k(1) k(2) [unfolded waiting_answers] k(3) show ?thesis
    by (intro exI [of _ ?evs] exI [of _ rs] exI [of _ s] exI [of _ k] exI [of _ s'] conjI) simp_all
qed

end
