(* ===== verification/Conc_Runs.thy ===== *)
theory Conc_Runs
  imports Conc_Interleaving
begin

text \<open>
  Concrete interleavings: a run of the program's threads that the properties of
  \<open>Conc_Interleaving\<close> are applied to, and what two owners do to each other.
\<close>

subsection \<open>Concrete runs\<close>

fun publications :: "('t \<Rightarrow> 'g \<Rightarrow> 'g res) \<Rightarrow> ('t \<Rightarrow> 'g \<Rightarrow> 't res) \<Rightarrow> ('t \<Rightarrow> 'v) \<Rightarrow>
    (nat \<times> ('t, 'g) action) list \<Rightarrow> ('t, 'g) csys \<Rightarrow> 'v list" where
  "publications put get view [] s = []"
| "publications put get view ((i, a) # xs) s = published view i a s @
     (case lazy_step put get (i, a) s of None \<Rightarrow> [] | Some s' \<Rightarrow> publications put get view xs s')"

lemma sw_run_steps_from:
  "sw_run put get viewT viewG okT okG w s0 s h \<Longrightarrow> \<forall>(i, a) \<in> set xs. role okT okG w i a \<Longrightarrow>
   lazy_steps put get xs s = Some s' \<Longrightarrow>
   sw_run put get viewT viewG okT okG w s0 s' (h @ publications put get viewT xs s)"
proof (induction xs arbitrary: s h)
  case Nil
  then show ?case by simp
next
  case (Cons x xs)
  obtain i a where x: "x = (i, a)" by (cases x)
  with Cons.prems(3) obtain s1 where s1: "lazy_step put get (i, a) s = Some s1"
      "lazy_steps put get xs s1 = Some s'"
    by (auto simp: bind_eq_Some_conv)
  from Cons.prems(2) x have "role okT okG w i a" by auto
  with Cons.prems(1) s1(1) have "sw_run put get viewT viewG okT okG w s0 s1 (h @ published viewT i a s)"
    by (intro sw_run.step)
  from Cons.IH [OF this _ s1(2)] Cons.prems(2) x s1(1) show ?case by simp
qed

lemmas sw_run_steps = sw_run_steps_from [OF sw_run.start]

text \<open>The program's start: \<open>cchan_in_thread\<close> is thread 0, the readers are the others.\<close>

definition ctrl_sys0 :: "(w_ctrl, w_ctrl) csys" where
  "ctrl_sys0 = \<lparr>sh_version = DEFAULTS_SHARED_VERSION_INIT, sh_lock = None,
     sh_data = ctrl_init (replicate 1024 NUL),
     threads = (\<lambda>i. \<lparr>th_pc = Idle, th_version = (if i = 0 then DEFAULTS_SHARED_VERSION_INIT
                      else DEFAULTS_SHARED_VERSION_READ_INIT),
                      th_data = ctrl_init (replicate 1024 NUL)\<rparr>)\<rparr>"

lemma ctrl_sys0_start: "ctrl_start 0 ctrl_sys0"
  by (simp add: sw_start_def ctrl_sys0_def shared_versions wf_ctrl_init
      WINEING_CTRL_DEFAULT_DATA_SIZE_def)

text \<open>
  Thread 1 has synchronised with the initial content; then thread 0 publishes MARKET_STOP, and
  thread 2 copies it.
\<close>

definition stop_ctrl :: w_ctrl where
  "stop_ctrl = (ctrl_init (replicate 1024 NUL))\<lparr>w_cmd := WINEING_CTRL_CMD_MARKET_STOP\<rparr>"

definition demo_schedule :: "(nat \<times> (w_ctrl, w_ctrl) action) list" where
  "demo_schedule = [(1, Call_Local), (1, Run), (1, Run), (1, Run), (1, Run),
     (0, Set_Local stop_ctrl), (0, Call_Global), (0, Run), (0, Run), (0, Run), (0, Run),
     (2, Call_Local), (2, Run), (2, Run), (2, Run)]"

lemma demo_roles: "\<forall>(i, a) \<in> set demo_schedule. role wf_ctrl wf_ctrl 0 i a"
  by (simp add: demo_schedule_def stop_ctrl_def wf_ctrl_def ctrl_init_def
      WINEING_CTRL_DEFAULT_DATA_SIZE_def)

definition ctrl_sys1 :: "(w_ctrl, w_ctrl) csys" where
  "ctrl_sys1 = ctrl_sys0\<lparr>sh_version := 1, sh_lock := Some 2, sh_data := stop_ctrl,
     threads := (threads ctrl_sys0)
       (0 := \<lparr>th_pc = Idle, th_version = 1, th_data = stop_ctrl\<rparr>,
        1 := \<lparr>th_pc = Idle, th_version = 0, th_data = ctrl_init (replicate 1024 NUL)\<rparr>,
        2 := \<lparr>th_pc = L_Unlock, th_version = 1, th_data = stop_ctrl\<rparr>)\<rparr>"

lemma demo_exec:
  "lazy_steps copy_local_to_shared copy_shared_to_local demo_schedule ctrl_sys0 = Some ctrl_sys1"
  by (simp add: demo_schedule_def lazy_step_def ctrl_sys0_def ctrl_sys1_def shared_versions
      set_thr_def stop_ctrl_def copy_defs ctrl_init_def INT_MAX_def c_inc_def fun_eq_iff)

lemma demo_publications:
  "publications copy_local_to_shared copy_shared_to_local ctrl_view demo_schedule ctrl_sys0
     = [(WINEING_CTRL_CMD_MARKET_STOP, [])]"
  by (simp add: demo_schedule_def lazy_step_def ctrl_sys0_def shared_versions published_def
      set_thr_def stop_ctrl_def copy_defs ctrl_init_def INT_MAX_def c_inc_def ctrl_view_def)

lemma demo_run:
  "ctrl_run 0 ctrl_sys0 ctrl_sys1 [(WINEING_CTRL_CMD_INIT, []), (WINEING_CTRL_CMD_MARKET_STOP, [])]"
proof -
  have "ctrl_view (sh_data ctrl_sys0) = (WINEING_CTRL_CMD_INIT, [])"
    by (simp add: ctrl_sys0_def ctrl_view_init)
  then show ?thesis
    using sw_run_steps [OF demo_roles demo_exec, of ctrl_view ctrl_view]
    by (simp add: demo_publications)
qed

definition ctrl_sys2 :: "(w_ctrl, w_ctrl) csys" where
  "ctrl_sys2 = set_thr 2 \<lparr>th_pc = Idle, th_version = 1, th_data = stop_ctrl\<rparr>
     (ctrl_sys1\<lparr>sh_lock := None\<rparr>)"

lemma demo_step:
  "lazy_step copy_local_to_shared copy_shared_to_local (2, Run) ctrl_sys1 = Some ctrl_sys2"
  by (simp add: lazy_step_def ctrl_sys1_def ctrl_sys2_def)

lemma demo_run2:
  "ctrl_run 0 ctrl_sys0 ctrl_sys2 [(WINEING_CTRL_CMD_INIT, []), (WINEING_CTRL_CMD_MARKET_STOP, [])]"
  using sw_run.step [OF demo_run _ demo_step] by (simp add: published_def ctrl_sys1_def)

theorem one_thread_in_critical_section_witness:
  "in_cs (th_pc (threads ctrl_sys1 2)) \<and> sh_lock ctrl_sys1 = Some 2"
proof -
  have "in_cs (th_pc (threads ctrl_sys1 2))" by (simp add: ctrl_sys1_def)
  from one_thread_in_critical_section [OF demo_run ctrl_sys0_start this] this
  show ?thesis by blast
qed

theorem reader_holds_one_publication_witness:
  "\<exists>k < Suc (Suc 0). sint (th_version (threads ctrl_sys1 2)) = int k \<and>
     ctrl_view (th_data (threads ctrl_sys1 2)) =
       [(WINEING_CTRL_CMD_INIT, []), (WINEING_CTRL_CMD_MARKET_STOP, [])] ! k"
proof -
  have "th_pc (threads ctrl_sys1 2) \<noteq> L_Copy" "(2::nat) \<noteq> 0"
    "sint (sh_version ctrl_sys0) \<le> sint (th_version (threads ctrl_sys1 2))"
    by (simp_all add: ctrl_sys1_def ctrl_sys0_def shared_versions)
  moreover have "sint (sh_version ctrl_sys0) = 0" by (simp add: ctrl_sys0_def shared_versions)
  ultimately show ?thesis
    using reader_holds_one_publication [OF demo_run ctrl_sys0_start, of 2] by simp
qed

lemma unlocked_test_is_safe_example:
  "th_version (threads ctrl_sys2 2) = sh_version ctrl_sys2 \<and>
   ctrl_view (th_data (threads ctrl_sys2 2)) = (WINEING_CTRL_CMD_MARKET_STOP, [])"
proof -
  have "th_pc (threads ctrl_sys2 2) = Idle" "(2::nat) \<noteq> 0"
    "sint (sh_version ctrl_sys0) \<le> sint (th_version (threads ctrl_sys2 2))"
    "th_version (threads ctrl_sys2 2) = sh_version ctrl_sys2"
    by (simp_all add: ctrl_sys1_def ctrl_sys2_def ctrl_sys0_def shared_versions)
  then show ?thesis
    using unlocked_test_is_safe [OF demo_run2 ctrl_sys0_start, of 2] by simp
qed

definition demo_register :: "(c_int \<times> string) register" where
  "demo_register = \<lparr>written = [(WINEING_CTRL_CMD_INIT, []), (WINEING_CTRL_CMD_MARKET_STOP, [])],
     observed = (\<lambda>i. if i = 1 then Some (WINEING_CTRL_CMD_INIT, [])
                    else if i = 2 then Some (WINEING_CTRL_CMD_MARKET_STOP, []) else None)\<rparr>"

lemma demo_represents:
  "represents ctrl_view 0 0 ctrl_sys1
     [(WINEING_CTRL_CMD_INIT, []), (WINEING_CTRL_CMD_MARKET_STOP, [])] demo_register"
  by (auto simp: represents_def demo_register_def ctrl_sys1_def ctrl_sys0_def stop_ctrl_def
      ctrl_view_def ctrl_init_def shared_versions)

theorem implements_register_witness:
  "\<exists>r'. (r' = demo_register \<or> reg_step 0 demo_register r') \<and>
     represents ctrl_view 0 0 ctrl_sys2
       [(WINEING_CTRL_CMD_INIT, []), (WINEING_CTRL_CMD_MARKET_STOP, [])] r'"
proof -
  have v: "sint (sh_version ctrl_sys0) = 0" by (simp add: ctrl_sys0_def shared_versions)
  have p: "published ctrl_view 2 (Run :: (w_ctrl, w_ctrl) action) ctrl_sys1 = []"
    by (simp add: published_def ctrl_sys1_def)
  show ?thesis
    using implements_register [OF demo_run ctrl_sys0_start _ _ demo_step, of demo_register]
      demo_represents by (simp add: v p)
qed

lemma versions_never_decrease_example:
  "sint (th_version (threads ctrl_sys1 2)) \<le> sint (th_version (threads ctrl_sys2 2))"
  using versions_never_decrease [OF demo_run ctrl_sys0_start _ demo_step] by simp

subsection \<open>Two owners\<close>

text \<open>The four statements of a thread inside one of the functions.\<close>

abbreviation four_steps :: "nat \<Rightarrow> (nat \<times> ('t, 'g) action) list" where
  "four_steps i \<equiv> [(i, Run), (i, Run), (i, Run), (i, Run)]"

text \<open>
  Threads \<open>i\<close> and \<open>j\<close> both have the current version, \<open>r\<close> has any but the next one, and none of the
  three is inside the functions.
\<close>

definition owners_and_reader :: "('t \<Rightarrow> bool) \<Rightarrow> ('g \<Rightarrow> bool) \<Rightarrow> nat \<Rightarrow> nat \<Rightarrow> nat \<Rightarrow> ('t, 'g) csys \<Rightarrow> bool" where
  "owners_and_reader okT okG i j r s \<longleftrightarrow> distinct [i, j, r] \<and> sh_lock s = None \<and> okG (sh_data s) \<and>
     list_all (\<lambda>k. th_pc (threads s k) = Idle \<and> okT (th_data (threads s k))) [i, j, r] \<and>
     th_version (threads s i) = sh_version s \<and> th_version (threads s j) = sh_version s \<and>
     sh_version s \<noteq> INT_MAX \<and> th_version (threads s r) \<noteq> sh_version s + 1"

context copy_pair
begin

lemma both_owners_write:
  assumes "owners_and_reader okT okG i j r s"
  shows "\<exists>s'. lazy_steps put get ([(i, Call_Global), (j, Call_Global)] @ four_steps i @
         (r, Call_Local) # four_steps r @ four_steps j) s = Some s' \<and>
     sh_version s' = sh_version s + 1 \<and>
     list_all (\<lambda>k. th_pc (threads s' k) = Idle \<and> th_version (threads s' k) = sh_version s') [i, j, r] \<and>
     viewT (th_data (threads s' r)) = viewT (th_data (threads s i)) \<and>
     viewG (sh_data s') = viewT (th_data (threads s j)) \<and>
     lazy_step put get (r, Call_Local) s' = Some s'"
proof -
  have ok: "okG (sh_data s)" "okT (th_data (threads s i))" "okT (th_data (threads s j))" "okT (th_data (threads s r))"
    and d: "i \<noteq> j" "i \<noteq> r" "j \<noteq> r" "j \<noteq> i" "r \<noteq> i" "r \<noteq> j"
    using assms by (auto simp: owners_and_reader_def)
  obtain g1 where g1: "put (th_data (threads s i)) (sh_data s) = Inr g1" "okG g1"
      "viewG g1 = viewT (th_data (threads s i))"
    using put_ok [OF ok(2,1)] by blast
  obtain t where t: "get (th_data (threads s r)) g1 = Inr t" "viewT t = viewG g1"
    using get_ok [OF ok(4) g1(2)] by blast
  obtain g2 where g2: "put (th_data (threads s j)) g1 = Inr g2" "viewG g2 = viewT (th_data (threads s j))"
    using put_ok [OF ok(3) g1(2)] by blast
  have v: "c_inc (sh_version s) = Inr (sh_version s + 1)"
    using assms by (simp add: owners_and_reader_def c_inc_ok)
  show ?thesis
    using assms d v g1 t g2 by (simp add: owners_and_reader_def lazy_step_def)
qed

text \<open>One after the other, the second of them is refused, and gets the same return value.\<close>

lemma second_owner_refused:
  assumes "owners_and_reader okT okG i j r s"
  shows "\<exists>s'. lazy_steps put get ((i, Call_Global) # four_steps i @ [(j, Call_Global), (j, Run)]) s = Some s' \<and>
     sh_version s' = sh_version s + 1 \<and>
     list_all (\<lambda>k. th_pc (threads s' k) = Idle \<and> th_version (threads s' k) = sh_version s') [i, j] \<and>
     viewG (sh_data s') = viewT (th_data (threads s i))"
proof -
  have ok: "okG (sh_data s)" "okT (th_data (threads s i))" and d: "i \<noteq> j" "j \<noteq> i"
    using assms by (auto simp: owners_and_reader_def)
  obtain g1 where g1: "put (th_data (threads s i)) (sh_data s) = Inr g1"
      "viewG g1 = viewT (th_data (threads s i))"
    using put_ok [OF ok(2,1)] by blast
  have v: "c_inc (sh_version s) = Inr (sh_version s + 1)"
    using assms by (simp add: owners_and_reader_def c_inc_ok)
  show ?thesis
    using assms d v g1 by (simp add: owners_and_reader_def lazy_step_def)
qed

end

text \<open>
  C35. The version test of the global update is not repeated under the lock, so it does not make
  the update conditional, as its comment promises. Take any two threads \<open>i\<close> and \<open>j\<close> that have the
  current version, and any reader \<open>r\<close>. If both calls pass the test before the first of them takes
  the lock, both threads write, under the same new version number; a reader that
  synchronises between the two writes has the data of \<open>i\<close> where the shared data is that of \<open>j\<close>,
  with the global version, so that its next synchronisation does nothing. If instead \<open>j\<close> calls
  after \<open>i\<close> has returned it is refused, and the shared data stays that of \<open>i\<close>; in both cases \<open>j\<close>
  gets the same return value, so it cannot tell which of the two has happened.
\<close>
theorem two_owners_lose_an_update:
  assumes "owners_and_reader wf_ctrl wf_ctrl i j r s"
  shows "(\<exists>s'. lazy_steps copy_local_to_shared copy_shared_to_local
         ([(i, Call_Global), (j, Call_Global)] @ four_steps i @ (r, Call_Local) # four_steps r @ four_steps j) s =
           Some s' \<and>
       sh_version s' = sh_version s + 1 \<and>
       list_all (\<lambda>k. th_pc (threads s' k) = Idle \<and> th_version (threads s' k) = sh_version s') [i, j, r] \<and>
       ctrl_view (th_data (threads s' r)) = ctrl_view (th_data (threads s i)) \<and>
       ctrl_view (sh_data s') = ctrl_view (th_data (threads s j)) \<and>
       lazy_step copy_local_to_shared copy_shared_to_local (r, Call_Local) s' = Some s') \<and>
     (\<exists>s'. lazy_steps copy_local_to_shared copy_shared_to_local
         ((i, Call_Global) # four_steps i @ [(j, Call_Global), (j, Run)]) s = Some s' \<and>
       sh_version s' = sh_version s + 1 \<and>
       list_all (\<lambda>k. th_pc (threads s' k) = Idle \<and> th_version (threads s' k) = sh_version s') [i, j] \<and>
       ctrl_view (sh_data s') = ctrl_view (th_data (threads s i)))"
  by (intro conjI wctrl.both_owners_write wctrl.second_owner_refused [OF assms] assms)

text \<open>Threads 0 and 1 both own the version; 0 is about to publish MARKET_STOP, 1 still has INIT.\<close>

definition two_owners :: "(w_ctrl, w_ctrl) csys" where
  "two_owners = ctrl_sys0\<lparr>threads := (threads ctrl_sys0)(
     0 := \<lparr>th_pc = Idle, th_version = sh_version ctrl_sys0, th_data = stop_ctrl\<rparr>,
     1 := \<lparr>th_pc = Idle, th_version = sh_version ctrl_sys0, th_data = ctrl_init (replicate 1024 NUL)\<rparr>)\<rparr>"

lemma two_owners_start: "owners_and_reader wf_ctrl wf_ctrl 0 1 2 two_owners"
  by (simp add: owners_and_reader_def two_owners_def ctrl_sys0_def stop_ctrl_def shared_versions wf_ctrl_def
      ctrl_init_def WINEING_CTRL_DEFAULT_DATA_SIZE_def INT_MAX_def)

theorem two_owners_lose_an_update_witness:
  "\<exists>s'. lazy_steps copy_local_to_shared copy_shared_to_local
       ([(0, Call_Global), (1, Call_Global)] @ four_steps 0 @ (2, Call_Local) # four_steps 2 @ four_steps 1)
       two_owners = Some s' \<and>
     ctrl_view (th_data (threads s' 2)) = (WINEING_CTRL_CMD_MARKET_STOP, []) \<and>
     ctrl_view (sh_data s') = (WINEING_CTRL_CMD_INIT, []) \<and>
     lazy_step copy_local_to_shared copy_shared_to_local (2, Call_Local) s' = Some s'"
proof -
  have v: "ctrl_view (th_data (threads two_owners 0)) = (WINEING_CTRL_CMD_MARKET_STOP, [])"
    "ctrl_view (th_data (threads two_owners 1)) = (WINEING_CTRL_CMD_INIT, [])"
    by (simp_all add: two_owners_def stop_ctrl_def ctrl_view_def ctrl_init_def)
  from two_owners_lose_an_update [OF two_owners_start] show ?thesis unfolding v by blast
qed

end
