(* ===== verification/Conc_Test.thy ===== *)
theory Conc_Test
  imports Conc
begin

text \<open>
  The unit test of the shared-state functions, \<^verbatim>\<open>src/test/c/impl/conc/conc_test.cc\<close>: its data
  and copy functions are another instance of \<open>copy_pair\<close>, and what the test checks holds.
\<close>

record my_data =
  md_char :: char
  md_size :: nat

definition t_to_g :: "my_data \<Rightarrow> my_data \<Rightarrow> my_data res" where
  "t_to_g local shared = Inr (shared\<lparr>md_size := md_size local, md_char := md_char local\<rparr>)"

definition g_to_t :: "my_data \<Rightarrow> my_data \<Rightarrow> my_data res" where
  "g_to_t local shared = Inr (local\<lparr>md_size := md_size shared, md_char := md_char shared\<rparr>)"

interpretation my: copy_pair t_to_g g_to_t "\<lambda>d. (md_char d, md_size d)" "\<lambda>d. (md_char d, md_size d)"
    "\<lambda>_. True" "\<lambda>_. True"
  by unfold_locales (auto simp: t_to_g_def g_to_t_def)

text \<open>
  The unit test's scenario: after \<open>lazy_init(2)\<close> a global update with version -1 is refused,
  leaves the shared data as it was and returns 2; a thread that then synchronises gets version
  2 and the shared data, and from there on its update succeeds with version 3.
\<close>
lemma update_needs_current_version:
  "lazy_update_global_if_owner t_to_g (- 1) t (lazy_init 2 conc_static, g) =
     Inr (2, lazy_init 2 conc_static, g) \<and>
   lazy_update_local_if_changed g_to_t (- 1) t (lazy_init 2 conc_static, g) =
     Inr (2, g, lazy_init 2 conc_static, g) \<and>
   lazy_update_global_if_owner t_to_g 2 t (lazy_init 2 conc_static, g) =
     Inr (3, (lazy_init 2 conc_static)\<lparr>g_version := 3\<rparr>, t)"
  by (simp add: lazy_init_def conc_static_def conc_op_defs t_to_g_def g_to_t_def c_inc_def INT_MAX_def)

subsection \<open>The tests as they are run\<close>

text \<open>
  The size of the struct \<open>cache_line_aligned\<close>, one \<open>int\<close> aligned to a given number of bytes, is the
  compiler's choice and an argument. It is documented to be a multiple of the alignment, with
  less padding than the alignment.
\<close>

definition sizeof_documented :: "(nat \<Rightarrow> nat) \<Rightarrow> bool" where
  "sizeof_documented sizeof \<longleftrightarrow> (\<forall>a > 0. a dvd sizeof a \<and> 4 \<le> sizeof a \<and> sizeof a < 4 + a)"

definition CACHE_LINE_SIZE :: nat where "CACHE_LINE_SIZE = 64"

text \<open>
  A test gives the conditions it passes to \<open>fail_unless\<close>, in order, or a fault. The check library
  starts each test from the static state.
\<close>

type_synonym test = "bool list res"

definition test_StructIsCacheLineAligned :: "(nat \<Rightarrow> nat) \<Rightarrow> test" where
  "test_StructIsCacheLineAligned sizeof = Inr [sizeof CACHE_LINE_SIZE = CACHE_LINE_SIZE]"

definition test_UpdateGlobalFailsIfNotOwner :: test where
  "test_UpdateGlobalFailsIfNotOwner =
     (let g_data = \<lparr>md_char = CHR ''a'', md_size = 1\<rparr>;
          t_data = \<lparr>md_char = CHR ''b'', md_size = 0\<rparr>;
          t_version = - 1
      in res_bind (lazy_update_global_if_owner t_to_g t_version t_data (lazy_init 2 conc_static, g_data))
           (\<lambda>(actual, s, g_data).
         res_bind (lazy_destroy s) (\<lambda>s.
         Inr [t_version + 1 \<noteq> actual, CHR ''a'' = md_char g_data, 2 = actual])))"

definition lazy_suite :: "(nat \<Rightarrow> nat) \<Rightarrow> test list" where
  "lazy_suite sizeof = [test_StructIsCacheLineAligned sizeof, test_UpdateGlobalFailsIfNotOwner]"

text \<open>
  \<open>main\<close> of \<^verbatim>\<open>src/test/c/main_test.cc\<close>. The check library runs a suite and counts the tests that
  failed: a test with a condition that does not hold, or that crashes.
\<close>

definition main_test :: "(nat \<Rightarrow> nat) \<Rightarrow> (test list \<Rightarrow> nat) \<Rightarrow> int" where
  "main_test sizeof srunner_ntests_failed =
     (let number_failed = srunner_ntests_failed (lazy_suite sizeof) in if number_failed = 0 then 0 else 1)"

definition test_passes :: "test \<Rightarrow> bool" where
  "test_passes t = (case t of Inl _ \<Rightarrow> False | Inr conds \<Rightarrow> list_all id conds)"

definition check_documented :: "(test list \<Rightarrow> nat) \<Rightarrow> bool" where
  "check_documented f \<longleftrightarrow> (\<forall>ts. f ts = length (filter (\<lambda>t. \<not> test_passes t) ts))"

text \<open>
  The test program succeeds: the version fills a cache line exactly, the update without the
  current version is refused and reported, and no test faults.
\<close>

lemma sizeof_cache_line:
  assumes "sizeof_documented sizeof"
  shows "sizeof CACHE_LINE_SIZE = CACHE_LINE_SIZE"
proof -
  have "64 dvd sizeof 64 \<and> 4 \<le> sizeof 64 \<and> sizeof 64 < 4 + 64"
    using assms zero_less_numeral unfolding sizeof_documented_def by blast
  then show ?thesis unfolding CACHE_LINE_SIZE_def by presburger
qed

lemma unit_tests_pass:
  assumes "sizeof_documented sizeof" "check_documented srunner_ntests_failed"
  shows "main_test sizeof srunner_ntests_failed = 0"
proof -
  have "test_passes (test_StructIsCacheLineAligned sizeof)"
    by (simp add: test_passes_def test_StructIsCacheLineAligned_def sizeof_cache_line [OF assms(1)])
  moreover have "test_passes test_UpdateGlobalFailsIfNotOwner"
    by (simp add: test_passes_def test_UpdateGlobalFailsIfNotOwner_def conc_op_defs
        conc_static_def lazy_destroy_def lazy_init_def pthread_mutex_destroy_def Let_def)
  ultimately show ?thesis using assms(2) by (simp add: main_test_def lazy_suite_def check_documented_def)
qed

end
