(* ===== verification/Pointer_Size.thy ===== *)
theory Pointer_Size
  imports Wineing_Prelude
begin

text \<open>
  Model of \<^verbatim>\<open>src/playground/c/pointer-size.cc\<close>, which prints the sizes of pointers and converts a
  pointer to \<open>int\<close> and back. An address is a word of the width of the machine; casts are those of
  g++, which truncates a wide address and extends the sign of an \<open>int\<close>.
\<close>

record mystruct =
  ms_a :: c_int
  ms_b :: c_int
  ms_c :: c_int
  ms_d :: c_int

definition sizeof_int :: nat where "sizeof_int = 4"

text \<open>Four members of type \<open>int\<close>, with no padding between them.\<close>

definition sizeof_mystruct :: nat where "sizeof_mystruct = 4 * sizeof_int"

definition sizeof_pointer :: "'p::len word \<Rightarrow> nat" where
  "sizeof_pointer p = LENGTH('p) div 8"

definition pointer_to_int :: "'p::len word \<Rightarrow> c_int" where "pointer_to_int p = ucast p"

definition int_to_pointer :: "c_int \<Rightarrow> 'p::len word" where "int_to_pointer v = scast v"

text \<open>C++ refuses the cast of a pointer to an integer type it does not fit into.\<close>

definition cast_allowed :: "'p::len word \<Rightarrow> bool" where
  "cast_allowed p \<longleftrightarrow> sizeof_pointer p \<le> sizeof_int"

datatype 'p line = Size_Line string nat | Pointer_Line string 'p 'p

text \<open>The lines the program prints, \<open>i\<close> being the address that \<open>new\<close> gives.\<close>

definition pointer_size_main :: "'p::len word \<Rightarrow> 'p word line list" where
  "pointer_size_main i =
     (let val = pointer_to_int i;
          p = int_to_pointer val
      in [Size_Line ''Sizeof struct: %zu bytes'' sizeof_mystruct,
          Size_Line ''Sizeof pointer: %zu bytes'' (sizeof_pointer i),
          Size_Line ''Sizeof void ptr: %zu bytes'' (sizeof_pointer i),
          Size_Line ''Sizeof int cast ptr: %zu bytes'' (sizeof_pointer i),
          Size_Line ''Sizeof int: %zu'' sizeof_int,
          Pointer_Line ''ptr equals? %p == %p'' i p])"

text \<open>
  On a machine of any width the pointer survives exactly when its address, read as a signed
  number, is one of an \<open>int\<close>.
\<close>

lemma pointer_round_trip_iff:
  "int_to_pointer (pointer_to_int p) = (p :: 'p::len word) \<longleftrightarrow> - (2 ^ 31) \<le> sint p \<and> sint p < 2 ^ 31"
proof -
  have i: "sint (pointer_to_int p) = signed_take_bit 31 (uint p)"
    by (simp add: pointer_to_int_def sint_uint unsigned_ucast_eq signed_take_bit_take_bit)
  show ?thesis
  proof (cases "LENGTH('p) \<le> 32")
    case True
    have "take_bit LENGTH('p) (uint p) = uint p" by (metis uint_word_of_int_eq word_of_int_uint)
    with True have "take_bit LENGTH('p) (signed_take_bit 31 (uint p)) = uint p"
      by (simp add: take_bit_signed_take_bit)
    then have "uint (int_to_pointer (pointer_to_int p) :: 'p word) = uint p"
      unfolding int_to_pointer_def scast_eq i uint_word_of_int_eq .
    then have "int_to_pointer (pointer_to_int p) = p" by (simp only: word_uint_eq_iff)
    moreover have "(2 :: int) ^ (LENGTH('p) - Suc 0) \<le> 2 ^ 31" using True by (intro power_increasing) simp_all
    then have "- (2 ^ 31) \<le> sint p \<and> sint p < 2 ^ 31"
      using sint_ge [of p] sint_lt [of p] by simp
    ultimately show ?thesis by simp
  next
    case False
    then have "sint (int_to_pointer (pointer_to_int p) :: 'p word) = sint (pointer_to_int p)"
      by (simp add: int_to_pointer_def sint_up_scast is_up)
    also have "\<dots> = signed_take_bit 31 (sint p)"
      using False unfolding i by (simp add: sint_uint signed_take_bit_signed_take_bit)
    finally have "int_to_pointer (pointer_to_int p) = p \<longleftrightarrow> signed_take_bit 31 (sint p) = sint p"
      by (auto intro: signed_word_eqI)
    then show ?thesis by (simp add: signed_take_bit_int_eq_self_iff)
  qed
qed

text \<open>
  The comment of the file: on a 32-bit machine the casts are allowed and the two printed pointers
  are equal, whatever the address; on a 64-bit machine the program does not compile, and would
  print different pointers for addresses beyond the range of an \<open>int\<close>.
\<close>

lemma pointer_size_32:
  fixes i :: "32 word"
  shows "cast_allowed i" "pointer_size_main i =
    [Size_Line ''Sizeof struct: %zu bytes'' 16, Size_Line ''Sizeof pointer: %zu bytes'' 4,
     Size_Line ''Sizeof void ptr: %zu bytes'' 4, Size_Line ''Sizeof int cast ptr: %zu bytes'' 4,
     Size_Line ''Sizeof int: %zu'' 4, Pointer_Line ''ptr equals? %p == %p'' i i]"
proof -
  have "int_to_pointer (pointer_to_int i) = i"
    using sint_ge [of i] sint_lt [of i] by (simp add: pointer_round_trip_iff)
  then show "cast_allowed i" "pointer_size_main i =
    [Size_Line ''Sizeof struct: %zu bytes'' 16, Size_Line ''Sizeof pointer: %zu bytes'' 4,
     Size_Line ''Sizeof void ptr: %zu bytes'' 4, Size_Line ''Sizeof int cast ptr: %zu bytes'' 4,
     Size_Line ''Sizeof int: %zu'' 4, Pointer_Line ''ptr equals? %p == %p'' i i]"
    by (simp_all add: cast_allowed_def pointer_size_main_def sizeof_pointer_def sizeof_int_def
        sizeof_mystruct_def)
qed

lemma pointer_size_64:
  fixes i :: "64 word"
  shows "\<not> cast_allowed i" "int_to_pointer (pointer_to_int (0x7F0012345678 :: 64 word)) = (0x12345678 :: 64 word)"
  by (simp_all add: cast_allowed_def sizeof_pointer_def sizeof_int_def int_to_pointer_def pointer_to_int_def)

end
