(* ===== verification/Spec2Isabelle.thy ===== *)
theory Spec2Isabelle
  imports Wineing_Runs System_Runs Session_Runs Fine_Runs Memory_Runs Socket_Runs Delivery_Runs Conc_Runs Conc_Test
    Pointer_Size
begin

text \<open>
  Verification of Wineing, the program that hides NxCore (a Windows library for market data)
  behind protobuf messages on ZeroMQ sockets.

  \<^bold>\<open>The program.\<close> \<open>main\<close> (\<^verbatim>\<open>src/src/main/c/main.win.cc\<close>) parses four options, calls
  \<open>wineing_init\<close> (load the NxCore library, initialise locks), \<open>wineing_run\<close> and
  \<open>wineing_shutdown\<close>. \<open>wineing_run\<close> (\<^verbatim>\<open>src/src/main/c/impl/all/core/wineing.cc\<close>) creates three
  threads. \<open>cchan_in_thread\<close> receives requests (start with or without a tape file, stop,
  shutdown), publishes a command through the shared record \<open>g_data\<close>, and sends one response per
  request into an inproc channel. \<open>cchan_out_thread\<close> takes the responses from there and sends
  them to the clients. \<open>market_thread\<close> reads the published command and runs NxCore, which calls
  back into \<open>nxtape_process\<close>; the callback reads the command too, and sends market data.
  The record is shared by the two functions of \<^verbatim>\<open>conc.cc\<close>, which test a version number outside
  the lock and copy inside it.

  \<^bold>\<open>The theories\<close>, in the order of their imports:
  \<^item> \<open>Wineing_Prelude\<close>: C integers, faults, results, buffers, C strings, mutexes.
  \<^item> \<open>Logging\<close>: \<^verbatim>\<open>log/logging.h\<close>, with the part of printf the program uses.
  \<^item> \<open>Messages\<close>, \<open>Externals\<close>: the protobuf messages, and one record \<open>env\<close> with every function
    that is not in the repository (ZeroMQ, protobuf parsing and printing, Windows, NxCore).
  \<^item> \<open>Conc\<close>, \<open>Ctrl_Data\<close>: \<^verbatim>\<open>conc/conc.cc\<close> as sequential functions; \<^verbatim>\<open>core/wineing.h\<close> with the
    control record and its two copy functions. The locale \<open>copy_pair\<close> is what a client owes to
    \<open>conc.cc\<close> (\<open>exact_copy_pair\<close>: that its copies also read back exactly), \<open>versioned_cell\<close>
    what it gets; the copy functions are an interpretation.
  \<^item> \<open>Conc_Steps\<close>, \<open>Conc_Interleaving\<close>, \<open>Conc_Runs\<close>: the same functions statement by statement,
    for any number of threads: mutual exclusion, no torn reads, and the refinement to an atomic
    register with one writer; concrete runs; two owners both write under one version. \<open>Conc_Test\<close> is the
    repository's unit test.
  \<^item> \<open>Chan\<close>, \<open>Nx\<close>: \<^verbatim>\<open>net/chan.cc\<close>, \<^verbatim>\<open>net/chan.h\<close>; \<^verbatim>\<open>nx/nxinf.cc\<close> and \<^verbatim>\<open>nx/nxtape.cc\<close>.
  \<^item> \<open>Shared\<close>: the variables the threads share. \<open>Ctrl_In\<close>, \<open>Ctrl_Out\<close>, \<open>Market\<close>: the three
    threads, each as program points and a function from one to the next, composed of the
    code's blocks. \<open>Ctrl_In_Spec\<close> states the request handler as a state machine over command
    and tape and shows that the handler refines it.
  \<^item> \<open>Cmdline\<close>, \<open>Lifecycle\<close>: the option parser, \<open>wineing_init\<close>, \<open>wineing_run\<close>,
    \<open>wineing_shutdown\<close> and \<open>main\<close>.
  \<^item> \<open>Wineing_System\<close>: the three threads, NxCore and the outside world as one step relation.
    \<open>System_Invariant\<close>: an invariant of its states, one lemma per thread.
    \<open>System_Faults\<close>: which steps can fault or block. \<open>System_Shutdown\<close>: SHUTDOWN is final, at
    most twelve steps follow, the exit code of main. \<open>Startup\<close>: connecting to the inproc channel.
    \<open>Response_Order\<close>: the responses from the request thread to the clients, and what every step
    does to the queues between the threads. \<open>Response_Delivery\<close>: until SHUTDOWN the response thread
    delivers all of them. \<open>Market_Order\<close>: the status messages from NxCore to the market channel.
    \<open>System_Types\<close>: a type for every state of the program. \<open>Request_Session\<close>: the responses and
    the published state of a whole run as a function of the requests. \<open>Tape_History\<close>: where the
    tapes come from that NxCore is run with. \<open>Service\<close>: both ends together, every request is
    answered to the clients as the session says.
  \<^item> \<open>Cell_Frame\<close>, \<open>Fine_System\<close>, \<open>Fine_Simulation\<close>, \<open>Fine_Agreement\<close>: the same program with
    the accesses to the shared record run statement by statement (\<open>fine_step\<close>, made of
    \<open>lazy_step\<close> and \<open>sys_step\<close>), and its agreement with the larger steps in both directions.
  \<^item> \<open>World_Frame\<close>: the parts of a step that leave the outside world alone. \<open>Socket_Use\<close>,
    \<open>Socket_Safety\<close>: which thread holds which socket; only open sockets are used, and in the end
    all are closed but at most those that failed starts and connects have lost. \<open>Context_End\<close>:
    \<open>wineing_shutdown\<close> returns exactly if none is open, and a single failed connect makes it hang.
  \<^item> \<open>Buffer_Memory\<close>: the message buffers as blocks of memory with owners, beside \<open>sys_step\<close>:
    no use after a free, each freed at most once, and exactly which are never freed.
  \<^item> \<open>Demo_World\<close>, \<open>Wineing_Runs\<close>, \<open>System_Runs\<close>, \<open>Session_Runs\<close>, \<open>Fine_Runs\<close>,
    \<open>Memory_Runs\<close>, \<open>Socket_Runs\<close>, \<open>Delivery_Runs\<close>: a concrete environment in which the properties
    are applied, and complete runs of the program in it.
  \<^item> \<open>Pointer_Size\<close>: the experiment with pointer casts in \<^verbatim>\<open>src/playground\<close>, which the program does
    not use.

  \<^bold>\<open>How the model reads.\<close> A struct is a record, an \<open>int\<close> a 32-bit word compared signed, a
  buffer a string of its length, a null or dangling pointer a value of its own. A function that
  can run into undefined behaviour or not return has a result of type \<open>res\<close>: \<open>Inl\<close> with the
  fault (access out of bounds, signed overflow, a printf directive without an argument, misuse
  of a mutex, blocking), \<open>Inr\<close> with its value and the new state. There is no fuel: threads run
  by steps, a blocking call is the fault \<open>WouldBlock\<close> in the state where it waits, and a theorem
  about termination counts steps. The statically initialised control records take their buffers'
  indeterminate bytes as arguments.

  \<^bold>\<open>Grain.\<close> \<open>Conc_Interleaving\<close> interleaves the shared-state functions statement by statement.
  In \<open>Wineing_System\<close> every access to the shared record is a step of its own, apart from the test
  of the command it returns, the publication, the signal and the sending of the response; the
  calls of a thread between two accesses make one step. \<open>Fine_Agreement\<close> shows that nothing is
  lost by taking an access as one step: with its statements (lock, version, copy, unlock)
  interleaved with the other threads, the program shows exactly the same.

  \<^bold>\<open>Assumptions on the environment\<close> are hypotheses of the theorems that need them: \<open>recv_codes\<close>
  (zmq_recv returns 0 or -1), \<open>zmq_documented\<close> (sockets and queues, and that sending does not
  fail), \<open>zmq_delivers\<close> (a message that is there is received), \<open>sockets_documented\<close> (a new socket
  is not an open one, only closing closes), \<open>term_documented\<close> (zmq_term returns when no socket is open
  and no message lingers), \<open>inproc_refused\<close>, \<open>win_constants\<close>, \<open>check_documented\<close> (the test library
  counts the failed tests), \<open>sizeof_documented\<close>, and the size of serialised responses. That ZeroMQ calls a free function at most once, and only for a message
  that was sent, is the rule \<open>mem_freed\<close> of the step relation with memory.

  \<^bold>\<open>What the proofs found\<close>: requests that overflow the tape buffer or are used as a printf
  format; responses that overflow the receive buffer of the response thread; a real-time start
  that replays the previous tape; a stopped market thread that spins; a SHUTDOWN whose response
  may never reach the client; sockets lost by failed connects, for which the process then waits
  for ever at its end; threads that retry for ever when the inproc channel is not there; buffers lost by failed receives, failed sends and status messages; a parser that
  reads outside short arguments.

  \<^bold>\<open>Not modelled\<close>: the insides of ZeroMQ, protobuf, Windows and NxCore; the text of the time
  stamp in a log line; the memory of the channel structs and control records, allocated once per
  thread and never freed; the address of the version number in memory; weak memory (a read or
  write of an aligned \<open>int\<close> is one step); the Java example client, which is another program in
  another language; and what happens after a fault: the thread it occurs in takes no further step.
\<close>

end
